(* ===== verification/Prelude.thy ===== *)
theory Prelude
  imports Main "HOL-Library.Word" "HOL-Library.Sublist"
begin

section \<open>Prelude: programs with effects, outcomes, relational frame rules\<close>

text \<open>
  The library code of pexec is imperative C++ over POSIX system calls. It is translated into
  state-passing programs: a program takes the state and returns an \<open>outcome\<close>. An
  outcome is a value with the next state, the end of the whole process (a failed
  \<open>assert\<close>, \<open>exit\<close>, or a successful \<open>execvp\<close>), or the
  exhaustion of a loop bound (\<open>Spin\<close>), which stands for a loop that is still running.
  The first part defines programs and their evaluation rules, the second part the rules by
  which a reflexive and transitive relation between the states before and after is
  propagated through a program, the third part generic list facts.
\<close>

subsection \<open>Outcomes and programs\<close>

text \<open>How a process can end without returning to its caller.\<close>

datatype ending =
    Exited int
  | Replaced "string option list"
  | Aborted

datatype ('a, 's) outcome =
    Ret 'a 's
  | End ending 's
  | Spin

type_synonym ('s, 'a) prog = "'s \<Rightarrow> ('a, 's) outcome"

definition ret :: "'a \<Rightarrow> ('s, 'a) prog" where
  "ret a = (\<lambda>s. Ret a s)"

definition skip :: "('s, unit) prog" where
  "skip = ret ()"

definition bind :: "('s, 'a) prog \<Rightarrow> ('a \<Rightarrow> ('s, 'b) prog) \<Rightarrow> ('s, 'b) prog" where
  "bind m f = (\<lambda>s. case m s of Ret a s' \<Rightarrow> f a s' | End e s' \<Rightarrow> End e s' | Spin \<Rightarrow> Spin)"

definition seq :: "('s, 'a) prog \<Rightarrow> ('s, 'b) prog \<Rightarrow> ('s, 'b) prog" where
  "seq m k = bind m (\<lambda>_. k)"

definition gets :: "('s \<Rightarrow> 'a) \<Rightarrow> ('s, 'a) prog" where
  "gets f = (\<lambda>s. Ret (f s) s)"

definition upd :: "('s \<Rightarrow> 's) \<Rightarrow> ('s, unit) prog" where
  "upd f = (\<lambda>s. Ret () (f s))"

definition spin :: "('s, 'a) prog" where
  "spin = (\<lambda>s. Spin)"

definition finish :: "ending \<Rightarrow> ('s, 'a) prog" where
  "finish e = (\<lambda>s. End e s)"

definition assertion :: "bool \<Rightarrow> ('s, unit) prog" where
  "assertion b = (if b then skip else finish Aborted)"

definition onlyif :: "bool \<Rightarrow> ('s, unit) prog \<Rightarrow> ('s, unit) prog" where
  "onlyif b m = (if b then m else skip)"

text \<open>A C++ block: its statements one after the other.\<close>

fun block :: "('s, unit) prog list \<Rightarrow> ('s, unit) prog" where
  "block [] = skip"
| "block (m # ms) = seq m (block ms)"

text \<open>A \<open>for\<close> loop over the elements of a container.\<close>

fun foreach :: "'x list \<Rightarrow> ('x \<Rightarrow> ('s, unit) prog) \<Rightarrow> ('s, unit) prog" where
  "foreach [] f = skip"
| "foreach (x # xs) f = seq (f x) (foreach xs f)"

subsection \<open>Evaluation\<close>

named_theorems prog_simps \<open>evaluation of programs in a given state\<close>

lemma prog_eval [prog_simps]:
  "ret a s = Ret a s"
  "skip s = Ret () s"
  "gets g s = Ret (g s) s"
  "upd h s = Ret () (h s)"
  "spin s = Spin"
  "finish e s = End e s"
  by (simp_all add: ret_def skip_def gets_def upd_def spin_def finish_def)

lemma bind_eval [prog_simps]:
  "bind m f s = (case m s of Ret a s' \<Rightarrow> f a s' | End e s' \<Rightarrow> End e s' | Spin \<Rightarrow> Spin)"
  by (simp add: bind_def)

lemma seq_eval [prog_simps]:
  "seq m k s = (case m s of Ret a s' \<Rightarrow> k s' | End e s' \<Rightarrow> End e s' | Spin \<Rightarrow> Spin)"
  by (simp add: seq_def bind_def)

text \<open>Sequences are a monoid.\<close>

lemma seq_laws: "seq skip m = m" "seq m skip = m" "seq (seq a b) c = seq a (seq b c)"
  by (rule ext, simp add: prog_simps split: outcome.split)+

lemma assertion_eval [prog_simps]:
  "assertion b s = (if b then Ret () s else End Aborted s)"
  by (simp add: assertion_def prog_eval)

lemma onlyif_eval [prog_simps]:
  "onlyif b m s = (if b then m s else Ret () s)"
  by (simp add: onlyif_def prog_eval)

text \<open>Inversion: what a returned value says about the parts of a program.\<close>

named_theorems ret_iffs \<open>inversion of \<open>m s = Ret a t\<close>\<close>

lemma ret_Ret [ret_iffs]: "ret a s = Ret b t \<longleftrightarrow> b = a \<and> t = s"
  by (auto simp: prog_simps)

lemma skip_Ret [ret_iffs]: "skip s = Ret b t \<longleftrightarrow> t = s"
  by (auto simp: prog_simps)

lemma bind_Ret [ret_iffs]:
  "bind m f s = Ret b t \<longleftrightarrow> (\<exists>a u. m s = Ret a u \<and> f a u = Ret b t)"
  by (auto simp: prog_simps split: outcome.splits)

lemma seq_Ret [ret_iffs]:
  "seq m k s = Ret b t \<longleftrightarrow> (\<exists>a u. m s = Ret a u \<and> k u = Ret b t)"
  by (auto simp: prog_simps split: outcome.splits)

lemma gets_Ret [ret_iffs]: "gets g s = Ret b t \<longleftrightarrow> b = g s \<and> t = s"
  by (auto simp: prog_simps)

lemma upd_Ret [ret_iffs]: "upd h s = Ret b t \<longleftrightarrow> t = h s"
  by (auto simp: prog_simps)

lemma spin_Ret [ret_iffs]: "spin s = Ret b t \<longleftrightarrow> False"
  by (simp add: prog_simps)

lemma finish_Ret [ret_iffs]: "finish e s = Ret b t \<longleftrightarrow> False"
  by (simp add: prog_simps)

lemma assertion_Ret [ret_iffs]: "assertion p s = Ret b t \<longleftrightarrow> p \<and> t = s"
  by (auto simp: prog_simps)

lemma onlyif_Ret [ret_iffs]:
  "onlyif p m s = Ret b t \<longleftrightarrow> (if p then m s = Ret () t else t = s)"
  by (auto simp: prog_simps)

lemma if_Ret [ret_iffs]:
  "(if p then m else k) s = Ret b t \<longleftrightarrow> (p \<and> m s = Ret b t) \<or> (\<not> p \<and> k s = Ret b t)"
  by simp

lemma case_sum_Ret [ret_iffs]:
  "(case r of Inl x \<Rightarrow> m x | Inr y \<Rightarrow> k y) s = Ret b t \<longleftrightarrow>
   (\<exists>x. r = Inl x \<and> m x s = Ret b t) \<or> (\<exists>y. r = Inr y \<and> k y s = Ret b t)"
  by (cases r) auto

lemma case_option_Ret [ret_iffs]:
  "(case r of None \<Rightarrow> m | Some y \<Rightarrow> k y) s = Ret b t \<longleftrightarrow>
   (r = None \<and> m s = Ret b t) \<or> (\<exists>y. r = Some y \<and> k y s = Ret b t)"
  by (cases r) auto

lemma case_prod_Ret [ret_iffs]:
  "(case r of (x, y) \<Rightarrow> m x y) s = Ret b t \<longleftrightarrow> (\<exists>x y. r = (x, y) \<and> m x y s = Ret b t)"
  by (cases r) auto

subsection \<open>Relational frame rules\<close>

text \<open>
  \<open>pres R m\<close> says that whenever the program \<open>m\<close> returns, the states before and
  after are related by \<open>R\<close>. Where \<open>R\<close> is reflexive and transitive the relation is
  propagated through every control structure, so a frame condition or an invariant of an
  operation is proved by the introduction rules below from the same fact of its parts.
\<close>

definition pres :: "('s \<Rightarrow> 's \<Rightarrow> bool) \<Rightarrow> ('s, 'a) prog \<Rightarrow> bool" where
  "pres R m \<longleftrightarrow> (\<forall>s a t. m s = Ret a t \<longrightarrow> R s t)"

lemma presI: "(\<And>s a t. m s = Ret a t \<Longrightarrow> R s t) \<Longrightarrow> pres R m"
  by (simp add: pres_def)

lemma presD: "pres R m \<Longrightarrow> m s = Ret a t \<Longrightarrow> R s t"
  by (simp add: pres_def)

lemma pres_mono: "pres R m \<Longrightarrow> (\<And>s t. R s t \<Longrightarrow> R' s t) \<Longrightarrow> pres R' m"
  by (auto simp: pres_def)

lemma pres_conj: "pres R m \<Longrightarrow> pres R' m \<Longrightarrow> pres (\<lambda>s t. R s t \<and> R' s t) m"
  by (auto simp: pres_def)

lemma pres_upd: "(\<And>s. R s (h s)) \<Longrightarrow> pres R (upd h)"
  by (auto simp: pres_def ret_iffs)

lemma pres_if: "(b \<Longrightarrow> pres R m) \<Longrightarrow> (\<not> b \<Longrightarrow> pres R k) \<Longrightarrow> pres R (if b then m else k)"
  by simp

lemma pres_option:
  "(x = None \<Longrightarrow> pres R m) \<Longrightarrow> (\<And>y. x = Some y \<Longrightarrow> pres R (k y)) \<Longrightarrow>
   pres R (case x of None \<Rightarrow> m | Some y \<Rightarrow> k y)"
  by (cases x) auto

lemma pres_sum:
  "(\<And>a. x = Inl a \<Longrightarrow> pres R (m a)) \<Longrightarrow> (\<And>b. x = Inr b \<Longrightarrow> pres R (k b)) \<Longrightarrow>
   pres R (case x of Inl a \<Rightarrow> m a | Inr b \<Rightarrow> k b)"
  by (cases x) auto

lemma pres_prod:
  "(\<And>a b. x = (a, b) \<Longrightarrow> pres R (m a b)) \<Longrightarrow> pres R (case x of (a, b) \<Rightarrow> m a b)"
  by (cases x) auto

lemma pres_let: "(\<And>x. x = e \<Longrightarrow> pres R (m x)) \<Longrightarrow> pres R (let x = e in m x)"
  by simp

locale step_rel =
  fixes R :: "'s \<Rightarrow> 's \<Rightarrow> bool"
  assumes R_refl: "R s s"
    and R_trans: "R s t \<Longrightarrow> R t u \<Longrightarrow> R s u"
begin

lemma pres_ret: "pres R (ret a)"
  by (auto simp: pres_def ret_iffs intro: R_refl)

lemma pres_skip: "pres R skip"
  by (auto simp: pres_def ret_iffs intro: R_refl)

lemma pres_gets: "pres R (gets f)"
  by (auto simp: pres_def ret_iffs intro: R_refl)

lemma pres_spin: "pres R spin"
  by (auto simp: pres_def ret_iffs)

lemma pres_finish: "pres R (finish e)"
  by (auto simp: pres_def ret_iffs)

lemma pres_assertion: "pres R (assertion b)"
  by (auto simp: pres_def ret_iffs intro: R_refl)

lemma pres_bind: "pres R m \<Longrightarrow> (\<And>a. pres R (f a)) \<Longrightarrow> pres R (bind m f)"
  unfolding pres_def ret_iffs by (blast intro: R_trans)

lemma pres_seq: "pres R m \<Longrightarrow> pres R k \<Longrightarrow> pres R (seq m k)"
  unfolding pres_def ret_iffs by (blast intro: R_trans)

lemma pres_onlyif: "(b \<Longrightarrow> pres R m) \<Longrightarrow> pres R (onlyif b m)"
  by (auto simp: pres_def ret_iffs intro: R_refl)

lemma pres_block_Nil: "pres R (block [])"
  by (simp add: pres_skip)

lemma pres_block_Cons: "pres R m \<Longrightarrow> pres R (block ms) \<Longrightarrow> pres R (block (m # ms))"
  by (simp add: pres_seq)

lemma pres_foreach: "(\<And>x. x \<in> set xs \<Longrightarrow> pres R (f x)) \<Longrightarrow> pres R (foreach xs f)"
  by (induction xs) (auto intro: pres_skip pres_seq)

lemmas pres_intros =
  pres_ret pres_skip pres_gets pres_spin pres_finish pres_assertion pres_bind pres_seq
  pres_onlyif pres_block_Nil pres_block_Cons pres_foreach pres_if pres_option pres_sum
  pres_prod pres_let

end

text \<open>
  The same with an invariant \<open>I\<close> that the relation keeps: a value that a program reads
  from a state may be assumed to come from a state with the invariant.
\<close>

definition hold :: "('s \<Rightarrow> bool) \<Rightarrow> ('s \<Rightarrow> 's \<Rightarrow> bool) \<Rightarrow> ('s, 'a) prog \<Rightarrow> bool" where
  "hold I R m \<longleftrightarrow> (\<forall>s a t. I s \<longrightarrow> m s = Ret a t \<longrightarrow> R s t)"

lemma holdI: "(\<And>s a t. I s \<Longrightarrow> m s = Ret a t \<Longrightarrow> R s t) \<Longrightarrow> hold I R m"
  by (simp add: hold_def)

lemma holdD: "hold I R m \<Longrightarrow> I s \<Longrightarrow> m s = Ret a t \<Longrightarrow> R s t"
  by (simp add: hold_def)

lemma hold_pres: "pres R m \<Longrightarrow> hold I R m"
  by (auto simp: hold_def pres_def)

lemma hold_if: "(b \<Longrightarrow> hold I R m) \<Longrightarrow> (\<not> b \<Longrightarrow> hold I R k) \<Longrightarrow> hold I R (if b then m else k)"
  by simp

lemma hold_option:
  "(x = None \<Longrightarrow> hold I R m) \<Longrightarrow> (\<And>y. x = Some y \<Longrightarrow> hold I R (k y)) \<Longrightarrow>
   hold I R (case x of None \<Rightarrow> m | Some y \<Rightarrow> k y)"
  by (cases x) auto

lemma hold_sum:
  "(\<And>a. x = Inl a \<Longrightarrow> hold I R (m a)) \<Longrightarrow> (\<And>b. x = Inr b \<Longrightarrow> hold I R (k b)) \<Longrightarrow>
   hold I R (case x of Inl a \<Rightarrow> m a | Inr b \<Rightarrow> k b)"
  by (cases x) auto

lemma hold_prod:
  "(\<And>a b. x = (a, b) \<Longrightarrow> hold I R (m a b)) \<Longrightarrow> hold I R (case x of (a, b) \<Rightarrow> m a b)"
  by (cases x) auto

lemma hold_upd: "(\<And>s. I s \<Longrightarrow> R s (h s)) \<Longrightarrow> hold I R (upd h)"
  by (auto simp: hold_def ret_iffs)

locale guarded = step_rel R for R :: "'s \<Rightarrow> 's \<Rightarrow> bool" +
  fixes I :: "'s \<Rightarrow> bool"
  assumes keeps: "I s \<Longrightarrow> R s t \<Longrightarrow> I t"
begin

lemma hold_gets_bind: "(\<And>s. I s \<Longrightarrow> hold I R (k (f s))) \<Longrightarrow> hold I R (bind (gets f) k)"
  unfolding hold_def ret_iffs by blast

lemma hold_bind: "hold I R m \<Longrightarrow> (\<And>a. hold I R (f a)) \<Longrightarrow> hold I R (bind m f)"
  unfolding hold_def ret_iffs by (blast intro: R_trans keeps)

lemma hold_seq: "hold I R m \<Longrightarrow> hold I R k \<Longrightarrow> hold I R (seq m k)"
  unfolding hold_def ret_iffs by (blast intro: R_trans keeps)

lemma hold_onlyif: "(b \<Longrightarrow> hold I R m) \<Longrightarrow> hold I R (onlyif b m)"
  by (auto simp: onlyif_def intro: hold_pres pres_skip)

lemma hold_block_Nil: "hold I R (block [])"
  by (simp add: hold_pres pres_skip)

lemma hold_block_Cons: "hold I R m \<Longrightarrow> hold I R (block ms) \<Longrightarrow> hold I R (block (m # ms))"
  by (simp add: hold_seq)

lemma hold_simple:
  "hold I R (ret a)" "hold I R skip" "hold I R (gets f)" "hold I R spin" "hold I R (finish e)"
  "hold I R (assertion b)"
  by (auto intro: hold_pres pres_ret pres_skip pres_gets pres_spin pres_finish pres_assertion)

lemmas hold_intros =
  hold_gets_bind hold_bind hold_seq hold_onlyif hold_block_Nil hold_block_Cons hold_simple
  hold_if hold_option hold_sum hold_prod

end

subsection \<open>List facts\<close>

lemma takeWhile_neq_append:
  "d \<notin> set xs \<Longrightarrow> takeWhile ((\<noteq>) d) (xs @ d # ys) = xs"
  by (induction xs) auto

lemma dropWhile_neq_append:
  "d \<notin> set xs \<Longrightarrow> dropWhile ((\<noteq>) d) (xs @ d # ys) = d # ys"
  by (induction xs) auto

lemma takeWhile_neq_all: "d \<notin> set xs \<Longrightarrow> takeWhile ((\<noteq>) d) xs = xs"
  by (induction xs) auto

lemma dropWhile_neq_all: "d \<notin> set xs \<Longrightarrow> dropWhile ((\<noteq>) d) xs = []"
  by (induction xs) auto

lemma notin_takeWhile_neq: "d \<notin> set (takeWhile ((\<noteq>) d) xs)"
  by (induction xs) auto

lemma filter_nonempty_id: "[] \<notin> set xss \<Longrightarrow> filter (\<lambda>x. x \<noteq> []) xss = xss"
  by (induction xss) auto

lemma in_set_tlD: "x \<in> set (tl xs) \<Longrightarrow> x \<in> set xs"
  by (cases xs) auto

lemma set_butlast_Cons: "xs \<noteq> [] \<Longrightarrow> set (butlast (x # xs)) = insert x (set (butlast xs))"
  by simp

lemma append_delim_inject:
  "d \<notin> set xs \<Longrightarrow> d \<notin> set ys \<Longrightarrow> xs @ d # us = ys @ d # vs \<Longrightarrow> xs = ys \<and> us = vs"
proof (induction xs arbitrary: ys)
  case Nil
  then show ?case by (cases ys) auto
next
  case (Cons x xs)
  then show ?case by (cases ys) auto
qed

lemma replicate_update: "(replicate n x)[i := x] = replicate n x"
  by (induction n arbitrary: i) (auto split: nat.splits)

subsection \<open>Printing integers\<close>

text \<open>What \<open>operator<<\<close> of an output stream prints for an integer.\<close>

fun show_nat :: "nat \<Rightarrow> string" where
  "show_nat n =
     (if n < 10 then [char_of (48 + n)] else show_nat (n div 10) @ [char_of (48 + n mod 10)])"

declare show_nat.simps [simp del]

definition show_int :: "int \<Rightarrow> string" where
  "show_int i = (if i < 0 then CHR ''-'' # show_nat (nat (- i)) else show_nat (nat i))"

fun read_nat :: "string \<Rightarrow> nat" where
  "read_nat cs = foldl (\<lambda>a c. 10 * a + (of_char c - 48)) 0 cs"

lemma of_char_digit: "d < 10 \<Longrightarrow> of_char (char_of (48 + d) :: char) = (48 + d :: nat)"
  by simp

lemma read_nat_show_nat: "read_nat (show_nat n) = n"
proof (induction n rule: show_nat.induct)
  case (1 n)
  then show ?case by (auto simp: show_nat.simps [of n] of_char_digit)
qed

lemma show_nat_digits: "c \<in> set (show_nat n) \<Longrightarrow> (of_char c :: nat) \<in> {48..57}"
proof (induction n rule: show_nat.induct)
  case (1 n)
  then show ?case by (auto simp: show_nat.simps [of n] of_char_digit split: if_splits)
qed

lemma show_nat_inject: "show_nat m = show_nat n \<longleftrightarrow> m = n"
  using read_nat_show_nat by metis

lemma show_nat_no_minus: "CHR ''-'' \<notin> set (show_nat n)"
  using show_nat_digits [of "CHR ''-''" n] by auto

lemma show_int_no_paren: "CHR '')'' \<notin> set (show_int i)"
  using show_nat_digits [of "CHR '')''"] by (auto simp: show_int_def)

lemma show_int_inject: "show_int i = show_int j \<longleftrightarrow> i = j"
proof
  assume eq: "show_int i = show_int j"
  have no: "CHR ''-'' # show_nat m \<noteq> show_nat n" for m n
    using show_nat_no_minus [of n] by (metis list.set_intros(1))
  from eq show "i = j"
    by (auto simp: show_int_def show_nat_inject no no [symmetric] eq_nat_nat_iff
        split: if_splits)
qed simp

end
