(* ===== verification/Argument_Parser.thy ===== *)
theory Argument_Parser
  imports Prelude
begin

section \<open>The command line parser (argument_parser.cpp)\<close>

text \<open>
  \<open>str2arg\<close> splits a command line into the argument vector for \<open>execvp\<close>, and
  \<open>arg2str\<close> prints an argument vector as a command line. Strings are lists of bytes. The
  loop counters of the source are \<open>int\<close>; they index the vectors of pieces of one command
  line, so they do not overflow for a line shorter than $2^{31}$ bytes.
  The lemmas show that the vectors \<open>str2arg\<close> returns are exactly the \<open>valid_args\<close>,
  and that printing one and parsing it again gives it back.
\<close>

abbreviation quote_char :: char where
  "quote_char \<equiv> CHR 0x22"

abbreviation backslash :: char where
  "backslash \<equiv> CHR 0x5C"

subsection \<open>Splitting at a delimiter\<close>

text \<open>
  \<open>std::getline\<close> on a string stream: it fails when no byte is left, and otherwise
  extracts up to the delimiter, which it drops.
\<close>

definition getline :: "string \<Rightarrow> char \<Rightarrow> (string \<times> string) option" where
  "getline ss delim =
     (if ss = [] then None
      else Some (takeWhile ((\<noteq>) delim) ss, tl (dropWhile ((\<noteq>) delim) ss)))"

lemma getline_shorter: "getline ss delim = Some (item, rest) \<Longrightarrow> length rest < length ss"
  by (auto simp: getline_def less_Suc_eq_le length_dropWhile_le le_diff_conv split: if_splits)
     (metis One_nat_def diff_less length_dropWhile_le length_greater_0_conv less_le_trans
       less_numeral_extra(1) list.size(3) not_le zero_diff zero_less_diff)

function split_delim :: "string \<Rightarrow> char \<Rightarrow> string list" where
  "split_delim ss delim =
     (case getline ss delim of
        None \<Rightarrow> []
      | Some (item, rest) \<Rightarrow> item # split_delim rest delim)"
  by pat_completeness auto
termination
  by (relation "measure (\<lambda>(ss, delim). length ss)") (auto intro: getline_shorter)

declare split_delim.simps [simp del]

subsection \<open>From a command line to arguments\<close>

text \<open>
  The first loop of \<open>str2arg\<close>: the pieces between quotes, at the even positions split
  again at spaces, at the odd positions (inside quotes) taken as they are; empty pieces are
  dropped.
\<close>

fun collect_args :: "nat \<Rightarrow> string list \<Rightarrow> string list" where
  "collect_args i [] = []"
| "collect_args i (sub # subs) =
     (if i mod 2 = 0 then filter (\<lambda>proc. proc \<noteq> []) (split_delim sub CHR '' '')
      else if sub = [] then [] else [sub]) @ collect_args (i + 1) subs"

text \<open>
  The second loop: an argument that ends in a backslash is joined to the next one with a
  space in the place of the backslash.
\<close>

fun merge_args :: "string \<Rightarrow> string list \<Rightarrow> string list \<Rightarrow> string list" where
  "merge_args prev [] out = out @ [prev]"
| "merge_args prev (now # rest) out =
     (if prev = [] then merge_args prev rest out
      else if last prev = backslash
        then merge_args (butlast prev @ CHR '' '' # now) rest out
      else merge_args now rest (out @ [prev]))"

definition str2arg :: "string \<Rightarrow> string list" where
  "str2arg ss =
     (if ss = [] then []
      else (case collect_args 0 (split_delim ss quote_char) of
              [] \<Rightarrow> []
            | prev # rest \<Rightarrow> merge_args prev rest []))"

subsection \<open>From arguments to a command line\<close>

fun contains_space :: "string \<Rightarrow> bool" where
  "contains_space [] = False"
| "contains_space (c # p) = (if c = CHR '' '' then True else contains_space p)"

fun arg2str :: "string list \<Rightarrow> string" where
  "arg2str [] = []"
| "arg2str (p # args) =
     (if contains_space p then [quote_char] else []) @ p @
     (if contains_space p then [quote_char] else []) @
     (if args \<noteq> [] then '' '' else []) @ arg2str args"

subsection \<open>Facts of the splitter\<close>

lemma split_delim_Nil [simp]: "split_delim [] d = []"
  by (simp add: split_delim.simps [of "[]"] getline_def)

lemma split_delim_no_delim:
  "xs \<noteq> [] \<Longrightarrow> d \<notin> set xs \<Longrightarrow> split_delim xs d = [xs]"
  by (simp add: split_delim.simps [of xs] getline_def takeWhile_neq_all dropWhile_neq_all)

lemma split_delim_append:
  "d \<notin> set xs \<Longrightarrow> split_delim (xs @ d # ys) d = xs # split_delim ys d"
  by (simp add: split_delim.simps [of "xs @ d # ys"] getline_def takeWhile_neq_append
      dropWhile_neq_append)

lemma split_delim_Cons_delim: "split_delim (d # ys) d = [] # split_delim ys d"
  using split_delim_append [of d "[]" ys] by simp

lemma split_delim_pieces: "x \<in> set (split_delim ss d) \<Longrightarrow> d \<notin> set x"
proof (induction ss d rule: split_delim.induct)
  case (1 ss d)
  show ?case
  proof (cases "ss = []")
    case True
    with "1.prems" show ?thesis by simp
  next
    case False
    let ?item = "takeWhile ((\<noteq>) d) ss" and ?rest = "tl (dropWhile ((\<noteq>) d) ss)"
    have g: "getline ss d = Some (?item, ?rest)"
      using False by (simp add: getline_def)
    with "1.prems" have "x = ?item \<or> x \<in> set (split_delim ?rest d)"
      by (auto simp: split_delim.simps [of ss])
    with "1.IH" [OF g] show ?thesis
      by (auto simp: notin_takeWhile_neq)
  qed
qed

lemma split_delim_subset: "x \<in> set (split_delim ss d) \<Longrightarrow> set x \<subseteq> set ss"
proof (induction ss d rule: split_delim.induct)
  case (1 ss d)
  show ?case
  proof (cases "ss = []")
    case True
    with "1.prems" show ?thesis by simp
  next
    case False
    let ?item = "takeWhile ((\<noteq>) d) ss" and ?rest = "tl (dropWhile ((\<noteq>) d) ss)"
    have g: "getline ss d = Some (?item, ?rest)"
      using False by (simp add: getline_def)
    with "1.prems" have "x = ?item \<or> x \<in> set (split_delim ?rest d)"
      by (auto simp: split_delim.simps [of ss])
    with "1.IH" [OF g] show ?thesis
      by (auto dest: set_takeWhileD set_dropWhileD in_set_tlD)
  qed
qed

text \<open>A prefix without the delimiter goes to the first piece.\<close>

lemma split_delim_nonempty: "ss \<noteq> [] \<Longrightarrow> split_delim ss d \<noteq> []"
  by (simp add: split_delim.simps [of ss] getline_def)

lemma split_delim_prefix:
  assumes "d \<notin> set xs" and "ys \<noteq> []"
  shows "split_delim (xs @ ys) d = (xs @ hd (split_delim ys d)) # tl (split_delim ys d)"
proof (cases "d \<in> set ys")
  case True
  then obtain us vs where ys: "ys = us @ d # vs" and us: "d \<notin> set us"
    by (metis split_list_first)
  have "split_delim ((xs @ us) @ d # vs) d = (xs @ us) # split_delim vs d"
    using assms(1) us by (intro split_delim_append) simp
  then show ?thesis
    using us by (simp add: ys split_delim_append)
next
  case False
  with assms show ?thesis by (simp add: split_delim_no_delim)
qed

subsection \<open>Facts of the first loop\<close>

lemma collect_args_add2: "collect_args (Suc (Suc i)) subs = collect_args i subs"
  by (induction i subs rule: collect_args.induct) (simp_all add: mod_Suc)

lemma collect_args_nonempty: "p \<in> set (collect_args i subs) \<Longrightarrow> p \<noteq> []"
  by (induction i subs rule: collect_args.induct) (auto split: if_splits)

lemma collect_args_subset:
  "p \<in> set (collect_args i subs) \<Longrightarrow> \<exists>sub \<in> set subs. set p \<subseteq> set sub"
  by (induction i subs rule: collect_args.induct)
     (auto split: if_splits dest: split_delim_subset)

definition unquoted :: "string \<Rightarrow> string list" where
  "unquoted ss = collect_args 0 (split_delim ss quote_char)"

lemma unquoted_Nil [simp]: "unquoted [] = []"
  by (simp add: unquoted_def)

lemma unquoted_word:
  "w \<noteq> [] \<Longrightarrow> CHR '' '' \<notin> set w \<Longrightarrow> quote_char \<notin> set w \<Longrightarrow> unquoted w = [w]"
  by (simp add: unquoted_def split_delim_no_delim)

lemma unquoted_word_space:
  assumes "w \<noteq> []" and "CHR '' '' \<notin> set w" and "quote_char \<notin> set w"
  shows "unquoted (w @ CHR '' '' # ss) = w # unquoted ss"
proof (cases "ss = []")
  case True
  have "split_delim (w @ [CHR '' '']) CHR '' '' = [w]"
    using assms(2) by (simp add: split_delim_append)
  with True assms show ?thesis
    by (simp add: unquoted_def split_delim_no_delim)
next
  case False
  have "split_delim ((w @ '' '') @ ss) quote_char =
      ((w @ '' '') @ hd (split_delim ss quote_char)) # tl (split_delim ss quote_char)"
    using assms(3) False by (intro split_delim_prefix) auto
  moreover obtain x xs where x: "split_delim ss quote_char = x # xs"
    using False split_delim_nonempty [of ss] by (cases "split_delim ss quote_char") auto
  moreover have "split_delim (w @ CHR '' '' # x) CHR '' '' = w # split_delim x CHR '' ''"
    using assms(2) by (rule split_delim_append)
  ultimately show ?thesis
    using assms(1) by (simp add: unquoted_def)
qed

lemma unquoted_space: "unquoted (CHR '' '' # ss) = unquoted ss"
proof (cases "ss = []")
  case True
  then show ?thesis
    by (simp add: unquoted_def split_delim_no_delim split_delim_Cons_delim)
next
  case False
  have "split_delim ('' '' @ ss) quote_char =
      ('' '' @ hd (split_delim ss quote_char)) # tl (split_delim ss quote_char)"
    using False by (intro split_delim_prefix) auto
  moreover obtain x xs where "split_delim ss quote_char = x # xs"
    using False split_delim_nonempty [of ss] by (cases "split_delim ss quote_char") auto
  ultimately show ?thesis
    by (simp add: unquoted_def split_delim_Cons_delim)
qed

lemma unquoted_quoted:
  assumes "p \<noteq> []" and "quote_char \<notin> set p"
  shows "unquoted (quote_char # p @ quote_char # ss) = p # unquoted ss"
  using assms
  by (simp add: unquoted_def split_delim_Cons_delim split_delim_append collect_args_add2
      numeral_2_eq_2)

lemma contains_space_iff: "contains_space p \<longleftrightarrow> CHR '' '' \<in> set p"
  by (induction p) auto

lemma unquoted_arg2str:
  "\<forall>p \<in> set args. p \<noteq> [] \<and> quote_char \<notin> set p \<Longrightarrow> unquoted (arg2str args) = args"
proof (induction args)
  case Nil
  then show ?case by simp
next
  case (Cons p args)
  then have p: "p \<noteq> []" "quote_char \<notin> set p" and IH: "unquoted (arg2str args) = args"
    by auto
  show ?case
    using p IH
    by (auto simp: contains_space_iff unquoted_quoted unquoted_space unquoted_word
        unquoted_word_space)
qed

subsection \<open>Facts of the second loop\<close>

lemma merge_args_id:
  "\<forall>p \<in> set (butlast (prev # rest)). p \<noteq> [] \<and> last p \<noteq> backslash \<Longrightarrow>
   merge_args prev rest out = out @ prev # rest"
  by (induction prev rest out rule: merge_args.induct) (auto split: if_splits)

text \<open>The argument vectors a command line can stand for.\<close>

definition valid_args :: "string list \<Rightarrow> bool" where
  "valid_args args \<longleftrightarrow>
     (\<forall>p \<in> set args. p \<noteq> [] \<and> quote_char \<notin> set p) \<and>
     (\<forall>p \<in> set (butlast args). last p \<noteq> backslash)"

lemma merge_args_valid:
  assumes "\<forall>p \<in> set (prev # rest). p \<noteq> [] \<and> quote_char \<notin> set p"
    and "\<forall>p \<in> set out. p \<noteq> [] \<and> quote_char \<notin> set p \<and> last p \<noteq> backslash"
  shows "valid_args (merge_args prev rest out)"
  using assms
proof (induction prev rest out rule: merge_args.induct)
  case (1 prev out)
  then show ?case by (auto simp: valid_args_def butlast_append)
next
  case (2 prev now rest out)
  have "prev \<noteq> []" and quotes: "quote_char \<notin> set (butlast prev)"
    using "2.prems"(1) by (auto dest: in_set_butlastD)
  show ?case
  proof (cases "last prev = backslash")
    case True
    have "valid_args (merge_args (butlast prev @ CHR '' '' # now) rest out)"
      using "2.prems" quotes by (intro "2.IH"(2) \<open>prev \<noteq> []\<close> True) auto
    with \<open>prev \<noteq> []\<close> True show ?thesis by simp
  next
    case False
    have "valid_args (merge_args now rest (out @ [prev]))"
      using "2.prems" False by (intro "2.IH"(3) \<open>prev \<noteq> []\<close> False) auto
    with \<open>prev \<noteq> []\<close> False show ?thesis by simp
  qed
qed

lemma str2arg_unquoted:
  "str2arg ss = (case unquoted ss of [] \<Rightarrow> [] | prev # rest \<Rightarrow> merge_args prev rest [])"
  by (simp add: str2arg_def unquoted_def)

lemma str2arg_valid: "valid_args (str2arg ss)"
proof (cases "unquoted ss")
  case Nil
  then show ?thesis by (simp add: str2arg_unquoted valid_args_def)
next
  case (Cons prev rest)
  have "p \<noteq> [] \<and> quote_char \<notin> set p" if "p \<in> set (prev # rest)" for p
  proof -
    have p: "p \<in> set (collect_args 0 (split_delim ss quote_char))"
      using that Cons by (simp add: unquoted_def)
    then obtain sub where "sub \<in> set (split_delim ss quote_char)" and "set p \<subseteq> set sub"
      using collect_args_subset by blast
    with split_delim_pieces have "quote_char \<notin> set p" by blast
    with p show ?thesis by (simp add: collect_args_nonempty)
  qed
  then have "valid_args (merge_args prev rest [])"
    by (intro merge_args_valid) auto
  with Cons show ?thesis by (simp add: str2arg_unquoted)
qed

lemma str2arg_arg2str_valid:
  assumes "valid_args args"
  shows "str2arg (arg2str args) = args"
proof (cases args)
  case Nil
  then show ?thesis by (simp add: str2arg_def)
next
  case (Cons prev rest)
  have "unquoted (arg2str args) = args"
    using assms by (intro unquoted_arg2str) (auto simp: valid_args_def)
  moreover have "\<forall>p \<in> set (butlast args). p \<noteq> [] \<and> last p \<noteq> backslash"
    using assms by (auto simp: valid_args_def dest: in_set_butlastD)
  ultimately show ?thesis
    using Cons merge_args_id [of prev rest "[]"] by (simp add: str2arg_unquoted)
qed

subsection \<open>Properties\<close>

text \<open>
  Property C28. Printing an argument vector and parsing it again gives it back, for every
  vector whose arguments are not empty, hold no quote, and do not end in a backslash unless
  they are last: spaces inside arguments survive because \<open>arg2str\<close> quotes them.
\<close>

theorem str2arg_arg2str_roundtrip:
  assumes "\<forall>p \<in> set args. p \<noteq> [] \<and> quote_char \<notin> set p"
    and "\<forall>p \<in> set (butlast args). last p \<noteq> backslash"
  shows "str2arg (arg2str args) = args"
  using assms by (intro str2arg_arg2str_valid) (simp add: valid_args_def)

theorem str2arg_arg2str_roundtrip_witness:
  "str2arg (arg2str [''cp'', ''./file with spaces.txt'', ''./output.txt'']) =
     [''cp'', ''./file with spaces.txt'', ''./output.txt'']"
  by (rule str2arg_arg2str_roundtrip) simp_all

text \<open>
  Every command line has a normal form: whatever the line, the vector it
  parses to can be printed and parsed again without change, and it is a vector whose
  arguments are not empty, hold no quote, and (the last one apart) do not end in a
  backslash.
\<close>

theorem str2arg_normal_form:
  "str2arg (arg2str (str2arg ss)) = str2arg ss \<and> [] \<notin> set (str2arg ss) \<and>
   (\<forall>p. p \<in> set (str2arg ss) \<and> quote_char \<in> set p \<longleftrightarrow> False) \<and>
   filter (\<lambda>p. last p = backslash) (butlast (str2arg ss)) = []"
  using str2arg_valid [of ss] str2arg_arg2str_valid [OF str2arg_valid [of ss]]
  by (auto simp: valid_args_def filter_empty_conv)

end
