(* ===== verification/Queue_Buffer.thy ===== *)
theory Queue_Buffer
  imports Prelude "HOL-Library.Multiset"
begin

section \<open>The job queue (queue_buffer.h)\<close>

text \<open>
  \<open>queue_buffer\<close> is a bounded queue behind one mutex and one condition variable. First
  the operations as the critical sections do them, where \<open>None\<close> says that the predicate
  of \<open>cond.wait\<close> is false and the caller blocks; then the monitor with any number of
  threads, as a step relation between states. A thread is what it still has to do: enter an
  operation, wait on the condition variable, or call \<open>notify_one\<close> after it has released
  the mutex. Threads that do the same thing are not told apart, so the threads are a
  multiset. The relation has a step for a spurious wakeup.
\<close>

subsection \<open>The interface of a queue\<close>

fun put_all :: "('a \<Rightarrow> 'q \<Rightarrow> 'q option) \<Rightarrow> 'a list \<Rightarrow> 'q \<Rightarrow> 'q option" where
  "put_all put [] q = Some q"
| "put_all put (x # xs) q = (case put x q of None \<Rightarrow> None | Some q' \<Rightarrow> put_all put xs q')"

fun take_all :: "('q \<Rightarrow> ('a \<times> 'q) option) \<Rightarrow> nat \<Rightarrow> 'q \<Rightarrow> ('a list \<times> 'q) option" where
  "take_all tk 0 q = Some ([], q)"
| "take_all tk (Suc n) q =
     (case tk q of None \<Rightarrow> None
      | Some (x, q') \<Rightarrow> map_option (\<lambda>(xs, q''). (x # xs, q'')) (take_all tk n q'))"

text \<open>
  What a client of the queue relies on: values come out in the order they went in, an
  insertion succeeds while there is room, a removal while there is a value.
\<close>

locale fifo =
  fixes content :: "'q \<Rightarrow> 'a list"
    and room :: "'q \<Rightarrow> nat"
    and put :: "'a \<Rightarrow> 'q \<Rightarrow> 'q option"
    and tk :: "'q \<Rightarrow> ('a \<times> 'q) option"
  assumes put_room: "0 < room q \<Longrightarrow>
      \<exists>q'. put x q = Some q' \<and> content q' = content q @ [x] \<and> room q' = room q - 1"
    and tk_first: "content q = x # xs \<Longrightarrow> \<exists>q'. tk q = Some (x, q') \<and> content q' = xs"
    and tk_empty: "content q = [] \<Longrightarrow> tk q = None"
begin

lemma put_all_content:
  "length xs \<le> room q \<Longrightarrow> \<exists>q'. put_all put xs q = Some q' \<and> content q' = content q @ xs"
proof (induction xs arbitrary: q)
  case Nil
  then show ?case by simp
next
  case (Cons x xs)
  then obtain q' where "put x q = Some q'" and "content q' = content q @ [x]"
    and "room q' = room q - 1"
    using put_room [of q x] by auto
  with Cons.IH [of q'] Cons.prems show ?case by auto
qed

lemma take_all_content:
  "take_all tk (length (content q)) q = Some (content q, q') \<Longrightarrow> tk q' = None \<Longrightarrow> content q' = []"
  by (metis neq_Nil_conv option.distinct(1) tk_first)

lemma take_all_prefix:
  "content q = xs @ ys \<Longrightarrow>
   \<exists>q'. take_all tk (length xs) q = Some (xs, q') \<and> content q' = ys"
proof (induction xs arbitrary: q)
  case Nil
  then show ?case by simp
next
  case (Cons x xs)
  then obtain q' where "tk q = Some (x, q')" and "content q' = xs @ ys"
    using tk_first [of q x "xs @ ys"] by auto
  with Cons.IH [of q'] show ?case by auto
qed

lemma put_take_all:
  assumes "content q = []" and "length xs \<le> room q"
  shows "\<exists>q' q''. put_all put xs q = Some q' \<and> take_all tk (length xs) q' = Some (xs, q'') \<and>
     tk q'' = None"
proof -
  obtain q' where q': "put_all put xs q = Some q'" "content q' = xs"
    using put_all_content [of xs q] assms by auto
  then obtain q'' where "take_all tk (length xs) q' = Some (xs, q'')" "content q'' = []"
    using take_all_prefix [of q' xs "[]"] by auto
  with q' tk_empty show ?thesis by blast
qed

end

subsection \<open>The critical sections\<close>

text \<open>\<open>std::numeric_limits<unsigned long>::max()\<close>, 64 bits.\<close>

definition ULONG_MAX :: nat where
  "ULONG_MAX = 2 ^ 64 - 1"

record 'a queue_buffer =
  qb_buffer :: "'a list"
  qb_size :: nat

definition empty_queue :: "'a queue_buffer" where
  "empty_queue = \<lparr>qb_buffer = [], qb_size = ULONG_MAX\<rparr>"

definition qb_add :: "'a \<Rightarrow> 'a queue_buffer \<Rightarrow> 'a queue_buffer option" where
  "qb_add num q =
     (if length (qb_buffer q) < qb_size q then Some (q\<lparr>qb_buffer := qb_buffer q @ [num]\<rparr>) else None)"

definition qb_clear :: "'a queue_buffer \<Rightarrow> 'a queue_buffer" where
  "qb_clear q = q\<lparr>qb_buffer := []\<rparr>"

definition qb_clear_add :: "'a \<Rightarrow> 'a queue_buffer \<Rightarrow> 'a queue_buffer" where
  "qb_clear_add val q = q\<lparr>qb_buffer := [val]\<rparr>"

definition qb_remove :: "'a queue_buffer \<Rightarrow> ('a \<times> 'a queue_buffer) option" where
  "qb_remove q = (case qb_buffer q of [] \<Rightarrow> None | back # rest \<Rightarrow> Some (back, q\<lparr>qb_buffer := rest\<rparr>))"

definition qb_state :: "'a queue_buffer \<Rightarrow> 'a list" where
  "qb_state q = foldl (\<lambda>copy it. copy @ [it]) [] (qb_buffer q)"

lemma qb_state_eq: "qb_state q = qb_buffer q"
proof -
  have "foldl (\<lambda>copy it. copy @ [it]) acc xs = acc @ xs" for acc xs :: "'a list"
    by (induction xs arbitrary: acc) auto
  then show ?thesis by (simp add: qb_state_def)
qed

interpretation qb: fifo qb_buffer "\<lambda>q. qb_size q - length (qb_buffer q)" qb_add qb_remove
  by unfold_locales (auto simp: qb_add_def qb_remove_def)

subsection \<open>The monitor\<close>

datatype 'a thread =
    Add 'a
  | Add_Waiting 'a
  | Remove
  | Remove_Waiting
  | Clear
  | Clear_Add 'a
  | Notify

record 'a monitor =
  queue :: "'a queue_buffer"
  threads :: "'a thread multiset"
  added :: "'a list" \<comment> \<open>the values that entered the buffer, in order\<close>
  removed :: "'a list" \<comment> \<open>the values that \<open>remove\<close> returned, in order\<close>

definition init_monitor :: "nat \<Rightarrow> 'a monitor" where
  "init_monitor cap =
     \<lparr>queue = \<lparr>qb_buffer = [], qb_size = cap\<rparr>, threads = {#}, added = [], removed = []\<rparr>"

definition goes :: "'a thread \<Rightarrow> 'a thread \<Rightarrow> 'a monitor \<Rightarrow> 'a monitor" where
  "goes t t' m = m\<lparr>threads := add_mset t' (threads m - {#t#})\<rparr>"

definition is_waiting :: "'a thread \<Rightarrow> bool" where
  "is_waiting t \<longleftrightarrow> (case t of Add_Waiting v \<Rightarrow> True | Remove_Waiting \<Rightarrow> True | _ \<Rightarrow> False)"

definition is_entering :: "'a thread \<Rightarrow> bool" where
  "is_entering t \<longleftrightarrow>
     (case t of Add v \<Rightarrow> True | Remove \<Rightarrow> True | Clear \<Rightarrow> True | Clear_Add v \<Rightarrow> True | _ \<Rightarrow> False)"

inductive mstep :: "'a monitor \<Rightarrow> 'a monitor \<Rightarrow> bool" where
  calls: "is_entering t \<Longrightarrow> mstep m (m\<lparr>threads := add_mset t (threads m)\<rparr>)"
| add_push: "Add v \<in># threads m \<Longrightarrow> qb_add v (queue m) = Some q \<Longrightarrow>
     mstep m (goes (Add v) Notify (m\<lparr>queue := q, added := added m @ [v]\<rparr>))"
| add_wait: "Add v \<in># threads m \<Longrightarrow> qb_add v (queue m) = None \<Longrightarrow>
     mstep m (goes (Add v) (Add_Waiting v) m)"
| remove_pop: "Remove \<in># threads m \<Longrightarrow> qb_remove (queue m) = Some (v, q) \<Longrightarrow>
     mstep m (goes Remove Notify (m\<lparr>queue := q, removed := removed m @ [v]\<rparr>))"
| remove_wait: "Remove \<in># threads m \<Longrightarrow> qb_remove (queue m) = None \<Longrightarrow>
     mstep m (goes Remove Remove_Waiting m)"
| clear: "Clear \<in># threads m \<Longrightarrow>
     mstep m (goes Clear Notify (m\<lparr>queue := qb_clear (queue m)\<rparr>))"
| clear_add: "Clear_Add v \<in># threads m \<Longrightarrow>
     mstep m (goes (Clear_Add v) Notify
       (m\<lparr>queue := qb_clear_add v (queue m), added := added m @ [v]\<rparr>))"
| notify_add: "Notify \<in># threads m \<Longrightarrow> Add_Waiting v \<in># threads m \<Longrightarrow>
     mstep m (goes (Add_Waiting v) (Add v) (m\<lparr>threads := threads m - {#Notify#}\<rparr>))"
| notify_remove: "Notify \<in># threads m \<Longrightarrow> Remove_Waiting \<in># threads m \<Longrightarrow>
     mstep m (goes Remove_Waiting Remove (m\<lparr>threads := threads m - {#Notify#}\<rparr>))"
| notify_nobody: "Notify \<in># threads m \<Longrightarrow> filter_mset is_waiting (threads m) = {#} \<Longrightarrow>
     mstep m (m\<lparr>threads := threads m - {#Notify#}\<rparr>)"
| spurious_add: "Add_Waiting v \<in># threads m \<Longrightarrow> mstep m (goes (Add_Waiting v) (Add v) m)"
| spurious_remove: "Remove_Waiting \<in># threads m \<Longrightarrow> mstep m (goes Remove_Waiting Remove m)"

inductive mreach :: "nat \<Rightarrow> 'a monitor \<Rightarrow> bool" for cap where
  start: "mreach cap (init_monitor cap)"
| step: "mreach cap m \<Longrightarrow> mstep m m' \<Longrightarrow> mreach cap m'"

inductive_cases mstep_cases: "mstep m m'"

subsection \<open>Order\<close>

text \<open>
  The values in the buffer and those already handed out are the added ones in order, except
  for the ones a \<open>clear\<close> dropped.
\<close>

definition fifo_order :: "'a monitor \<Rightarrow> bool" where
  "fifo_order m \<longleftrightarrow> subseq (removed m @ qb_buffer (queue m)) (added m)"

lemma subseq_prefixD: "subseq (xs @ ys) zs \<Longrightarrow> subseq xs zs"
  by (meson prefix_imp_subseq prefixI subseq_order.order_trans)

lemmas queue_op_defs = qb_add_def qb_remove_def qb_clear_def qb_clear_add_def

lemma mstep_fifo_order: "mstep m m' \<Longrightarrow> fifo_order m \<Longrightarrow> fifo_order m'"
proof (induction rule: mstep.induct)
  case (add_push v m q)
  then show ?case
    by (auto simp: fifo_order_def goes_def queue_op_defs split: if_splits
        simp flip: append_assoc intro: list_emb_append_mono)
next
  case (remove_pop m v q)
  then show ?case
    by (auto simp: fifo_order_def goes_def queue_op_defs split: list.splits)
next
  case (clear m)
  then show ?case
    by (auto simp: fifo_order_def goes_def queue_op_defs dest: subseq_prefixD)
next
  case (clear_add v m)
  then show ?case
    by (auto simp: fifo_order_def goes_def queue_op_defs
        intro!: list_emb_append_mono dest: subseq_prefixD)
qed (auto simp: fifo_order_def goes_def)

lemma mreach_fifo_order: "mreach cap m \<Longrightarrow> fifo_order m"
  by (induction rule: mreach.induct)
     (auto simp: init_monitor_def fifo_order_def intro: mstep_fifo_order [unfolded fifo_order_def])

subsection \<open>Wakeups\<close>

text \<open>
  The monitor has one condition variable for both predicates and wakes one thread at a time.
  While fewer values were added than fit, no producer ever waits, and then each value in the
  buffer has a thread that will take it or pass the wakeup on, as long as a consumer waits.
\<close>

definition movers :: "'a monitor \<Rightarrow> nat" where
  "movers m = count (threads m) Notify + count (threads m) Remove"

definition no_lost_wakeup :: "nat \<Rightarrow> 'a monitor \<Rightarrow> bool" where
  "no_lost_wakeup cap m \<longleftrightarrow>
     qb_size (queue m) = cap \<and> length (qb_buffer (queue m)) \<le> length (added m) \<and>
     (length (added m) < cap \<longrightarrow>
        (\<forall>v. Add_Waiting v \<notin># threads m) \<and>
        (Remove_Waiting \<in># threads m \<longrightarrow> length (qb_buffer (queue m)) \<le> movers m))"

lemma count_goes:
  "t \<in># threads m \<Longrightarrow> t' \<noteq> t \<Longrightarrow>
   count (threads (goes t t' m)) x =
     (if x = t' then Suc (count (threads m) x) else if x = t then count (threads m) x - 1
      else count (threads m) x)"
  by (auto simp: goes_def)

lemma mem_goes:
  "x \<in># threads (goes t t' m) \<Longrightarrow> x = t' \<or> x \<in># threads m"
  by (auto simp: goes_def dest: in_diffD)

lemma goes_fields [simp]:
  "queue (goes t t' m) = queue m" "added (goes t t' m) = added m"
  "removed (goes t t' m) = removed m"
  by (simp_all add: goes_def)


lemma mstep_no_lost_wakeup: "mstep m m' \<Longrightarrow> no_lost_wakeup cap m \<Longrightarrow> no_lost_wakeup cap m'"
proof (induction rule: mstep.induct)
  case (calls t m)
  then show ?case
    by (auto simp: no_lost_wakeup_def movers_def is_entering_def)
next
  case (add_push v m q)
  have "Suc (count (threads m) Notify + count (threads m) Remove) =
      movers (goes (Add v) Notify (m\<lparr>queue := q, added := added m @ [v]\<rparr>))"
    using add_push(1) by (simp add: movers_def count_goes)
  with add_push show ?case
    by (auto simp: no_lost_wakeup_def qb_add_def movers_def split: if_splits dest!: mem_goes)
next
  case (add_wait v m)
  then show ?case
    by (auto simp: no_lost_wakeup_def qb_add_def split: if_splits)
next
  case (remove_pop m v q)
  have "movers (goes Remove Notify (m\<lparr>queue := q, removed := removed m @ [v]\<rparr>)) = movers m"
    using remove_pop(1) by (simp add: movers_def count_goes)
  with remove_pop show ?case
    by (auto simp: no_lost_wakeup_def qb_remove_def split: list.splits dest!: mem_goes)
next
  case (remove_wait m)
  then show ?case
    by (auto simp: no_lost_wakeup_def qb_remove_def split: list.splits dest!: mem_goes)
next
  case (clear m)
  then show ?case
    by (auto simp: no_lost_wakeup_def qb_clear_def dest!: mem_goes)
next
  case (clear_add v m)
  have "0 < movers (goes (Clear_Add v) Notify
      (m\<lparr>queue := qb_clear_add v (queue m), added := added m @ [v]\<rparr>))"
    using clear_add(1) by (simp add: movers_def count_goes)
  with clear_add show ?case
    by (auto simp: no_lost_wakeup_def qb_clear_add_def dest!: mem_goes)
next
  case (notify_add m v)
  then show ?case by (auto simp: no_lost_wakeup_def dest!: mem_goes in_diffD)
next
  case (notify_remove m)
  have "movers (goes Remove_Waiting Remove (m\<lparr>threads := threads m - {#Notify#}\<rparr>)) = movers m"
    using notify_remove(1,2) by (auto simp: movers_def goes_def simp flip: count_greater_zero_iff)
  with notify_remove show ?case
    by (auto simp: no_lost_wakeup_def dest!: mem_goes in_diffD [of "Add_Waiting _"])
next
  case (notify_nobody m)
  then show ?case
    by (auto simp: no_lost_wakeup_def is_waiting_def filter_mset_eq_mempty_iff dest!: in_diffD)
next
  case (spurious_add v m)
  then show ?case by (auto simp: no_lost_wakeup_def movers_def count_goes dest!: mem_goes)
next
  case (spurious_remove m)
  then show ?case by (auto simp: no_lost_wakeup_def movers_def count_goes dest!: mem_goes)
qed

lemma mreach_no_lost_wakeup: "mreach cap m \<Longrightarrow> no_lost_wakeup cap m"
proof (induction rule: mreach.induct)
  case start
  show ?case by (simp add: init_monitor_def no_lost_wakeup_def)
qed (rule mstep_no_lost_wakeup)

subsection \<open>Properties\<close>

text \<open>
  Property C25. Jobs are processed in the order they were queued: up to $2^{64} - 1$ values
  put into an empty queue never block the producer, come out of it in the same order, and
  leave it empty, so that the next removal blocks.
\<close>

theorem queue_order:
  assumes "length xs \<le> ULONG_MAX"
  shows "\<exists>q q'. put_all qb_add xs empty_queue = Some q \<and>
     take_all qb_remove (length xs) q = Some (xs, q') \<and> qb_remove q' = None"
  using qb.put_take_all [of empty_queue xs] assms by (simp add: empty_queue_def)

theorem queue_order_witness:
  "\<exists>q q'. put_all qb_add [7, 8, 9 :: nat] empty_queue = Some q \<and>
     take_all qb_remove 3 q = Some ([7, 8, 9], q') \<and> qb_remove q' = None"
  using queue_order [of "[7, 8, 9 :: nat]"] by (simp add: ULONG_MAX_def numeral_3_eq_3)

text \<open>
  Property C24. In every reachable state of the monitor, with any number of threads in any
  interleaving and with spurious wakeups, the values handed out by \<open>remove\<close> followed by
  those in the buffer are a subsequence of the added ones: nothing is duplicated, invented or
  reordered (a \<open>clear\<close> may drop values).
\<close>

theorem monitor_fifo:
  assumes "mreach cap m"
  shows "subseq (removed m @ qb_buffer (queue m)) (added m)"
  using mreach_fifo_order [OF assms] by (simp add: fifo_order_def)

theorem monitor_fifo_witness:
  "subseq (removed (init_monitor 3 :: nat monitor) @ qb_buffer (queue (init_monitor 3 :: nat monitor)))
     (added (init_monitor 3 :: nat monitor))"
  by (rule monitor_fifo [OF mreach.start])

text \<open>
  Property C23. No wakeup is lost: in every reachable state in which fewer values were added
  than the queue holds, no producer waits, and while a consumer waits there are at least as
  many threads about to take a value or to call \<open>notify_one\<close> as there are values in the
  buffer. So a consumer never sleeps for ever beside a value that nobody will fetch.
\<close>

theorem monitor_no_lost_wakeup:
  assumes "mreach cap m" and "length (added m) < cap"
  shows "Add_Waiting v \<notin># threads m \<and>
     (Remove_Waiting \<notin># threads m \<or> length (qb_buffer (queue m)) \<le> movers m)"
  using mreach_no_lost_wakeup [OF assms(1)] assms(2) by (auto simp: no_lost_wakeup_def)

theorem monitor_no_lost_wakeup_witness:
  "Add_Waiting (0 :: nat) \<notin># threads (init_monitor 3)"
  using monitor_no_lost_wakeup [OF mreach.start, of 3 "0 :: nat"]
  by (simp add: init_monitor_def)

end
