(* ===== verification/Errors.thy ===== *)
theory Errors
  imports Prelude
begin

section \<open>Error codes (error.h, error.cpp)\<close>

text \<open>
  The enumeration \<open>error\<close> with its integer values and names, and the pair
  \<open>perror\<close> of a library error and the value of \<open>errno\<close> that goes into
  \<open>pexec_status::err\<close>. The text \<open>strerror\<close> gives is a parameter. The lemmas show
  that the names and the printed lines tell the errors apart.
\<close>

datatype error =
    NO_ERROR
  | SIGACTION_SET_ERROR
  | SIGACTION_RESET_ERROR
  | STDIN_PIPE_ERROR
  | STDERR_PIPE_ERROR
  | STDOUT_PIPE_ERROR
  | FORK_ERROR
  | ARG_PARSE_ERROR
  | ARG_PARSE_C_ERROR
  | SIGNAL_PIPE_ERROR
  | WATCH_PIPE_ERROR
  | SIG_BLOCK_ERROR
  | SIG_UNBLOCK_ERROR
  | SELECT_ERROR
  | STDOUT_PIPE_READ_ERROR
  | STDERR_PIPE_READ_ERROR
  | STDOUT_PIPE_READ_REST_ERROR
  | STDERR_PIPE_READ_REST_ERROR
  | SIGNAL_PIPE_READ_ERROR
  | WATCH_PIPE_READ_ERROR
  | WAITPID_ERROR
  | FORK_EXEC_ERROR
  | FORK_STDIN_NONBLOCK_ERROR
  | FORK_STDOUT_NONBLOCK_ERROR
  | FORK_STDERR_NONBLOCK_ERROR
  | FORK_DUP2_STDIN_ERROR
  | FORK_DUP2_STDOUT_ERROR
  | FORK_DUP2_STDERR_ERROR
  | EXEC_ALLOCATION_ERROR

text \<open>The underlying \<open>int\<close> of the enumeration class.\<close>

fun error_value :: "error \<Rightarrow> int" where
  "error_value NO_ERROR = 0"
| "error_value SIGACTION_SET_ERROR = 1"
| "error_value SIGACTION_RESET_ERROR = 2"
| "error_value STDIN_PIPE_ERROR = 3"
| "error_value STDERR_PIPE_ERROR = 4"
| "error_value STDOUT_PIPE_ERROR = 5"
| "error_value FORK_ERROR = 6"
| "error_value ARG_PARSE_ERROR = 7"
| "error_value ARG_PARSE_C_ERROR = 8"
| "error_value SIGNAL_PIPE_ERROR = 9"
| "error_value WATCH_PIPE_ERROR = 10"
| "error_value SIG_BLOCK_ERROR = 11"
| "error_value SIG_UNBLOCK_ERROR = 12"
| "error_value SELECT_ERROR = 13"
| "error_value STDOUT_PIPE_READ_ERROR = 14"
| "error_value STDERR_PIPE_READ_ERROR = 15"
| "error_value STDOUT_PIPE_READ_REST_ERROR = 16"
| "error_value STDERR_PIPE_READ_REST_ERROR = 17"
| "error_value SIGNAL_PIPE_READ_ERROR = 18"
| "error_value WATCH_PIPE_READ_ERROR = 19"
| "error_value WAITPID_ERROR = 20"
| "error_value FORK_EXEC_ERROR = 21"
| "error_value FORK_STDIN_NONBLOCK_ERROR = 22"
| "error_value FORK_STDOUT_NONBLOCK_ERROR = 23"
| "error_value FORK_STDERR_NONBLOCK_ERROR = 24"
| "error_value FORK_DUP2_STDIN_ERROR = 25"
| "error_value FORK_DUP2_STDOUT_ERROR = 26"
| "error_value FORK_DUP2_STDERR_ERROR = 27"
| "error_value EXEC_ALLOCATION_ERROR = 28"

fun error2string :: "error \<Rightarrow> string" where
  "error2string NO_ERROR = ''NO_ERROR''"
| "error2string SIGACTION_SET_ERROR = ''SIGACTION_SET_ERROR''"
| "error2string SIGACTION_RESET_ERROR = ''SIGACTION_RESET_ERROR''"
| "error2string STDIN_PIPE_ERROR = ''STDIN_PIPE_ERROR''"
| "error2string STDERR_PIPE_ERROR = ''STDERR_PIPE_ERROR''"
| "error2string STDOUT_PIPE_ERROR = ''STDOUT_PIPE_ERROR''"
| "error2string FORK_ERROR = ''FORK_ERROR''"
| "error2string ARG_PARSE_ERROR = ''ARG_PARSE_ERROR''"
| "error2string ARG_PARSE_C_ERROR = ''ARG_PARSE_C_ERROR''"
| "error2string SIGNAL_PIPE_ERROR = ''SIGNAL_PIPE_ERROR''"
| "error2string WATCH_PIPE_ERROR = ''WATCH_PIPE_ERROR''"
| "error2string SIG_BLOCK_ERROR = ''SIG_BLOCK_ERROR''"
| "error2string SIG_UNBLOCK_ERROR = ''SIG_UNBLOCK_ERROR''"
| "error2string SELECT_ERROR = ''SELECT_ERROR''"
| "error2string STDOUT_PIPE_READ_ERROR = ''STDOUT_PIPE_READ_ERROR''"
| "error2string STDERR_PIPE_READ_ERROR = ''STDERR_PIPE_READ_ERROR''"
| "error2string STDOUT_PIPE_READ_REST_ERROR = ''STDOUT_PIPE_READ_REST_ERROR''"
| "error2string STDERR_PIPE_READ_REST_ERROR = ''STDERR_PIPE_READ_REST_ERROR''"
| "error2string SIGNAL_PIPE_READ_ERROR = ''SIGNAL_PIPE_READ_ERROR''"
| "error2string WATCH_PIPE_READ_ERROR = ''WATCH_PIPE_READ_ERROR''"
| "error2string WAITPID_ERROR = ''WAITPID_ERROR''"
| "error2string FORK_EXEC_ERROR = ''FORK_EXEC_ERROR''"
| "error2string FORK_STDIN_NONBLOCK_ERROR = ''FORK_STDIN_NONBLOCK_ERROR''"
| "error2string FORK_STDOUT_NONBLOCK_ERROR = ''FORK_STDOUT_NONBLOCK_ERROR''"
| "error2string FORK_STDERR_NONBLOCK_ERROR = ''FORK_STDERR_NONBLOCK_ERROR''"
| "error2string FORK_DUP2_STDIN_ERROR = ''FORK_DUP2_STDIN_ERROR''"
| "error2string FORK_DUP2_STDOUT_ERROR = ''FORK_DUP2_STDOUT_ERROR''"
| "error2string FORK_DUP2_STDERR_ERROR = ''FORK_DUP2_STDERR_ERROR''"
| "error2string EXEC_ALLOCATION_ERROR = ''EXEC_ALLOCATION_ERROR''"

lemma error_value_inject [simp]: "error_value a = error_value b \<longleftrightarrow> a = b"
  by (cases a; cases b; simp)

text \<open>The order of the enumeration.\<close>

instantiation error :: linorder
begin

definition less_eq_error :: "error \<Rightarrow> error \<Rightarrow> bool" where
  "less_eq_error a b \<longleftrightarrow> error_value a \<le> error_value b"

definition less_error :: "error \<Rightarrow> error \<Rightarrow> bool" where
  "less_error a b \<longleftrightarrow> error_value a < error_value b"

instance
  by standard (auto simp: less_eq_error_def less_error_def)

end

text \<open>A name of the enumeration is never empty and consists of capitals and underscores.\<close>

lemma error2string_no_comma: "CHR '','' \<notin> set (error2string e)"
  by (cases e) simp_all

lemma error2string_inject [simp]: "error2string a = error2string b \<longleftrightarrow> a = b"
  by (cases a; cases b; simp)

subsection \<open>The pair of an error and errno\<close>

record perror =
  pexec_error :: error
  error_code :: int

definition mk_perror :: "error \<Rightarrow> int \<Rightarrow> perror" where
  "mk_perror err code = \<lparr>pexec_error = err, error_code = code\<rparr>"

text \<open>\<open>operator<<\<close> for \<open>perror\<close>; \<open>strerror\<close> is the C library's.\<close>

definition show_perror :: "(int \<Rightarrow> string) \<Rightarrow> perror \<Rightarrow> string" where
  "show_perror strerror err =
     error2string (pexec_error err) @ '', ('' @ show_int (error_code err) @ '') '' @
     strerror (error_code err)"

text \<open>
  The printed line of an error tells which library error and which
  \<open>errno\<close> it reports, whatever text \<open>strerror\<close> has: two lines are equal only for the same
  pair.
\<close>

theorem show_perror_injective:
  "inj (show_perror strerror)"
proof (rule injI)
  fix a b
  assume eq: "show_perror strerror a = show_perror strerror b"
  let ?rest = "\<lambda>e. '' ('' @ show_int (error_code e) @ '') '' @ strerror (error_code e)"
  have "error2string (pexec_error a) @ CHR '','' # ?rest a =
      error2string (pexec_error b) @ CHR '','' # ?rest b"
    using eq by (simp add: show_perror_def)
  then have name: "error2string (pexec_error a) = error2string (pexec_error b)"
    and tail: "?rest a = ?rest b"
    by (auto dest: append_delim_inject [OF error2string_no_comma error2string_no_comma])
  from tail have "show_int (error_code a) @ CHR '')'' # ('' '' @ strerror (error_code a)) =
      show_int (error_code b) @ CHR '')'' # ('' '' @ strerror (error_code b))"
    by simp
  then have "show_int (error_code a) = show_int (error_code b)"
    by (auto dest: append_delim_inject [OF show_int_no_paren show_int_no_paren])
  with name show "a = b"
    by (simp add: show_int_inject)
qed

end
