(* ===== verification/Proc_Status.thy ===== *)
theory Proc_Status
  imports Prelude
begin

unbundle bit_operations_syntax

section \<open>Process status (proc_status.h, proc_status.cpp)\<close>

text \<open>
  The record that describes a child process to the user callbacks, and
  \<open>update_status\<close>, which decodes the 32 bit wait status. The \<open>W...\<close> macros are
  those of the C library's \<open>sys/wait.h\<close> on Linux. The lemmas show that the three
  classes of statuses exclude each other and cover every word, and that the fields an
  update sets hold the code the child ended with.
\<close>

datatype pstate = STARTED | SIGNALED | STOPPED | USER_STOPPED | FAIL_STOPPED

fun state2str :: "pstate \<Rightarrow> string" where
  "state2str STARTED = ''STARTED''"
| "state2str SIGNALED = ''SIGNALED''"
| "state2str STOPPED = ''STOPPED''"
| "state2str USER_STOPPED = ''USER_STOPPED''"
| "state2str FAIL_STOPPED = ''FAIL_STOPPED''"

text \<open>
  The fields keep the source's names after the prefix \<open>ps\<close>; \<open>ps_stopped_signal\<close> is a
  \<open>bool\<close> in the source too.
\<close>

record proc_status =
  ps_user_stop_fd :: int
  ps_pid :: int
  ps_stdin_fd :: int
  ps_running :: bool
  ps_wstatus :: "32 word"
  ps_exited :: bool
  ps_return_code :: int
  ps_signaled :: bool
  ps_signaled_signal :: int
  ps_generated_core_dump :: bool
  ps_stopped :: bool
  ps_stopped_signal :: bool
  ps_continued :: bool

definition init_proc_status :: proc_status where
  "init_proc_status =
     \<lparr>ps_user_stop_fd = -1, ps_pid = 0, ps_stdin_fd = -1, ps_running = False, ps_wstatus = 0,
      ps_exited = False, ps_return_code = 0, ps_signaled = False, ps_signaled_signal = 0,
      ps_generated_core_dump = False, ps_stopped = False, ps_stopped_signal = False,
      ps_continued = False\<rparr>"

subsection \<open>The wait status macros\<close>

definition WTERMSIG :: "32 word \<Rightarrow> 32 word" where
  "WTERMSIG status = status AND 0x7f"

definition WIFEXITED :: "32 word \<Rightarrow> bool" where
  "WIFEXITED status \<longleftrightarrow> WTERMSIG status = 0"

definition WEXITSTATUS :: "32 word \<Rightarrow> 32 word" where
  "WEXITSTATUS status = drop_bit 8 (status AND 0xff00)"

text \<open>\<open>((signed char) ((status & 0x7f) + 1) >> 1) > 0\<close>\<close>

definition WIFSIGNALED :: "32 word \<Rightarrow> bool" where
  "WIFSIGNALED status \<longleftrightarrow>
     0 < sint (signed_drop_bit 1 (ucast ((status AND 0x7f) + 1) :: 8 word))"

definition WCOREDUMP :: "32 word \<Rightarrow> bool" where
  "WCOREDUMP status \<longleftrightarrow> status AND 0x80 \<noteq> 0"

definition WIFSTOPPED :: "32 word \<Rightarrow> bool" where
  "WIFSTOPPED status \<longleftrightarrow> status AND 0xff = 0x7f"

definition WSTOPSIG :: "32 word \<Rightarrow> 32 word" where
  "WSTOPSIG status = WEXITSTATUS status"

definition WIFCONTINUED :: "32 word \<Rightarrow> bool" where
  "WIFCONTINUED status \<longleftrightarrow> status = 0xffff"

subsection \<open>Decoding a wait status\<close>

text \<open>
  The assignments of \<open>update_status\<close> in their order; the assignments under a false
  condition leave the field as it was.
\<close>

definition update_proc_status :: "32 word \<Rightarrow> proc_status \<Rightarrow> proc_status" where
  "update_proc_status status p =
     (let p = p\<lparr>ps_wstatus := status\<rparr>;
          p = p\<lparr>ps_exited := WIFEXITED status\<rparr>;
          p = (if ps_exited p then p\<lparr>ps_return_code := uint (WEXITSTATUS status)\<rparr> else p);
          p = p\<lparr>ps_signaled := WIFSIGNALED status\<rparr>;
          p = (if ps_signaled p
               then p\<lparr>ps_signaled_signal := uint (WTERMSIG status),
                      ps_generated_core_dump := WCOREDUMP status\<rparr>
               else p);
          p = p\<lparr>ps_stopped := WIFSTOPPED status\<rparr>;
          p = (if ps_stopped p then p\<lparr>ps_stopped_signal := (WSTOPSIG status \<noteq> 0)\<rparr> else p);
          p = p\<lparr>ps_continued := WIFCONTINUED status\<rparr>
      in p\<lparr>ps_running := \<not> (ps_signaled p \<or> ps_exited p)\<rparr>)"

text \<open>\<open>operator<<\<close>; \<open>strsignal\<close> is the C library's, and a \<open>bool\<close> prints as 0 or 1.\<close>

definition show_bool :: "bool \<Rightarrow> string" where
  "show_bool b = (if b then ''1'' else ''0'')"

definition show_proc_status :: "(int \<Rightarrow> string) \<Rightarrow> proc_status \<Rightarrow> string" where
  "show_proc_status strsignal p =
     (let nl = [CHR 0x0A] in
      ''pid: '' @ show_int (ps_pid p) @ nl @
      ''running: '' @ show_bool (ps_running p) @ nl @
      ''status: '' @ show_int (sint (ps_wstatus p)) @ nl @
      (if ps_running p then ''stdin_fd: '' @ show_int (ps_stdin_fd p) @ nl else []) @
      (if ps_exited p
       then ''exited: '' @ show_bool (ps_exited p) @ nl @
            ''return_code: '' @ show_int (ps_return_code p) @ nl
       else []) @
      (if ps_signaled p
       then ''signaled: '' @ show_bool (ps_signaled p) @ nl @
            ''signaled_signal: '' @ show_int (ps_signaled_signal p) @
            '' ('' @ strsignal (ps_signaled_signal p) @ '')'' @ nl @
            ''generated_core_dump: '' @ show_bool (ps_generated_core_dump p) @ nl
       else []) @
      (if ps_stopped p
       then ''stopped: '' @ show_bool (ps_stopped p) @ nl @
            ''stopped_signal: '' @ show_bool (ps_stopped_signal p) @
            '' ('' @ strsignal (of_bool (ps_stopped_signal p)) @ '')'' @ nl
       else []) @
      (if ps_continued p then ''continued: '' @ show_bool (ps_continued p) @ nl else []))"

subsection \<open>The classes of statuses\<close>

lemma and_low7: "(status :: 32 word) AND 0x7f = take_bit 7 status"
  by (simp add: take_bit_eq_mask mask_eq_exp_minus_1)

lemma and_low8: "(status :: 32 word) AND 0xff = take_bit 8 status"
  by (simp add: take_bit_eq_mask mask_eq_exp_minus_1)

lemma and_byte1: "drop_bit 8 ((status :: 32 word) AND 0xff00) = take_bit 8 (drop_bit 8 status)"
proof -
  have "drop_bit 8 (status AND 0xff00) = drop_bit 8 status AND drop_bit 8 0xff00"
    by (rule drop_bit_and)
  then show ?thesis
    by (simp add: take_bit_eq_mask mask_eq_exp_minus_1)
qed

lemma low7_cases: "\<exists>n < 128. take_bit 7 status = (word_of_nat n :: 32 word)"
proof -
  have "unat (take_bit 7 status) < 128"
    by (simp only: unsigned_take_bit_eq) (simp add: take_bit_eq_mod)
  then show ?thesis
    by (intro exI [of _ "unat (take_bit 7 status)"]) simp
qed

lemma ucast_8_of_nat: "ucast (word_of_nat m :: 32 word) = (word_of_nat m :: 8 word)"
  by (simp add: word_unat_eq_iff unsigned_ucast_eq unsigned_of_nat take_bit_take_bit)

lemma signed_char_test:
  assumes "n < 128"
  shows "0 < sint (signed_drop_bit 1 (ucast ((word_of_nat n :: 32 word) + 1) :: 8 word))
     \<longleftrightarrow> n \<noteq> 0 \<and> n \<noteq> 127"
proof -
  have "ucast ((word_of_nat n :: 32 word) + 1) = (word_of_nat (n + 1) :: 8 word)"
    using ucast_8_of_nat [of "n + 1"] by (simp only: of_nat_add of_nat_1)
  moreover have "sint (word_of_nat (n + 1) :: 8 word) =
      (if n = 127 then -128 else int (n + 1))"
    using assms signed_take_bit_int_eq_self [of 7 "int (n + 1)"]
    by (cases "n = 127") (simp_all add: signed_of_nat del: of_nat_add of_nat_Suc)
  ultimately show ?thesis
    using assms by (auto simp: sint_signed_drop_bit_eq drop_bit_eq_div)
qed


lemma WIFSIGNALED_iff:
  "WIFSIGNALED status \<longleftrightarrow> WTERMSIG status \<noteq> 0 \<and> WTERMSIG status \<noteq> 0x7f"
proof -
  obtain n where n: "n < 128" and low: "take_bit 7 status = word_of_nat n"
    using low7_cases by blast
  have "WIFSIGNALED status \<longleftrightarrow> n \<noteq> 0 \<and> n \<noteq> 127"
    using signed_char_test [OF n] by (simp only: WIFSIGNALED_def and_low7 low)
  moreover have "(word_of_nat n :: 32 word) = 0 \<longleftrightarrow> n = 0"
    and "(word_of_nat n :: 32 word) = 0x7f \<longleftrightarrow> n = 127"
    using n by (simp_all add: word_unat_eq_iff unat_of_nat take_bit_eq_mod)
  ultimately show ?thesis by (simp only: WTERMSIG_def and_low7 low)
qed

lemma stopped_low7: "WIFSTOPPED status \<Longrightarrow> WTERMSIG status = 0x7f"
proof -
  assume "WIFSTOPPED status"
  moreover have "status AND 0x7f = (status AND 0xff) AND 0x7f"
    by (simp add: and.assoc)
  ultimately show ?thesis by (simp add: WIFSTOPPED_def WTERMSIG_def)
qed

text \<open>A stopped child and a continued one have all low seven bits set.\<close>


lemma continued_low7: "WIFCONTINUED status \<Longrightarrow> WTERMSIG status = 0x7f \<and> \<not> WIFSTOPPED status"
  by (simp add: WIFSTOPPED_def WTERMSIG_def WIFCONTINUED_def)

subsection \<open>The kernel's encoding of a wait status\<close>

definition exit_status :: "nat \<Rightarrow> 32 word" where
  "exit_status code = push_bit 8 (word_of_nat code)"

definition signal_status :: "nat \<Rightarrow> bool \<Rightarrow> 32 word" where
  "signal_status sig core = word_of_nat sig OR (if core then 0x80 else 0)"

lemma take_bit_small_word:
  assumes "n < 2 ^ m" and "m < 32"
  shows "take_bit m (word_of_nat n :: 32 word) = word_of_nat n"
proof (rule word_unat_eq_iff [THEN iffD2])
  have "n < 2 ^ 32"
    using assms power_strict_increasing [of m 32 "2 :: nat"] by simp
  then show "unat (take_bit m (word_of_nat n :: 32 word)) = unat (word_of_nat n :: 32 word)"
    using assms(1) by (simp only: unsigned_take_bit_eq) (simp add: unat_of_nat take_bit_eq_mod)
qed

lemma exit_status_macros:
  assumes "code < 256"
  shows "WIFEXITED (exit_status code)" "\<not> WIFSIGNALED (exit_status code)"
    "\<not> WIFSTOPPED (exit_status code)" "\<not> WIFCONTINUED (exit_status code)"
    "uint (WEXITSTATUS (exit_status code)) = int code"
proof -
  have low7: "WTERMSIG (exit_status code) = 0"
    by (simp only: WTERMSIG_def and_low7 exit_status_def take_bit_push_bit) simp
  then show "WIFEXITED (exit_status code)" "\<not> WIFSIGNALED (exit_status code)"
    "\<not> WIFSTOPPED (exit_status code)" "\<not> WIFCONTINUED (exit_status code)"
    using stopped_low7 continued_low7 by (auto simp: WIFEXITED_def WIFSIGNALED_iff)
  have "unat (exit_status code) = code * 256"
    using assms
    by (simp add: exit_status_def push_bit_eq_mult unat_word_ariths unat_of_nat take_bit_eq_mod)
  then have "unat (take_bit 8 (drop_bit 8 (exit_status code))) = code"
    using assms
    by (simp only: unsigned_take_bit_eq unsigned_drop_bit_eq)
       (simp add: take_bit_eq_mod drop_bit_eq_div)
  then show "uint (WEXITSTATUS (exit_status code)) = int code"
    by (simp only: WEXITSTATUS_def and_byte1 uint_nat)
qed

lemma signal_status_macros:
  assumes "0 < sig" and "sig < 127"
  shows "\<not> WIFEXITED (signal_status sig core)" "WIFSIGNALED (signal_status sig core)"
    "uint (WTERMSIG (signal_status sig core)) = int sig"
    "WCOREDUMP (signal_status sig core) = core"
proof -
  have small: "take_bit 7 (word_of_nat sig :: 32 word) = word_of_nat sig"
    using assms by (intro take_bit_small_word) auto
  have low7: "WTERMSIG (signal_status sig core) = word_of_nat sig"
    using small by (simp only: WTERMSIG_def and_low7 signal_status_def take_bit_or split: if_split) simp
  have "uint (word_of_nat sig :: 32 word) = int sig"
    using assms by (simp add: uint_nat unat_of_nat take_bit_eq_mod)
  then show "uint (WTERMSIG (signal_status sig core)) = int sig"
    by (simp only: low7)
  have "(word_of_nat sig :: 32 word) \<noteq> 0" "(word_of_nat sig :: 32 word) \<noteq> 0x7f"
    using assms by (simp_all add: word_unat_eq_iff unat_of_nat take_bit_eq_mod)
  then show "\<not> WIFEXITED (signal_status sig core)" "WIFSIGNALED (signal_status sig core)"
    by (simp_all add: WIFEXITED_def WIFSIGNALED_iff low7)
  have "\<not> bit (word_of_nat sig :: 32 word) 7"
    using small by (metis bit_take_bit_iff less_irrefl)
  then have "bit (signal_status sig core) 7 = core"
    by (simp add: signal_status_def bit_or_iff)
  then show "WCOREDUMP (signal_status sig core) = core"
    using and_exp_eq_0_iff_not_bit [of "signal_status sig core" 7] by (simp add: WCOREDUMP_def)
qed

subsection \<open>What an update sets\<close>

lemma update_proc_status_fields:
  "ps_user_stop_fd (update_proc_status status p) = ps_user_stop_fd p"
  "ps_pid (update_proc_status status p) = ps_pid p"
  "ps_stdin_fd (update_proc_status status p) = ps_stdin_fd p"
  "ps_wstatus (update_proc_status status p) = status"
  "ps_exited (update_proc_status status p) = WIFEXITED status"
  "ps_return_code (update_proc_status status p) =
     (if WIFEXITED status then uint (WEXITSTATUS status) else ps_return_code p)"
  "ps_signaled (update_proc_status status p) = WIFSIGNALED status"
  "ps_signaled_signal (update_proc_status status p) =
     (if WIFSIGNALED status then uint (WTERMSIG status) else ps_signaled_signal p)"
  "ps_generated_core_dump (update_proc_status status p) =
     (if WIFSIGNALED status then WCOREDUMP status else ps_generated_core_dump p)"
  "ps_stopped (update_proc_status status p) = WIFSTOPPED status"
  "ps_stopped_signal (update_proc_status status p) =
     (if WIFSTOPPED status then WSTOPSIG status \<noteq> 0 else ps_stopped_signal p)"
  "ps_continued (update_proc_status status p) = WIFCONTINUED status"
  "ps_running (update_proc_status status p) = (\<not> (WIFSIGNALED status \<or> WIFEXITED status))"
  by (simp_all add: update_proc_status_def Let_def)

subsection \<open>Properties\<close>

text \<open>
  Property C29. Every 32 bit wait status belongs to exactly one of three classes, and
  \<open>update_status\<close> records which: exited, killed by a signal, or still alive. The child
  is reported as running exactly in the third class, and a stopped or continued child is
  always reported as running, never as both.
\<close>

theorem update_status_classes:
  "let p' = update_proc_status status p in
     ps_exited p' = (\<not> ps_signaled p' \<and> \<not> ps_running p') \<and>
     ps_signaled p' = (\<not> ps_exited p' \<and> \<not> ps_running p') \<and>
     ps_running p' = (status AND 0x7f = 0x7f) \<and>
     (ps_stopped p' \<and> \<not> ps_running p') = False \<and>
     (ps_continued p' \<and> \<not> ps_running p') = False \<and>
     (ps_stopped p' \<and> ps_continued p') = False"
proof -
  have "WIFSTOPPED status \<Longrightarrow> status AND 0x7f = 0x7f"
    and "WIFCONTINUED status \<Longrightarrow> status AND 0x7f = 0x7f \<and> \<not> WIFSTOPPED status"
    using stopped_low7 continued_low7 by (simp_all add: WTERMSIG_def)
  then show ?thesis
    by (auto simp: Let_def update_proc_status_fields WIFSIGNALED_iff WIFEXITED_def WTERMSIG_def)
qed

text \<open>
  Property C30. The exit code round trip: the status the kernel builds for a child that
  called \<open>exit(code)\<close> is decoded to an exited child with that code, which is not
  running and was not signaled, whatever the record held before.
\<close>

theorem update_status_exit_code:
  assumes "code < 256"
  shows "let p' = update_proc_status (exit_status code) p in
     ps_exited p' \<and> ps_return_code p' = int code \<and> \<not> ps_running p' \<and> \<not> ps_signaled p' \<and>
     \<not> ps_stopped p' \<and> \<not> ps_continued p'"
  using exit_status_macros [OF assms] by (simp add: Let_def update_proc_status_fields)

theorem update_status_exit_code_witness:
  "ps_return_code (update_proc_status (exit_status 100) init_proc_status) = 100"
  using update_status_exit_code [of 100 init_proc_status] by (simp add: Let_def)

text \<open>
  The signal round trip: the status of a child killed by signal number
  \<open>sig\<close> is decoded to a signaled child with that number and core dump flag, which is not
  running; the return code is the one the record held before the update.
\<close>

theorem update_status_signal:
  assumes "0 < sig" and "sig < 127"
  shows "let p' = update_proc_status (signal_status sig core) p in
     ps_signaled p' \<and> ps_signaled_signal p' = int sig \<and> ps_generated_core_dump p' = core \<and>
     \<not> ps_running p' \<and> \<not> ps_exited p' \<and> ps_return_code p' = ps_return_code p"
  using signal_status_macros [OF assms] by (simp add: Let_def update_proc_status_fields)

theorem update_status_signal_witness:
  "ps_signaled_signal (update_proc_status (signal_status 9 True) init_proc_status) = 9"
  using update_status_signal [of 9 True init_proc_status] by (simp add: Let_def)

end
