(* ===== verification/Posix.thy ===== *)
theory Posix
  imports Errors Proc_Status
begin

section \<open>The platform: system calls, the world, the trace\<close>

text \<open>
  The kernel and the parts of the C++ library whose behaviour is not fixed are a parameter of
  the model, the record \<open>platform\<close>: one function per system call, over a kernel state of
  any type. A call answers \<open>Inl e\<close> (the C function returned -1 and set \<open>errno\<close> to
  \<open>e\<close>) or \<open>Inr\<close> of its result. The \<open>world\<close> holds the kernel state, \<open>errno\<close> and a
  trace, newest event first, of the calls and of the user callbacks, which the code does not
  have: the properties speak about it.
  Nothing is assumed about a platform in the definitions; where a property needs documented
  behaviour (a new pipe has descriptors that are not open, \<open>read\<close> returns at most the bytes
  it was asked for), it says so in a hypothesis.
\<close>

abbreviation EINTR :: int where "EINTR \<equiv> 4"
abbreviation ECHILD :: int where "ECHILD \<equiv> 10"
abbreviation EAGAIN :: int where "EAGAIN \<equiv> 11"
abbreviation SIGCHLD :: int where "SIGCHLD \<equiv> 17"
abbreviation O_NONBLOCK :: "32 word" where "O_NONBLOCK \<equiv> 0x800"
abbreviation O_CLOEXEC :: "32 word" where "O_CLOEXEC \<equiv> 0x80000"
abbreviation NUL :: char where "NUL \<equiv> CHR 0x00"

text \<open>The dispositions of SIGCHLD: the two handlers of the library and foreign ones.\<close>

datatype sig_handler =
    SIG_DFL
  | BLOCKING_HANDLER
  | MULTI_HANDLER
  | FOREIGN_HANDLER nat

datatype mask_how = SIG_BLOCK | SIG_UNBLOCK

record 'k platform =
  k_read :: "int \<Rightarrow> nat \<Rightarrow> 'k \<Rightarrow> (int + string) \<times> 'k"
  k_write :: "int \<Rightarrow> string \<Rightarrow> 'k \<Rightarrow> (int + nat) \<times> 'k"
  k_pipe :: "'k \<Rightarrow> (int + int \<times> int) \<times> 'k"
  k_pipe2 :: "32 word \<Rightarrow> 'k \<Rightarrow> (int + int \<times> int) \<times> 'k"
  k_close :: "int \<Rightarrow> 'k \<Rightarrow> (int + unit) \<times> 'k"
  k_select :: "int \<Rightarrow> int set \<Rightarrow> 'k \<Rightarrow> (int + int set) \<times> 'k"
  k_fork :: "'k \<Rightarrow> (int + int) \<times> 'k"
  k_waitpid :: "int \<Rightarrow> 'k \<Rightarrow> (int + int \<times> 32 word) \<times> 'k"
  k_sigaction :: "sig_handler \<Rightarrow> 'k \<Rightarrow> (int + sig_handler) \<times> 'k"
  k_sigprocmask :: "mask_how \<Rightarrow> int set \<Rightarrow> 'k \<Rightarrow> (int + unit) \<times> 'k"
  k_kill :: "int \<Rightarrow> int \<Rightarrow> 'k \<Rightarrow> (int + unit) \<times> 'k"
  k_getfl :: "int \<Rightarrow> 'k \<Rightarrow> (int + 32 word) \<times> 'k"
  k_setfl :: "int \<Rightarrow> 32 word \<Rightarrow> 'k \<Rightarrow> (int + unit) \<times> 'k"
  k_dup2 :: "int \<Rightarrow> int \<Rightarrow> 'k \<Rightarrow> (int + int) \<times> 'k"
  k_execvp :: "string option list \<Rightarrow> 'k \<Rightarrow> (int + unit) \<times> 'k"
  map_place :: "int list \<Rightarrow> int \<Rightarrow> nat"
    \<comment> \<open>where \<open>std::unordered_map\<close> links a new key among the ones it holds\<close>

datatype event =
    EPipe int int
  | EClose int
  | ERead int string
  | EWrite int string
  | EFork int
  | EWait int "32 word"
  | EKill int int
  | ESigaction sig_handler
  | EMask mask_how
  | ESetfl int "32 word"
  | EDup2 int int
  | ECall int \<comment> \<open>an event loop calls the callback of a descriptor\<close>
  | EState pstate proc_status \<comment> \<open>the state callback is called\<close>
  | EError error \<comment> \<open>the error callback is called\<close>
  | EOut string \<comment> \<open>the stdout callback is called with these bytes\<close>
  | EErr string \<comment> \<open>the stderr callback is called with these bytes\<close>

record 'k world =
  kst :: 'k
  errno :: int
  trace :: "event list"

subsection \<open>System calls\<close>

definition syscall ::
  "('k \<Rightarrow> (int + 'r) \<times> 'k) \<Rightarrow> ('r \<Rightarrow> event list) \<Rightarrow> (('k, 'z) world_scheme, int + 'r) prog" where
  "syscall call ev = (\<lambda>s. case call (kst s) of
       (Inl e, k) \<Rightarrow> Ret (Inl e) (s\<lparr>kst := k, errno := e\<rparr>)
     | (Inr r, k) \<Rightarrow> Ret (Inr r) (s\<lparr>kst := k, trace := ev r @ trace s\<rparr>))"

definition note_event :: "event \<Rightarrow> (('k, 'z) world_scheme, unit) prog" where
  "note_event e = upd (\<lambda>s. s\<lparr>trace := e # trace s\<rparr>)"

definition set_errno :: "int \<Rightarrow> (('k, 'z) world_scheme, unit) prog" where
  "set_errno e = upd (\<lambda>s. s\<lparr>errno := e\<rparr>)"

definition sys_read where
  "sys_read K fd n = syscall (k_read K fd n) (\<lambda>d. [ERead fd d])"

definition sys_write where
  "sys_write K fd d = syscall (k_write K fd d) (\<lambda>n. [EWrite fd d])"

definition sys_pipe where
  "sys_pipe K = syscall (k_pipe K) (\<lambda>(a, b). [EPipe a b])"

definition sys_pipe2 where
  "sys_pipe2 K flags = syscall (k_pipe2 K flags) (\<lambda>(a, b). [EPipe a b])"

text \<open>
  \<open>close\<close> releases the descriptor whatever it returns, as on Linux; its result is not used.
\<close>

definition sys_close where
  "sys_close K fd = seq (note_event (EClose fd)) (syscall (k_close K fd) (\<lambda>_. []))"

definition sys_select where
  "sys_select K nfds fds = syscall (k_select K nfds fds) (\<lambda>_. [])"

definition sys_fork where
  "sys_fork K = syscall (k_fork K) (\<lambda>pid. [EFork pid])"

definition sys_waitpid where
  "sys_waitpid K pid = syscall (k_waitpid K pid) (\<lambda>(p, st). [EWait p st])"

definition sys_sigaction where
  "sys_sigaction K h = syscall (k_sigaction K h) (\<lambda>_. [ESigaction h])"

definition sys_sigprocmask where
  "sys_sigprocmask K how sigs = syscall (k_sigprocmask K how sigs) (\<lambda>_. [EMask how])"

definition sys_kill where
  "sys_kill K pid sig = seq (note_event (EKill pid sig)) (syscall (k_kill K pid sig) (\<lambda>_. []))"

definition sys_getfl where
  "sys_getfl K fd = syscall (k_getfl K fd) (\<lambda>_. [])"

definition sys_setfl where
  "sys_setfl K fd flags = syscall (k_setfl K fd flags) (\<lambda>_. [ESetfl fd flags])"

definition sys_dup2 where
  "sys_dup2 K old new = syscall (k_dup2 K old new) (\<lambda>_. [EDup2 old new])"

definition sys_execvp where
  "sys_execvp K argv = syscall (k_execvp K argv) (\<lambda>_. [])"

lemmas sys_defs =
  sys_read_def sys_write_def sys_pipe_def sys_pipe2_def sys_close_def sys_select_def sys_fork_def
  sys_waitpid_def sys_sigaction_def sys_sigprocmask_def sys_kill_def sys_getfl_def sys_setfl_def
  sys_dup2_def sys_execvp_def note_event_def set_errno_def

text \<open>
  The loop the code writes around a \<open>read\<close> in several places,
  \<open>do { errno = 0; rc = read(...); } while(errno == EINTR)\<close>: the first answer that is not
  EINTR. The first argument bounds the attempts.
\<close>

fun read_retry :: "nat \<Rightarrow> 'k platform \<Rightarrow> int \<Rightarrow> nat \<Rightarrow> (('k, 'z) world_scheme, int + string) prog"
where
  "read_retry 0 K fd n = spin"
| "read_retry (Suc m) K fd n =
     seq (set_errno 0)
       (bind (sys_read K fd n) (\<lambda>rc.
          bind (gets errno) (\<lambda>e. if e = EINTR then read_retry m K fd n else ret rc)))"

subsection \<open>What a trace says\<close>

text \<open>The descriptors the library opened and has not closed.\<close>

fun open_fds :: "event list \<Rightarrow> int set" where
  "open_fds [] = {}"
| "open_fds (e # t) =
     (case e of
        EPipe a b \<Rightarrow> insert a (insert b (open_fds t))
      | EClose fd \<Rightarrow> open_fds t - {fd}
      | _ \<Rightarrow> open_fds t)"

text \<open>Documented behaviour of \<open>pipe\<close>: two different descriptors that were not open.\<close>

fun fresh_pipes :: "event list \<Rightarrow> bool" where
  "fresh_pipes [] = True"
| "fresh_pipes (e # t) =
     ((case e of
         EPipe a b \<Rightarrow> 0 \<le> a \<and> 0 \<le> b \<and> a \<noteq> b \<and> a \<notin> open_fds t \<and> b \<notin> open_fds t
       | _ \<Rightarrow> True) \<and> fresh_pipes t)"

text \<open>Every \<open>close\<close> was called for a descriptor the library had open.\<close>

fun closes_own :: "event list \<Rightarrow> bool" where
  "closes_own [] = True"
| "closes_own (e # t) =
     ((case e of EClose fd \<Rightarrow> fd \<in> open_fds t | _ \<Rightarrow> True) \<and> closes_own t)"

text \<open>The state callbacks in the order they were called.\<close>

fun states_of :: "event list \<Rightarrow> pstate list" where
  "states_of [] = []"
| "states_of (e # t) = states_of t @ (case e of EState st p \<Rightarrow> [st] | _ \<Rightarrow> [])"

text \<open>The errors reported, in order.\<close>

fun errors_of :: "event list \<Rightarrow> error list" where
  "errors_of [] = []"
| "errors_of (e # t) = errors_of t @ (case e of EError er \<Rightarrow> [er] | _ \<Rightarrow> [])"

text \<open>The bytes given to the stdout and stderr callbacks, in order.\<close>

fun out_of :: "event list \<Rightarrow> string" where
  "out_of [] = []"
| "out_of (e # t) = out_of t @ (case e of EOut d \<Rightarrow> d | _ \<Rightarrow> [])"

fun err_of :: "event list \<Rightarrow> string" where
  "err_of [] = []"
| "err_of (e # t) = err_of t @ (case e of EErr d \<Rightarrow> d | _ \<Rightarrow> [])"

text \<open>The bytes read from a descriptor, in order.\<close>

fun read_from :: "int \<Rightarrow> event list \<Rightarrow> string" where
  "read_from fd [] = []"
| "read_from fd (e # t) =
     read_from fd t @ (case e of ERead fd' d \<Rightarrow> (if fd' = fd then d else []) | _ \<Rightarrow> [])"

fun forks_of :: "event list \<Rightarrow> int list" where
  "forks_of [] = []"
| "forks_of (e # t) = forks_of t @ (case e of EFork pid \<Rightarrow> [pid] | _ \<Rightarrow> [])"

text \<open>The descriptors whose callbacks an event loop called, in order.\<close>

fun calls_of :: "event list \<Rightarrow> int list" where
  "calls_of [] = []"
| "calls_of (e # t) = calls_of t @ (case e of ECall fd \<Rightarrow> [fd] | _ \<Rightarrow> [])"

text \<open>The pipes made, in order.\<close>

fun pipes_of :: "event list \<Rightarrow> (int \<times> int) list" where
  "pipes_of [] = []"
| "pipes_of (e # t) = pipes_of t @ (case e of EPipe a b \<Rightarrow> [(a, b)] | _ \<Rightarrow> [])"

text \<open>The handlers installed for SIGCHLD, in order.\<close>

fun handlers_of :: "event list \<Rightarrow> sig_handler list" where
  "handlers_of [] = []"
| "handlers_of (e # t) = handlers_of t @ (case e of ESigaction h \<Rightarrow> [h] | _ \<Rightarrow> [])"

lemma projections_append [simp]:
  "states_of (es @ t) = states_of t @ states_of es"
  "errors_of (es @ t) = errors_of t @ errors_of es"
  "out_of (es @ t) = out_of t @ out_of es"
  "err_of (es @ t) = err_of t @ err_of es"
  "read_from fd (es @ t) = read_from fd t @ read_from fd es"
  "forks_of (es @ t) = forks_of t @ forks_of es"
  "calls_of (es @ t) = calls_of t @ calls_of es"
  "handlers_of (es @ t) = handlers_of t @ handlers_of es"
  "pipes_of (es @ t) = pipes_of t @ pipes_of es"
  by (induction es) auto

lemma fresh_pipes_append: "fresh_pipes (es @ t) \<Longrightarrow> fresh_pipes t"
  by (induction es) auto

subsection \<open>Inversion of the system calls\<close>

lemma syscall_Ret [ret_iffs]:
  "syscall call ev s = Ret r t \<longleftrightarrow>
     (\<exists>k. (\<exists>e. call (kst s) = (Inl e, k) \<and> r = Inl e \<and> t = s\<lparr>kst := k, errno := e\<rparr>) \<or>
          (\<exists>x. call (kst s) = (Inr x, k) \<and> r = Inr x \<and>
               t = s\<lparr>kst := k, trace := ev x @ trace s\<rparr>))"
  by (auto simp: syscall_def split: prod.splits sum.splits)

lemma syscall_returns: "\<exists>r t. syscall call ev s = Ret r t"
  by (auto simp: syscall_def split: prod.splits sum.splits)

subsection \<open>Frames\<close>

text \<open>
  \<open>adds P\<close>: the program keeps every part of the state beyond the world, and the events it
  adds to the trace all satisfy \<open>P\<close>.
\<close>

definition adds :: "(event \<Rightarrow> bool) \<Rightarrow> ('k, 'z) world_scheme \<Rightarrow> ('k, 'z) world_scheme \<Rightarrow> bool" where
  "adds P s t \<longleftrightarrow>
     world.more t = world.more s \<and> (\<exists>es. trace t = es @ trace s \<and> (\<forall>e \<in> set es. P e))"

interpretation ad: step_rel "adds P :: ('k, 'z) world_scheme \<Rightarrow> _"
proof
  fix s t u :: "('k, 'z) world_scheme"
  show "adds P s s" by (simp add: adds_def)
  assume "adds P s t"
  then obtain es where 1: "trace t = es @ trace s" "\<forall>e \<in> set es. P e" "world.more t = world.more s"
    by (auto simp: adds_def)
  assume "adds P t u"
  then obtain es' where "trace u = es' @ trace t" "\<forall>e \<in> set es'. P e" "world.more u = world.more t"
    by (auto simp: adds_def)
  with 1 show "adds P s u" by (auto simp: adds_def intro!: exI [of _ "es' @ es"])
qed

lemma adds_mono: "adds P s t \<Longrightarrow> (\<And>e. P e \<Longrightarrow> Q e) \<Longrightarrow> adds Q s t"
  by (auto simp: adds_def)

lemma adds_more: "adds P s t \<Longrightarrow> world.more t = world.more s"
  by (simp add: adds_def)

lemma pres_adds_syscall: "(\<And>r e. e \<in> set (ev r) \<Longrightarrow> P e) \<Longrightarrow> pres (adds P) (syscall call ev)"
  by (rule presI) (auto simp: adds_def ret_iffs)

lemma pres_adds_note: "P e \<Longrightarrow> pres (adds P) (note_event e)"
  by (auto simp: pres_def adds_def note_event_def ret_iffs)

lemma pres_adds_set_errno: "pres (adds P) (set_errno n)"
  by (auto simp: pres_def adds_def set_errno_def ret_iffs)

lemma pres_adds_sys:
  "(\<And>d. P (ERead fd d)) \<Longrightarrow> pres (adds P) (sys_read K fd n)"
  "P (EWrite fd d) \<Longrightarrow> pres (adds P) (sys_write K fd d)"
  "(\<And>a b. P (EPipe a b)) \<Longrightarrow> pres (adds P) (sys_pipe K)"
  "(\<And>a b. P (EPipe a b)) \<Longrightarrow> pres (adds P) (sys_pipe2 K flags)"
  "P (EClose fd) \<Longrightarrow> pres (adds P) (sys_close K fd)"
  "pres (adds P) (sys_select K nfds fds)"
  "(\<And>pid. P (EFork pid)) \<Longrightarrow> pres (adds P) (sys_fork K)"
  "(\<And>p st. P (EWait p st)) \<Longrightarrow> pres (adds P) (sys_waitpid K pid)"
  "P (ESigaction h) \<Longrightarrow> pres (adds P) (sys_sigaction K h)"
  "P (EMask how) \<Longrightarrow> pres (adds P) (sys_sigprocmask K how sigs)"
  "P (EKill pid sig) \<Longrightarrow> pres (adds P) (sys_kill K pid sig)"
  "pres (adds P) (sys_getfl K fd)"
  "P (ESetfl fd flags) \<Longrightarrow> pres (adds P) (sys_setfl K fd flags)"
  "P (EDup2 old new) \<Longrightarrow> pres (adds P) (sys_dup2 K old new)"
  "pres (adds P) (sys_execvp K argv)"
  unfolding sys_read_def sys_write_def sys_pipe_def sys_pipe2_def sys_close_def sys_select_def
    sys_fork_def sys_waitpid_def sys_sigaction_def sys_sigprocmask_def sys_kill_def sys_getfl_def
    sys_setfl_def sys_dup2_def sys_execvp_def
  by (auto intro!: pres_adds_syscall pres_adds_note ad.pres_seq)

lemma pres_adds_read_retry:
  "(\<And>d. P (ERead fd d)) \<Longrightarrow> pres (adds P) (read_retry m K fd n)"
  by (induction m) (auto intro!: ad.pres_intros pres_adds_sys pres_adds_set_errno)

lemmas adds_intros =
  ad.pres_intros pres_adds_sys pres_adds_note pres_adds_set_errno pres_adds_read_retry

text \<open>Events that are system calls other than those that open or close descriptors.\<close>

definition plain_event :: "event \<Rightarrow> bool" where
  "plain_event e \<longleftrightarrow>
     (case e of
        ERead fd d \<Rightarrow> True | EWrite fd d \<Rightarrow> True | EWait p st \<Rightarrow> True | EKill p sig \<Rightarrow> True
      | ESigaction h \<Rightarrow> True | EMask how \<Rightarrow> True | ESetfl fd fl \<Rightarrow> True | EDup2 a b \<Rightarrow> True
      | _ \<Rightarrow> False)"

definition system_event :: "event \<Rightarrow> bool" where
  "system_event e \<longleftrightarrow>
     plain_event e \<or> (case e of EPipe a b \<Rightarrow> True | EClose fd \<Rightarrow> True | _ \<Rightarrow> False)"

lemma event_kinds [simp]:
  "plain_event (ERead fd d)" "plain_event (EWrite fd d)" "plain_event (EWait p st)"
  "plain_event (EKill p sig)" "plain_event (ESigaction h)" "plain_event (EMask how)"
  "plain_event (ESetfl fd fl)" "plain_event (EDup2 a b)"
  "\<not> plain_event (EPipe a b)" "\<not> plain_event (EClose fd)" "\<not> plain_event (EFork pid)"
  "\<not> plain_event (ECall fd)" "\<not> plain_event (EState ps q)" "\<not> plain_event (EError er)"
  "\<not> plain_event (EOut d)" "\<not> plain_event (EErr d)"
  "system_event (EPipe a b)" "system_event (EClose fd)" "\<not> system_event (EFork pid)"
  "\<not> system_event (ECall fd)" "\<not> system_event (EState ps q)" "\<not> system_event (EError er)"
  "\<not> system_event (EOut d)" "\<not> system_event (EErr d)"
  "plain_event e \<Longrightarrow> system_event e"
  by (simp_all add: plain_event_def system_event_def)

text \<open>Projections of the trace that system calls, or plain ones, do not change.\<close>

lemma system_projections:
  "\<forall>e \<in> set es. system_event e \<Longrightarrow>
     states_of es = [] \<and> errors_of es = [] \<and> out_of es = [] \<and> err_of es = [] \<and>
     calls_of es = [] \<and> forks_of es = []"
  by (induction es) (auto simp: system_event_def plain_event_def split: event.splits)

lemma plain_projections:
  "\<forall>e \<in> set es. plain_event e \<Longrightarrow>
     open_fds (es @ t) = open_fds t \<and> fresh_pipes (es @ t) = fresh_pipes t \<and>
     closes_own (es @ t) = closes_own t"
  by (induction es) (auto simp: plain_event_def split: event.splits)

lemma adds_system_projections:
  assumes "adds system_event s t"
  shows "states_of (trace t) = states_of (trace s)" "errors_of (trace t) = errors_of (trace s)"
    "out_of (trace t) = out_of (trace s)" "err_of (trace t) = err_of (trace s)"
    "calls_of (trace t) = calls_of (trace s)" "forks_of (trace t) = forks_of (trace s)"
  using assms by (auto simp: adds_def system_projections)

lemma adds_plain_projections:
  assumes "adds plain_event s t"
  shows "open_fds (trace t) = open_fds (trace s)" "fresh_pipes (trace t) = fresh_pipes (trace s)"
    "closes_own (trace t) = closes_own (trace s)"
  using assms by (auto simp: adds_def plain_projections)

lemma adds_plain_system: "adds plain_event s t \<Longrightarrow> adds system_event s t"
  by (erule adds_mono) simp

text \<open>The loop around \<open>read\<close> leaves one read in the trace, or none.\<close>

lemma read_retry_Ret:
  "read_retry m K fd n s = Ret r t \<Longrightarrow>
   world.more t = world.more s \<and>
   trace t = (case r of Inl e \<Rightarrow> trace s | Inr d \<Rightarrow> ERead fd d # trace s)"
proof (induction m arbitrary: s)
  case 0
  then show ?case by (simp add: ret_iffs)
next
  case (Suc m)
  then obtain q u where q: "sys_read K fd n (s\<lparr>errno := 0\<rparr>) = Ret q u"
    and rest: "(if errno u = EINTR then read_retry m K fd n else ret q) u = Ret r t"
    by (auto simp: ret_iffs set_errno_def)
  have u: "world.more u = world.more s"
    "trace u = (case q of Inl e \<Rightarrow> trace s | Inr d \<Rightarrow> ERead fd d # trace s)"
    "\<And>d. q = Inr d \<Longrightarrow> errno u = 0"
    using q by (auto simp: sys_read_def ret_iffs)
  show ?case
  proof (cases "errno u = EINTR")
    case True
    with u(3) have "\<exists>e. q = Inl e" by (cases q) auto
    with True rest u Suc.IH [of u] show ?thesis by (auto split: sum.splits)
  next
    case False
    with rest u show ?thesis by (simp add: ret_iffs)
  qed
qed

lemma read_retry_answer:
  "read_retry m K fd n s = Ret (Inr d) t \<Longrightarrow> \<exists>k k'. k_read K fd n k = (Inr d, k')"
  by (induction m arbitrary: s) (auto simp: ret_iffs sys_read_def)

end
