(* ===== verification/Script_Platform.thy ===== *)
theory Script_Platform
  imports Posix
begin

section \<open>A scripted platform\<close>

text \<open>
  A concrete platform, on which the programs of the model can be run: every call takes the
  next answer of a list, and an empty list answers with an error. The properties hold for
  every platform; this one shows that their hypotheses can be met, and runs the library
  end to end on small scenarios.
\<close>

record script =
  sc_read :: "(int + string) list"
  sc_write :: "(int + nat) list"
  sc_next_fd :: int
  sc_pipes :: nat \<comment> \<open>how many more pipes can be created\<close>
  sc_select :: "(int + int set) list"
  sc_fork :: "(int + int) list"
  sc_waitpid :: "(int + int \<times> 32 word) list"
  sc_sigaction :: "(int + sig_handler) list"
  sc_getfl :: "(int + 32 word) list"

definition empty_script :: script where
  "empty_script = \<lparr>sc_read = [], sc_write = [], sc_next_fd = 3, sc_pipes = 0, sc_select = [],
     sc_fork = [], sc_waitpid = [], sc_sigaction = [], sc_getfl = []\<rparr>"

definition pop :: "(script \<Rightarrow> (int + 'r) list) \<Rightarrow> ((int + 'r) list \<Rightarrow> script \<Rightarrow> script) \<Rightarrow> int \<Rightarrow>
    script \<Rightarrow> (int + 'r) \<times> script" where
  "pop f put e sc = (case f sc of [] \<Rightarrow> (Inl e, sc) | r # rs \<Rightarrow> (r, put rs sc))"

definition script_pipe :: "script \<Rightarrow> (int + int \<times> int) \<times> script" where
  "script_pipe sc =
     (if sc_pipes sc = 0 then (Inl 24, sc)
      else (Inr (sc_next_fd sc, sc_next_fd sc + 1),
            sc\<lparr>sc_next_fd := sc_next_fd sc + 2, sc_pipes := sc_pipes sc - 1\<rparr>))"

text \<open>A \<open>read\<close> takes at most the bytes it was asked for; the rest stays.\<close>

definition script_read :: "nat \<Rightarrow> script \<Rightarrow> (int + string) \<times> script" where
  "script_read n sc = (case sc_read sc of
       [] \<Rightarrow> (Inl EAGAIN, sc)
     | Inl e # rs \<Rightarrow> (Inl e, sc\<lparr>sc_read := rs\<rparr>)
     | Inr d # rs \<Rightarrow> (Inr (take n d),
         sc\<lparr>sc_read := if length d \<le> n then rs else Inr (drop n d) # rs\<rparr>))"

definition script_platform :: "script platform" where
  "script_platform =
     \<lparr>k_read = (\<lambda>fd. script_read),
      k_write = (\<lambda>fd d. pop sc_write (\<lambda>rs. sc_write_update (\<lambda>_. rs)) EAGAIN),
      k_pipe = script_pipe,
      k_pipe2 = (\<lambda>flags. script_pipe),
      k_close = (\<lambda>fd sc. (Inr (), sc)),
      k_select = (\<lambda>nfds fds. pop sc_select (\<lambda>rs. sc_select_update (\<lambda>_. rs)) 9),
      k_fork = pop sc_fork (\<lambda>rs. sc_fork_update (\<lambda>_. rs)) 12,
      k_waitpid = (\<lambda>pid. pop sc_waitpid (\<lambda>rs. sc_waitpid_update (\<lambda>_. rs)) ECHILD),
      k_sigaction = (\<lambda>h. pop sc_sigaction (\<lambda>rs. sc_sigaction_update (\<lambda>_. rs)) 22),
      k_sigprocmask = (\<lambda>how sigs sc. (Inr (), sc)),
      k_kill = (\<lambda>pid sig sc. (Inr (), sc)),
      k_getfl = (\<lambda>fd. pop sc_getfl (\<lambda>rs. sc_getfl_update (\<lambda>_. rs)) 9),
      k_setfl = (\<lambda>fd flags sc. (Inr (), sc)),
      k_dup2 = (\<lambda>old new sc. (Inr new, sc)),
      k_execvp = (\<lambda>argv sc. (Inr (), sc)),
      map_place = (\<lambda>keys key. length keys)\<rparr>"

lemma script_platform_calls [simp]:
  "k_read script_platform fd n = script_read n"
  "k_write script_platform fd d = pop sc_write (\<lambda>rs. sc_write_update (\<lambda>_. rs)) EAGAIN"
  "k_pipe script_platform = script_pipe"
  "k_pipe2 script_platform flags = script_pipe"
  "k_close script_platform fd sc = (Inr (), sc)"
  "k_select script_platform nfds fds = pop sc_select (\<lambda>rs. sc_select_update (\<lambda>_. rs)) 9"
  "k_fork script_platform = pop sc_fork (\<lambda>rs. sc_fork_update (\<lambda>_. rs)) 12"
  "k_waitpid script_platform pid = pop sc_waitpid (\<lambda>rs. sc_waitpid_update (\<lambda>_. rs)) ECHILD"
  "k_sigaction script_platform h = pop sc_sigaction (\<lambda>rs. sc_sigaction_update (\<lambda>_. rs)) 22"
  "k_sigprocmask script_platform how sigs sc = (Inr (), sc)"
  "k_kill script_platform pid sig sc = (Inr (), sc)"
  "k_getfl script_platform fd = pop sc_getfl (\<lambda>rs. sc_getfl_update (\<lambda>_. rs)) 9"
  "k_setfl script_platform fd flags sc = (Inr (), sc)"
  "k_dup2 script_platform old new sc = (Inr new, sc)"
  "k_execvp script_platform argv sc = (Inr (), sc)"
  "map_place script_platform keys key = length keys"
  by (simp_all add: script_platform_def)

lemma pop_simps [simp]:
  "f sc = [] \<Longrightarrow> pop f put e sc = (Inl e, sc)"
  "f sc = r # rs \<Longrightarrow> pop f put e sc = (r, put rs sc)"
  by (simp_all add: pop_def)

lemma script_read_simps [simp]:
  "sc_read sc = [] \<Longrightarrow> script_read n sc = (Inl EAGAIN, sc)"
  "sc_read sc = Inl e # rs \<Longrightarrow> script_read n sc = (Inl e, sc\<lparr>sc_read := rs\<rparr>)"
  "sc_read sc = Inr d # rs \<Longrightarrow> length d \<le> n \<Longrightarrow> script_read n sc = (Inr d, sc\<lparr>sc_read := rs\<rparr>)"
  by (simp_all add: script_read_def)

lemma script_read_fits: "script_read n sc = (Inr d, sc') \<Longrightarrow> length d \<le> n"
  by (auto simp: script_read_def split: list.splits sum.splits)

lemma script_pipe_simps [simp]:
  "sc_pipes sc = 0 \<Longrightarrow> script_pipe sc = (Inl 24, sc)"
  "sc_pipes sc \<noteq> 0 \<Longrightarrow> script_pipe sc =
     (Inr (sc_next_fd sc, sc_next_fd sc + 1),
      sc\<lparr>sc_next_fd := sc_next_fd sc + 2, sc_pipes := sc_pipes sc - 1\<rparr>)"
  by (simp_all add: script_pipe_def)

end
