(* ===== verification/Util.thy ===== *)
theory Util
  imports Script_Platform
begin

unbundle bit_operations_syntax

section \<open>Descriptor helpers (util.h, util.cpp, proc_status.cpp: user_stop)\<close>

text \<open>
  The helpers on file descriptors, the argument vector for \<open>execvp\<close>, and the signal
  handler of the blocking mode with its global pipe. A function that changes \<open>*fd\<close>
  through a pointer returns the new value here. The lemmas show that closing is idempotent
  and closes each descriptor once, which flag bits change, and that the signal number
  survives the way through the pipe.
\<close>

text \<open>The globals of util.cpp.\<close>

record 'k util_world = "'k world" +
  sigchld_blocking_pipe_signal :: "int \<times> int"

subsection \<open>Flags\<close>

definition flags_of :: "int + 32 word \<Rightarrow> 32 word" where
  "flags_of r = (case r of Inl _ \<Rightarrow> -1 | Inr flags \<Rightarrow> flags)"

definition c_result :: "int + 'r \<Rightarrow> int" where
  "c_result r = (case r of Inl _ \<Rightarrow> -1 | Inr _ \<Rightarrow> 0)"

definition fd_set_nonblock :: "'k platform \<Rightarrow> int \<Rightarrow> (('k, 'z) world_scheme, int) prog" where
  "fd_set_nonblock K fd =
     bind (sys_getfl K fd) (\<lambda>flags.
     bind (sys_setfl K fd (flags_of flags OR O_NONBLOCK)) (\<lambda>r. ret (c_result r)))"

definition fd_set_cloexec :: "'k platform \<Rightarrow> int \<Rightarrow> (('k, 'z) world_scheme, int) prog" where
  "fd_set_cloexec K fd =
     bind (sys_getfl K fd) (\<lambda>flags.
     bind (sys_setfl K fd (flags_of flags OR O_CLOEXEC)) (\<lambda>r. ret (c_result r)))"

definition fd_unset_nonblock :: "'k platform \<Rightarrow> int \<Rightarrow> (('k, 'z) world_scheme, int) prog" where
  "fd_unset_nonblock K fd =
     bind (sys_getfl K fd) (\<lambda>flags.
     bind (sys_setfl K fd (flags_of flags AND NOT O_NONBLOCK)) (\<lambda>r. ret (c_result r)))"

subsection \<open>Closing\<close>

definition close_fd :: "'k platform \<Rightarrow> int \<Rightarrow> (('k, 'z) world_scheme, int) prog" where
  "close_fd K fd = (if 0 \<le> fd then seq (sys_close K fd) (ret (-1)) else ret fd)"

definition close_pipe ::
  "'k platform \<Rightarrow> int \<times> int \<Rightarrow> (('k, 'z) world_scheme, int \<times> int) prog" where
  "close_pipe K pipe =
     bind (close_fd K (fst pipe)) (\<lambda>a.
     bind (close_fd K (snd pipe)) (\<lambda>b. ret (a, b)))"

text \<open>
  \<open>pipe2\<close> as util.cpp defines it for macOS, out of \<open>pipe\<close> and \<open>fcntl\<close>. It returns the
  result with the new contents of the array \<open>p\<close>.
\<close>

definition set_both ::
  "(int \<Rightarrow> (('k, 'z) world_scheme, int) prog) \<Rightarrow> 'k platform \<Rightarrow> int \<times> int \<Rightarrow>
   (('k, 'z) world_scheme, int \<times> (int \<times> int)) prog \<Rightarrow>
   (('k, 'z) world_scheme, int \<times> (int \<times> int)) prog" where
  "set_both f K p k =
     (let fail = bind (close_pipe K p) (\<lambda>p. ret (-1, p)) in
      bind (f (fst p)) (\<lambda>r. if r < 0 then fail else
      bind (f (snd p)) (\<lambda>r. if r < 0 then fail else k)))"

definition pipe2_apple ::
  "'k platform \<Rightarrow> int \<times> int \<Rightarrow> 32 word \<Rightarrow> (('k, 'z) world_scheme, int \<times> (int \<times> int)) prog" where
  "pipe2_apple K p flags =
     bind (sys_pipe K) (\<lambda>r. case r of
       Inl _ \<Rightarrow> ret (-1, p)
     | Inr p \<Rightarrow>
         if flags = 0 then ret (0, p)
         else
           let cloexec = (if flags AND O_CLOEXEC = O_CLOEXEC
                          then set_both (fd_set_cloexec K) K p (ret (0, p)) else ret (0, p))
           in if flags AND O_NONBLOCK = O_NONBLOCK
              then set_both (fd_set_nonblock K) K p cloexec else cloexec)"

subsection \<open>Arguments for execvp\<close>

text \<open>A \<open>char*\<close> is \<open>Some\<close> of the string, the null pointer is \<open>None\<close>.\<close>

definition arg2argc :: "string list \<Rightarrow> string option list" where
  "arg2argc args = map Some args @ [None]"

subsection \<open>Signals\<close>

text \<open>The four bytes of an \<open>int\<close>, least significant first, and back.\<close>

fun le_bytes :: "nat \<Rightarrow> int \<Rightarrow> string" where
  "le_bytes 0 i = []"
| "le_bytes (Suc k) i = char_of (nat (i mod 256)) # le_bytes k (i div 256)"

definition int_bytes :: "int \<Rightarrow> string" where
  "int_bytes i = le_bytes 4 i"

fun bytes_uint :: "string \<Rightarrow> int" where
  "bytes_uint [] = 0"
| "bytes_uint (c # cs) = int (of_char c) + 256 * bytes_uint cs"

definition bytes_int :: "string \<Rightarrow> int" where
  "bytes_int cs = (let u = bytes_uint cs in if u < 2 ^ 31 then u else u - 2 ^ 32)"

text \<open>The handler for SIGCHLD of the blocking mode.\<close>

definition sigchld_blocking_signal_handler ::
  "'k platform \<Rightarrow> int \<Rightarrow> (('k, 'z) util_world_scheme, unit) prog" where
  "sigchld_blocking_signal_handler K sig =
     bind (gets sigchld_blocking_pipe_signal) (\<lambda>p.
     bind (sys_write K (snd p) (int_bytes sig)) (\<lambda>_. skip))"

text \<open>\<open>proc_status::user_stop\<close>: the assertion aborts the process when no watch pipe is open.\<close>

definition user_stop :: "'k platform \<Rightarrow> proc_status \<Rightarrow> (('k, 'z) world_scheme, unit) prog" where
  "user_stop K p =
     seq (assertion (ps_user_stop_fd p \<noteq> -1))
         (bind (sys_write K (ps_user_stop_fd p) [NUL]) (\<lambda>_. skip))"

subsection \<open>Facts\<close>

lemma sys_close_trace:
  "sys_close K fd s = Ret r t \<Longrightarrow> trace t = EClose fd # trace s \<and> world.more t = world.more s"
  by (auto simp: sys_close_def note_event_def ret_iffs)

text \<open>What a call of \<open>close_pipe\<close> adds to the trace.\<close>

definition close_events :: "int \<times> int \<Rightarrow> event list" where
  "close_events p =
     (if 0 \<le> snd p then [EClose (snd p)] else []) @ (if 0 \<le> fst p then [EClose (fst p)] else [])"

definition closed_fd :: "int \<Rightarrow> int" where
  "closed_fd fd = (if 0 \<le> fd then -1 else fd)"

lemma closed_fd_negative [simp]: "closed_fd fd < 0"
  by (simp add: closed_fd_def)

lemma closed_fd_not_nonneg [simp]: "(0 \<le> closed_fd fd) = False"
  by (simp add: closed_fd_def)

lemma close_fd_Ret:
  "close_fd K fd s = Ret r t \<Longrightarrow>
   r = closed_fd fd \<and> trace t = (if 0 \<le> fd then [EClose fd] else []) @ trace s \<and>
   world.more t = world.more s"
  by (auto simp: close_fd_def closed_fd_def ret_iffs split: if_splits dest: sys_close_trace)

lemma close_pipe_Ret:
  "close_pipe K p s = Ret r t \<Longrightarrow>
   r = (closed_fd (fst p), closed_fd (snd p)) \<and> trace t = close_events p @ trace s \<and>
   world.more t = world.more s"
  by (auto simp: close_pipe_def close_events_def ret_iffs dest!: close_fd_Ret)

lemma close_fd_returns: "\<exists>t. close_fd K fd s = Ret (closed_fd fd) t"
  by (cases "k_close K fd (kst s)")
     (auto simp: close_fd_def closed_fd_def sys_close_def syscall_def note_event_def prog_simps
       split: sum.splits prod.splits)

lemma close_pipe_returns: "\<exists>t. close_pipe K p s = Ret (closed_fd (fst p), closed_fd (snd p)) t"
proof -
  obtain t where "close_fd K (fst p) s = Ret (closed_fd (fst p)) t"
    using close_fd_returns by blast
  moreover obtain u where "close_fd K (snd p) t = Ret (closed_fd (snd p)) u"
    using close_fd_returns by blast
  ultimately show ?thesis by (simp add: close_pipe_def prog_simps)
qed

lemma open_fds_close_events:
  "open_fds (close_events p @ t) = open_fds t - {fd. 0 \<le> fd \<and> (fd = fst p \<or> fd = snd p)}"
  by (auto simp: close_events_def)

lemma pres_adds_close_fd: "P (EClose fd) \<Longrightarrow> pres (adds P) (close_fd K fd)"
  by (auto simp: close_fd_def intro!: adds_intros)

lemma pres_adds_close_pipe:
  "P (EClose (fst p)) \<Longrightarrow> P (EClose (snd p)) \<Longrightarrow> pres (adds P) (close_pipe K p)"
  by (auto simp: close_pipe_def intro!: adds_intros pres_adds_close_fd)

lemma pres_adds_flags:
  "(\<And>fl. P (ESetfl fd fl)) \<Longrightarrow> pres (adds P) (fd_set_nonblock K fd)"
  "(\<And>fl. P (ESetfl fd fl)) \<Longrightarrow> pres (adds P) (fd_set_cloexec K fd)"
  "(\<And>fl. P (ESetfl fd fl)) \<Longrightarrow> pres (adds P) (fd_unset_nonblock K fd)"
  by (auto simp: fd_set_nonblock_def fd_set_cloexec_def fd_unset_nonblock_def intro!: adds_intros)

lemmas util_intros =
  adds_intros pres_adds_close_fd pres_adds_close_pipe pres_adds_flags

lemma more_util:
  fixes s t :: "('k, 'z) util_world_scheme"
  shows "world.more t = world.more s \<Longrightarrow>
    sigchld_blocking_pipe_signal t = sigchld_blocking_pipe_signal s \<and>
    util_world.more t = util_world.more s"
  by (cases s; cases t) simp

lemma length_le_bytes [simp]: "length (le_bytes k i) = k"
  by (induction k arbitrary: i) auto

lemma bytes_uint_le_bytes: "bytes_uint (le_bytes k i) = i mod 256 ^ k"
proof (induction k arbitrary: i)
  case 0
  then show ?case by simp
next
  case (Suc k)
  have "int (of_char (char_of (nat (i mod 256)) :: char)) = i mod 256"
    by (simp add: of_char_of nat_mod_distrib)
  moreover have "i mod (256 * 256 ^ k) = 256 * (i div 256 mod 256 ^ k) + i mod 256"
    by (rule zmod_zmult2_eq) simp
  ultimately show ?case by (simp add: Suc.IH)
qed

lemma bytes_uint_int_bytes: "bytes_uint (int_bytes i) = i mod 2 ^ 32"
  by (simp add: int_bytes_def bytes_uint_le_bytes)

lemma bytes_uint_int_bytes_cases:
  assumes "- (2 ^ 31) \<le> i" and "i < 2 ^ 31"
  shows "bytes_uint (int_bytes i) = (if 0 \<le> i then i else i + 2 ^ 32)"
proof (cases "0 \<le> i")
  case True
  with assms show ?thesis by (simp add: bytes_uint_int_bytes)
next
  case False
  have "(i + 2 ^ 32) mod 2 ^ 32 = i + 2 ^ 32"
    using assms False by (intro mod_pos_pos_trivial) auto
  with False show ?thesis by (simp add: bytes_uint_int_bytes)
qed

text \<open>Clearing one bit of a word.\<close>

lemma bit_clear_one:
  fixes flags m :: "32 word"
  assumes "\<And>k. bit m k \<longleftrightarrow> k = b"
  shows "bit (flags AND NOT m) n \<longleftrightarrow> bit flags n \<and> n \<noteq> b"
  using bit_imp_le_length [of flags n]
  by (auto simp: bit_and_iff bit_not_iff assms possible_bit_word)

lemma set_clear_one: "((flags :: 32 word) OR m) AND NOT m = flags AND NOT m"
  by (rule bit_word_eqI) (auto simp: bit_and_iff bit_or_iff bit_not_iff)

lemma bit_O_NONBLOCK: "bit O_NONBLOCK n \<longleftrightarrow> n = 11"
proof -
  have "O_NONBLOCK = 2 ^ 11" by simp
  then show ?thesis by (simp only: bit_exp_iff) (auto simp: possible_bit_word)
qed

subsection \<open>Properties\<close>

text \<open>
  The retry loop around \<open>read\<close> returns exactly the first answer that is not
  EINTR, with the kernel after that many calls, whenever the kernel gives such an answer
  within the bound: interrupted reads are repeated and nothing is read twice.
\<close>

theorem read_retry_first_answer:
  assumes "\<forall>i < j. fst (k_read K fd n (((snd \<circ> k_read K fd n) ^^ i) (kst s))) = Inl EINTR"
    and "fst (k_read K fd n (((snd \<circ> k_read K fd n) ^^ j) (kst s))) = r"
    and "r \<noteq> Inl EINTR" and "j < m"
  shows "\<exists>t. read_retry m K fd n s = Ret r t \<and>
     kst t = ((snd \<circ> k_read K fd n) ^^ Suc j) (kst s)"
  using assms
proof (induction m arbitrary: j s)
  case 0
  then show ?case by simp
next
  case (Suc m)
  let ?next = "snd \<circ> k_read K fd n"
  obtain a k where call: "k_read K fd n (kst s) = (a, k)"
    by (cases "k_read K fd n (kst s)")
  show ?case
  proof (cases j)
    case 0
    with Suc.prems call show ?thesis
      by (cases a) (auto simp: prog_simps sys_read_def set_errno_def syscall_def)
  next
    case (Suc i)
    have a: "a = Inl EINTR" using Suc.prems(1) Suc call by fastforce
    define s' where "s' = s\<lparr>kst := k, errno := EINTR\<rparr>"
    have step: "read_retry (Suc m) K fd n s = read_retry m K fd n s'"
      using call a by (simp add: prog_simps sys_read_def set_errno_def syscall_def s'_def)
    have k: "kst s' = ?next (kst s)" using call by (simp add: s'_def)
    have shift: "(?next ^^ x) (kst s') = (?next ^^ Suc x) (kst s)" for x
      by (simp add: k funpow_swap1)
    have "\<exists>t. read_retry m K fd n s' = Ret r t \<and> kst t = (?next ^^ Suc i) (kst s')"
    proof (rule Suc.IH)
      show "\<forall>x < i. fst (k_read K fd n ((?next ^^ x) (kst s'))) = Inl EINTR"
        using Suc.prems(1) unfolding shift Suc by (meson Suc_less_eq)
      show "fst (k_read K fd n ((?next ^^ i) (kst s'))) = r"
        using Suc.prems(2) unfolding shift Suc .
    qed (use Suc.prems Suc in auto)
    then show ?thesis unfolding step shift Suc .
  qed
qed

theorem read_retry_first_answer_witness:
  "\<exists>t. read_retry 2 script_platform 3 1
      \<lparr>kst = empty_script\<lparr>sc_read := [Inl EINTR, Inr ''x'']\<rparr>, errno = 0, trace = []\<rparr> =
      Ret (Inr ''x'') t"
  using read_retry_first_answer [of 1 script_platform 3 1
      "\<lparr>kst = empty_script\<lparr>sc_read := [Inl EINTR, Inr ''x'']\<rparr>, errno = 0, trace = []\<rparr>"
      "Inr ''x''" 2]
  by auto

text \<open>
  The number the SIGCHLD handler writes to the pipe is the number the event
  loop reads: encoding an \<open>int\<close> into its four bytes and decoding them gives it back,
  for every 32 bit value, and always takes four bytes.
\<close>

theorem signal_bytes_roundtrip:
  assumes "- (2 ^ 31) \<le> i" and "i < 2 ^ 31"
  shows "bytes_int (int_bytes i) = i \<and> length (int_bytes i) = 4"
  using assms by (auto simp: bytes_int_def Let_def bytes_uint_int_bytes_cases)
    (simp_all add: int_bytes_def)

theorem signal_bytes_roundtrip_witness: "bytes_int (int_bytes (-2)) = -2"
  using signal_bytes_roundtrip [of "-2"] by simp

text \<open>
  \<open>close_pipe\<close> is safe to call twice, which the fork code relies on
  (\<open>close_fork_pipes\<close> runs on every way out): the first call returns, closes each end
  that is open exactly once, in order, and leaves negative numbers; a second call on what
  it left then does nothing at all.
\<close>

theorem close_pipe_idempotent:
  "\<exists>p' t. close_pipe K p s = Ret p' t \<and> trace t = close_events p @ trace s \<and>
     fst p' < 0 \<and> snd p' < 0 \<and> close_pipe K p' t = Ret p' t"
proof -
  obtain t where t: "close_pipe K p s = Ret (closed_fd (fst p), closed_fd (snd p)) t"
    using close_pipe_returns by blast
  have "close_pipe K (closed_fd (fst p), closed_fd (snd p)) t =
      Ret (closed_fd (fst p), closed_fd (snd p)) t"
    by (simp add: close_pipe_def close_fd_def prog_simps)
  with t close_pipe_Ret [OF t] show ?thesis
    by (intro exI [of _ "(closed_fd (fst p), closed_fd (snd p))"] exI [of _ t]) simp
qed

text \<open>
  \<open>fd_unset_nonblock\<close> clears the flag the pipes were created with and no
  other bit: the flags it writes are those it read without O_NONBLOCK, and writing them
  over the flags \<open>fd_set_nonblock\<close> produces from any flags changes only that bit.
\<close>

theorem fd_unset_nonblock_flags:
  assumes "k_getfl K fd (kst s) = (Inr flags, k)"
  shows "fd_unset_nonblock K fd s =
      bind (sys_setfl K fd (flags AND NOT O_NONBLOCK)) (\<lambda>r. ret (c_result r)) (s\<lparr>kst := k\<rparr>) \<and>
    (flags OR O_NONBLOCK) AND NOT O_NONBLOCK = flags AND NOT O_NONBLOCK \<and>
    bit (flags AND NOT O_NONBLOCK) n = (bit flags n \<and> n \<noteq> 11)"
proof (intro conjI)
  show "fd_unset_nonblock K fd s =
      bind (sys_setfl K fd (flags AND NOT O_NONBLOCK)) (\<lambda>r. ret (c_result r)) (s\<lparr>kst := k\<rparr>)"
    using assms by (simp add: fd_unset_nonblock_def sys_getfl_def syscall_def bind_def flags_of_def)
  show "bit (flags AND NOT O_NONBLOCK) n = (bit flags n \<and> n \<noteq> 11)"
    by (rule bit_clear_one [OF bit_O_NONBLOCK])
qed (rule set_clear_one)

theorem fd_unset_nonblock_flags_witness:
  "fd_unset_nonblock script_platform 3
      \<lparr>kst = empty_script\<lparr>sc_getfl := [Inr 0x802]\<rparr>, errno = 0, trace = []\<rparr> =
    bind (sys_setfl script_platform 3 (0x802 AND NOT O_NONBLOCK)) (\<lambda>r. ret (c_result r))
      \<lparr>kst = empty_script, errno = 0, trace = []\<rparr>"
proof -
  have "k_getfl script_platform 3 (empty_script\<lparr>sc_getfl := [Inr 0x802]\<rparr>) =
      (Inr 0x802, empty_script)"
    by (simp add: script_platform_def pop_def empty_script_def)
  then show ?thesis
    using fd_unset_nonblock_flags [of script_platform 3
        "\<lparr>kst = empty_script\<lparr>sc_getfl := [Inr 0x802]\<rparr>, errno = 0, trace = []\<rparr>" "0x802" empty_script]
    by simp
qed

text \<open>
  The vector for \<open>execvp\<close> has one pointer per argument and ends in the
  null pointer, which occurs nowhere else; so it has at least two entries exactly when there
  is an argument, and the check behind \<open>ARG_PARSE_C_ERROR\<close> never fails after the one
  behind \<open>ARG_PARSE_ERROR\<close> has passed.
\<close>

theorem arg2argc_terminated:
  "length (arg2argc args) = length args + 1 \<and> last (arg2argc args) = None \<and>
   None \<notin> set (butlast (arg2argc args)) \<and> (length (arg2argc args) < 2) = (args = [])"
  by (auto simp: arg2argc_def)

end
