(* ===== verification/Select_Event.thy ===== *)
theory Select_Event
  imports Util "HOL-Library.Multiset"
begin

section \<open>The event loop (event/select_event.h, event/select_event.cpp)\<close>

text \<open>
  \<open>select_event\<close> waits with \<open>select\<close> for readable descriptors and calls the callback of
  each. Its map from descriptors to callbacks is iterated in the order of its nodes, so it is
  an association list in that order; where a new node goes is up to the platform
  (\<open>map_place\<close>). An iterator is the key of its node, \<open>None\<close> for the end. A callback is
  stored as a code of a type \<open>'c\<close> that the client chooses and runs with \<open>lc_run\<close>;
  \<open>None\<close> is the class's own callback of its control pipe. \<open>N\<close> bounds the rounds of the
  loop, the steps of one round and the repetitions after EINTR; running out is
  \<open>Spin\<close>.
  The lemmas show that the map behaves as a registry, that the largest descriptor is right,
  and that a round calls every ready descriptor at most once, in order, also when callbacks
  remove descriptors, the one being called included.
\<close>

datatype event_return = STOP_LOOP | SKIP_OTHER_FD | NOTHING

record 'c select_event =
  se_control_pipe :: "int \<times> int"
  se_iterator_deleted :: bool
  se_iterator :: "int option"
  se_cbs :: "(int \<times> 'c option) list"
  se_recompute_max_fds :: bool
  se_max_fd :: int

record ('k, 'c) select_world = "'k util_world" +
  sel :: "'c select_event"

text \<open>The callbacks \<open>on_interrupt\<close> and \<open>on_error\<close>, and how to run a stored callback.\<close>

record ('s, 'c) loop_callbacks =
  lc_run :: "'c \<Rightarrow> int \<Rightarrow> ('s, event_return) prog"
  lc_interrupt :: "('s, event_return) prog option"
  lc_error :: "('s, unit) prog option"

definition init_select_event :: "'c select_event" where
  "init_select_event =
     \<lparr>se_control_pipe = (-1, -1), se_iterator_deleted = False, se_iterator = None,
      se_cbs = [], se_recompute_max_fds = True, se_max_fd = -1\<rparr>"

definition upd_sel ::
  "('c select_event \<Rightarrow> 'c select_event) \<Rightarrow> (('k, 'c, 'z) select_world_scheme, unit) prog" where
  "upd_sel f = upd (\<lambda>s. s\<lparr>sel := f (sel s)\<rparr>)"

subsection \<open>The map of callbacks\<close>

definition insert_node ::
  "'k platform \<Rightarrow> int \<Rightarrow> 'c option \<Rightarrow> (int \<times> 'c option) list \<Rightarrow> (int \<times> 'c option) list" where
  "insert_node K fd cb cbs =
     (let i = map_place K (map fst cbs) fd in take i cbs @ (fd, cb) # drop i cbs)"

definition erase_node :: "int \<Rightarrow> (int \<times> 'c option) list \<Rightarrow> (int \<times> 'c option) list" where
  "erase_node fd cbs = filter (\<lambda>p. fst p \<noteq> fd) cbs"

definition first_node :: "(int \<times> 'c option) list \<Rightarrow> int option" where
  "first_node cbs = (case cbs of [] \<Rightarrow> None | p # _ \<Rightarrow> Some (fst p))"

fun next_node :: "int \<Rightarrow> (int \<times> 'c option) list \<Rightarrow> int option" where
  "next_node fd [] = None"
| "next_node fd (p # cbs) = (if fst p = fd then first_node cbs else next_node fd cbs)"

subsection \<open>Operations\<close>

definition get_max_fd :: "(('k, 'c, 'z) select_world_scheme, int) prog" where
  "get_max_fd =
     bind (gets sel) (\<lambda>e.
       if se_recompute_max_fds e then
         (let m = foldl (\<lambda>max_fd p. if max_fd < fst p then fst p else max_fd) (-1) (se_cbs e)
          in seq (upd_sel (\<lambda>e. e\<lparr>se_max_fd := m\<rparr>)) (ret m))
       else ret (se_max_fd e))"

definition interrupt_write_fd :: "'c select_event \<Rightarrow> int" where
  "interrupt_write_fd e = snd (se_control_pipe e)"

definition se_interrupt :: "'k platform \<Rightarrow> (('k, 'c, 'z) select_world_scheme, unit) prog" where
  "se_interrupt K =
     bind (gets (\<lambda>s. interrupt_write_fd (sel s))) (\<lambda>fd.
     bind (sys_write K fd [NUL]) (\<lambda>_. skip))"

definition se_add_read_event ::
  "'k platform \<Rightarrow> int \<Rightarrow> 'c option \<Rightarrow> (('k, 'c, 'z) select_world_scheme, unit) prog" where
  "se_add_read_event K fd cb =
     bind (gets (\<lambda>s. map_of (se_cbs (sel s)) fd)) (\<lambda>it.
     block [assertion (it = None),
            upd_sel (\<lambda>e. e\<lparr>se_cbs := insert_node K fd cb (se_cbs e)\<rparr>)])"

text \<open>The removal of a watched descriptor: the iterator moves on when its node is erased.\<close>

definition erase_event :: "int \<Rightarrow> 'c select_event \<Rightarrow> 'c select_event" where
  "erase_event fd e =
     (let e = e\<lparr>se_recompute_max_fds := True\<rparr> in
      if se_iterator e = Some fd
      then e\<lparr>se_iterator_deleted := True, se_iterator := next_node fd (se_cbs e),
             se_cbs := erase_node fd (se_cbs e)\<rparr>
      else e\<lparr>se_cbs := erase_node fd (se_cbs e)\<rparr>)"

definition se_remove_read_event :: "int \<Rightarrow> (('k, 'c, 'z) select_world_scheme, unit) prog" where
  "se_remove_read_event fd =
     bind (gets (\<lambda>s. map_of (se_cbs (sel s)) fd)) (\<lambda>it.
       if it \<noteq> None then upd_sel (erase_event fd) else assertion False)"

text \<open>Constructor and destructor.\<close>

definition se_construct :: "'k platform \<Rightarrow> (('k, 'c, 'z) select_world_scheme, unit) prog" where
  "se_construct K =
     seq (upd_sel (\<lambda>_. init_select_event))
     (bind (sys_pipe2 K (O_CLOEXEC OR O_NONBLOCK)) (\<lambda>r. case r of
        Inl _ \<Rightarrow> assertion False
      | Inr p \<Rightarrow> block [upd_sel (\<lambda>e. e\<lparr>se_control_pipe := p\<rparr>),
                        se_add_read_event K (fst p) None]))"

definition se_destruct :: "'k platform \<Rightarrow> (('k, 'c, 'z) select_world_scheme, unit) prog" where
  "se_destruct K =
     bind (gets (\<lambda>s. se_control_pipe (sel s))) (\<lambda>p.
     bind (close_pipe K p) (\<lambda>p. upd_sel (\<lambda>e. e\<lparr>se_control_pipe := p\<rparr>)))"

subsection \<open>The loop\<close>

text \<open>The callback the constructor registers for the control pipe.\<close>

definition control_callback ::
  "nat \<Rightarrow> 'k platform \<Rightarrow> (('k, 'c, 'z) select_world_scheme, 'c) loop_callbacks \<Rightarrow> int \<Rightarrow>
   (('k, 'c, 'z) select_world_scheme, event_return) prog" where
  "control_callback N K L fd =
     bind (read_retry N K fd 1) (\<lambda>r.
     seq (assertion (case r of Inl _ \<Rightarrow> False | Inr _ \<Rightarrow> True))
         (case lc_interrupt L of Some f \<Rightarrow> f | None \<Rightarrow> ret NOTHING))"

text \<open>
  Calling the node under the iterator. An iterator whose node is gone would be dangling,
  which ends the program here; \<open>iterator_at\<close> below shows that it does not happen.
\<close>

definition call_node ::
  "nat \<Rightarrow> 'k platform \<Rightarrow> (('k, 'c, 'z) select_world_scheme, 'c) loop_callbacks \<Rightarrow> int \<Rightarrow>
   (('k, 'c, 'z) select_world_scheme, event_return) prog" where
  "call_node N K L fd =
     bind (gets (\<lambda>s. map_of (se_cbs (sel s)) fd)) (\<lambda>cb. case cb of
       None \<Rightarrow> finish Aborted
     | Some cb \<Rightarrow> seq (note_event (ECall fd))
         (case cb of None \<Rightarrow> control_callback N K L fd | Some c \<Rightarrow> lc_run L c fd))"

definition advance_iterator :: "'c select_event \<Rightarrow> 'c select_event" where
  "advance_iterator e =
     (if \<not> se_iterator_deleted e
      then e\<lparr>se_iterator :=
             (case se_iterator e of None \<Rightarrow> None | Some fd \<Rightarrow> next_node fd (se_cbs e))\<rparr>
      else e\<lparr>se_iterator_deleted := False\<rparr>)"

text \<open>The \<open>while\<close> over the iterator; the result is the flag \<open>stop\<close>.\<close>

fun dispatch ::
  "nat \<Rightarrow> 'k platform \<Rightarrow> (('k, 'c, 'z) select_world_scheme, 'c) loop_callbacks \<Rightarrow> int set \<Rightarrow> nat \<Rightarrow>
   (('k, 'c, 'z) select_world_scheme, bool) prog" where
  "dispatch N K L ready 0 = spin"
| "dispatch N K L ready (Suc m) =
     bind (gets (\<lambda>s. se_iterator (sel s))) (\<lambda>it. case it of
       None \<Rightarrow> ret False
     | Some fd \<Rightarrow>
         if fd \<in> ready then
           bind (call_node N K L fd) (\<lambda>r. case r of
             STOP_LOOP \<Rightarrow> ret True
           | SKIP_OTHER_FD \<Rightarrow> ret False
           | NOTHING \<Rightarrow> seq (upd_sel advance_iterator) (dispatch N K L ready m))
         else seq (upd_sel advance_iterator) (dispatch N K L ready m))"

text \<open>
  Waiting for events: \<open>None\<close> when \<open>select\<close> failed, else the readable descriptors. After a
  successful call \<open>errno\<close> is 0, so the loop ends.
\<close>

fun select_wait ::
  "nat \<Rightarrow> 'k platform \<Rightarrow> (('k, 'c, 'z) select_world_scheme, 'c) loop_callbacks \<Rightarrow>
   (('k, 'c, 'z) select_world_scheme, int set option) prog" where
  "select_wait 0 K L = spin"
| "select_wait (Suc m) K L =
     bind (gets (\<lambda>s. se_cbs (sel s))) (\<lambda>cbs.
       if cbs = [] then ret (Some {})
       else
         seq (set_errno 0)
         (bind get_max_fd (\<lambda>max_fd.
          bind (sys_select K (max_fd + 1) (set (map fst cbs))) (\<lambda>r. case r of
            Inl e \<Rightarrow>
              if e \<noteq> EINTR
              then seq (case lc_error L of Some f \<Rightarrow> f | None \<Rightarrow> skip) (ret None)
              else select_wait m K L
          | Inr ready \<Rightarrow> ret (Some ready)))))"

fun loop_rounds ::
  "nat \<Rightarrow> 'k platform \<Rightarrow> (('k, 'c, 'z) select_world_scheme, 'c) loop_callbacks \<Rightarrow> nat \<Rightarrow>
   (('k, 'c, 'z) select_world_scheme, unit) prog" where
  "loop_rounds N K L 0 = spin"
| "loop_rounds N K L (Suc m) =
     bind (gets errno) (\<lambda>save_errno.
     bind (select_wait N K L) (\<lambda>r.
     seq (set_errno save_errno) (case r of
       None \<Rightarrow> skip
     | Some ready \<Rightarrow>
         seq (upd_sel (\<lambda>e. e\<lparr>se_iterator := first_node (se_cbs e)\<rparr>))
         (bind (dispatch N K L ready N) (\<lambda>stop.
            if stop then skip else loop_rounds N K L m)))))"

definition se_loop ::
  "nat \<Rightarrow> 'k platform \<Rightarrow> (('k, 'c, 'z) select_world_scheme, 'c) loop_callbacks \<Rightarrow>
   (('k, 'c, 'z) select_world_scheme, unit) prog" where
  "se_loop N K L = loop_rounds N K L N"

subsection \<open>The registry interface\<close>

text \<open>
  What a sequence of requests makes of a map from descriptors to callbacks: \<open>Inr (fd, c)\<close>
  asks to watch \<open>fd\<close>, \<open>Inl fd\<close> to watch it no more. The first that finds its descriptor
  watched already, or not watched, fails.
\<close>

fun watch_spec :: "(int + int \<times> 'c) list \<Rightarrow> (int \<rightharpoonup> 'c) \<Rightarrow> (int \<rightharpoonup> 'c) option" where
  "watch_spec [] m = Some m"
| "watch_spec (Inl fd # ops) m = (if m fd = None then None else watch_spec ops (m(fd := None)))"
| "watch_spec (Inr (fd, c) # ops) m = (if m fd = None then watch_spec ops (m(fd \<mapsto> c)) else None)"

text \<open>
  What the owners of an event loop rely on when they watch descriptors: adding one that is
  not watched makes it watched, removing one makes it unwatched, and the others keep their
  callbacks.
\<close>

locale registry =
  fixes lookup :: "'r \<Rightarrow> int \<Rightarrow> 'c option"
    and add :: "int \<Rightarrow> 'c \<Rightarrow> 'r \<Rightarrow> 'r"
    and del :: "int \<Rightarrow> 'r \<Rightarrow> 'r"
    and wf :: "'r \<Rightarrow> bool"
  assumes lookup_add: "wf r \<Longrightarrow> lookup r fd = None \<Longrightarrow> lookup (add fd c r) = (lookup r)(fd \<mapsto> c)"
    and wf_add: "wf r \<Longrightarrow> lookup r fd = None \<Longrightarrow> wf (add fd c r)"
    and lookup_del: "wf r \<Longrightarrow> lookup (del fd r) = (lookup r)(fd := None)"
    and wf_del: "wf r \<Longrightarrow> wf (del fd r)"
begin

lemma add_all:
  "wf r \<Longrightarrow> distinct (map fst cs) \<Longrightarrow> \<forall>fd \<in> set (map fst cs). lookup r fd = None \<Longrightarrow>
   wf (fold (\<lambda>(fd, c). add fd c) cs r) \<and>
   lookup (fold (\<lambda>(fd, c). add fd c) cs r) = lookup r ++ map_of cs"
proof (induction cs arbitrary: r)
  case Nil
  then show ?case by simp
next
  case (Cons p cs)
  obtain fd c where p: "p = (fd, c)" by (cases p)
  have "wf (add fd c r)" and l: "lookup (add fd c r) = (lookup r)(fd \<mapsto> c)"
    using Cons.prems p lookup_add wf_add by auto
  then have "wf (fold (\<lambda>(fd, c). add fd c) cs (add fd c r)) \<and>
      lookup (fold (\<lambda>(fd, c). add fd c) cs (add fd c r)) = lookup (add fd c r) ++ map_of cs"
    using Cons.prems p by (intro Cons.IH) auto
  moreover have "(lookup r)(fd \<mapsto> c) ++ map_of cs = lookup r ++ map_of ((fd, c) # cs)"
  proof -
    have "map_of cs fd = None"
      using Cons.prems(2) p by (simp add: map_of_eq_None_iff)
    then show ?thesis by (auto simp: map_add_def fun_eq_iff split: option.split)
  qed
  moreover have "fold (\<lambda>(fd, c). add fd c) (p # cs) r = fold (\<lambda>(fd, c). add fd c) cs (add fd c r)"
    using p by simp
  ultimately show ?case by (simp only: p l)
qed

lemma del_all:
  "wf r \<Longrightarrow> wf (fold del fds r) \<and> lookup (fold del fds r) = (lookup r) |` (- set fds)"
proof (induction fds arbitrary: r)
  case Nil
  then show ?case by (simp add: restrict_map_def)
next
  case (Cons fd fds)
  then show ?case
    using Cons.IH [of "del fd r"]
    by (auto simp: lookup_del wf_del restrict_map_def fun_eq_iff)
qed

text \<open>Any sequence of additions and removals that the registry accepts.\<close>

lemma run_ops:
  "wf r \<Longrightarrow> watch_spec ops (lookup r) = Some m \<Longrightarrow>
   wf (fold (case_sum del (\<lambda>(fd, c). add fd c)) ops r) \<and>
   lookup (fold (case_sum del (\<lambda>(fd, c). add fd c)) ops r) = m"
proof (induction ops arbitrary: r)
  case Nil
  then show ?case by simp
next
  case (Cons op ops)
  show ?case
  proof (cases op)
    case (Inl fd)
    with Cons.prems have "watch_spec ops (lookup (del fd r)) = Some m" "wf (del fd r)"
      by (simp_all add: lookup_del [OF Cons.prems(1)] wf_del split: if_splits)
    with Inl Cons.IH [of "del fd r"] show ?thesis by simp
  next
    case (Inr p)
    obtain fd c where "p = (fd, c)" by (cases p)
    with Inr Cons.prems have "watch_spec ops (lookup (add fd c r)) = Some m" "wf (add fd c r)"
      by (simp_all add: lookup_add [OF Cons.prems(1)] wf_add split: if_splits)
    with Inr \<open>p = (fd, c)\<close> Cons.IH [of "add fd c r"] show ?thesis by simp
  qed
qed

end

subsection \<open>The map is a registry\<close>

definition se_lookup :: "'c select_event \<Rightarrow> int \<Rightarrow> 'c option option" where
  "se_lookup e fd = map_of (se_cbs e) fd"

definition se_wf :: "'c select_event \<Rightarrow> bool" where
  "se_wf e \<longleftrightarrow> distinct (map fst (se_cbs e))"

definition add_event :: "'k platform \<Rightarrow> int \<Rightarrow> 'c option \<Rightarrow> 'c select_event \<Rightarrow> 'c select_event" where
  "add_event K fd cb e = e\<lparr>se_cbs := insert_node K fd cb (se_cbs e)\<rparr>"

lemma insert_node_mset: "mset (insert_node K fd cb cbs) = add_mset (fd, cb) (mset cbs)"
proof -
  have "mset (take i cbs) + mset (drop i cbs) = mset cbs" for i
    by (simp flip: mset_append)
  then show ?thesis by (simp add: insert_node_def Let_def)
qed

lemma insert_node_set: "set (insert_node K fd cb cbs) = insert (fd, cb) (set cbs)"
  using insert_node_mset [of K fd cb cbs] by (metis set_mset_add_mset_insert set_mset_mset)

lemma insert_node_distinct:
  "distinct (map fst (insert_node K fd cb cbs)) \<longleftrightarrow> distinct (map fst cbs) \<and> fd \<notin> fst ` set cbs"
proof -
  have "mset (map fst (insert_node K fd cb cbs)) = mset (fd # map fst cbs)"
    using insert_node_mset [of K fd cb cbs] by (simp add: mset_map)
  then have "distinct (map fst (insert_node K fd cb cbs)) \<longleftrightarrow> distinct (fd # map fst cbs)"
    by (rule mset_eq_imp_distinct_iff)
  then show ?thesis by auto
qed

lemma insert_node_lookup:
  assumes "distinct (map fst cbs)" and "map_of cbs fd = None"
  shows "map_of (insert_node K fd cb cbs) = (map_of cbs)(fd \<mapsto> cb)"
proof
  fix x
  have d: "distinct (map fst (insert_node K fd cb cbs))"
    using assms by (simp add: insert_node_distinct map_of_eq_None_iff)
  have "map_of (insert_node K fd cb cbs) x = Some c \<longleftrightarrow> ((map_of cbs)(fd \<mapsto> cb)) x = Some c" for c
    using assms d
    by (auto simp: map_of_eq_Some_iff insert_node_set map_of_eq_None_iff image_iff)
  then show "map_of (insert_node K fd cb cbs) x = ((map_of cbs)(fd \<mapsto> cb)) x"
    by (metis option.exhaust)
qed

lemma erase_node_lookup: "map_of (erase_node fd cbs) = (map_of cbs)(fd := None)"
  by (induction cbs) (auto simp: erase_node_def fun_eq_iff)

lemma erase_node_keys: "map fst (erase_node fd cbs) = filter (\<lambda>k. k \<noteq> fd) (map fst cbs)"
  by (simp add: erase_node_def filter_map o_def)

lemma erase_event_cbs: "se_cbs (erase_event fd e) = erase_node fd (se_cbs e)"
  by (simp add: erase_event_def Let_def)

lemma erase_event_control: "se_control_pipe (erase_event fd e) = se_control_pipe e"
  by (simp add: erase_event_def Let_def)

interpretation se: registry se_lookup "add_event K" erase_event se_wf
  by unfold_locales
     (auto simp: se_lookup_def se_wf_def add_event_def fun_eq_iff insert_node_lookup
       insert_node_distinct map_of_eq_None_iff erase_event_cbs erase_node_lookup erase_node_keys)

subsection \<open>The largest descriptor\<close>

lemma foldl_max:
  "foldl (\<lambda>m p. if m < fst p then fst p else m) a ps = Max (insert a (fst ` set ps))"
  for a :: int
proof (induction ps arbitrary: a)
  case Nil
  then show ?case by simp
next
  case (Cons p ps)
  have "(if a < fst p then fst p else a) = max a (fst p)" by simp
  then show ?case
    using Cons.IH [of "max a (fst p)"]
    by (cases "ps = []") (simp_all add: Max_insert insert_commute max.assoc max.left_commute)
qed

subsection \<open>Iteration under removal\<close>

definition head_opt :: "'x list \<Rightarrow> 'x option" where
  "head_opt xs = (case xs of [] \<Rightarrow> None | x # _ \<Rightarrow> Some x)"

lemma head_opt_simps [simp]: "head_opt [] = None" "head_opt (x # xs) = Some x"
  by (simp_all add: head_opt_def)

lemma head_opt_Some: "head_opt xs = Some x \<longleftrightarrow> (\<exists>ys. xs = x # ys)"
  by (auto simp: head_opt_def split: list.splits)

text \<open>The iterator stands before the keys \<open>post\<close>, after the keys \<open>pre\<close>.\<close>

definition iterator_at :: "'c select_event \<Rightarrow> int list \<Rightarrow> int list \<Rightarrow> bool" where
  "iterator_at e pre post \<longleftrightarrow>
     map fst (se_cbs e) = pre @ post \<and> distinct (pre @ post) \<and> se_iterator e = head_opt post"

lemma first_node_head: "first_node cbs = head_opt (map fst cbs)"
  by (cases cbs) (auto simp: first_node_def)

lemma next_node_head:
  "map fst cbs = pre @ k # post \<Longrightarrow> k \<notin> set pre \<Longrightarrow> next_node k cbs = head_opt post"
proof (induction cbs arbitrary: pre)
  case Nil
  then show ?case by simp
next
  case (Cons p cbs)
  then show ?case by (cases pre) (auto simp: first_node_head)
qed

lemma iterator_at_erase:
  assumes "iterator_at e pre post"
  shows "iterator_at (erase_event fd e) (filter (\<lambda>k. k \<noteq> fd) pre) (filter (\<lambda>k. k \<noteq> fd) post)"
    and "se_iterator_deleted (erase_event fd e) \<longleftrightarrow>
      se_iterator_deleted e \<or> head_opt post = Some fd"
proof -
  have keys: "map fst (se_cbs e) = pre @ post" "distinct (pre @ post)" "se_iterator e = head_opt post"
    using assms by (auto simp: iterator_at_def)
  show "se_iterator_deleted (erase_event fd e) \<longleftrightarrow>
      se_iterator_deleted e \<or> head_opt post = Some fd"
    using keys(3) by (simp add: erase_event_def Let_def)
  show "iterator_at (erase_event fd e) (filter (\<lambda>k. k \<noteq> fd) pre) (filter (\<lambda>k. k \<noteq> fd) post)"
  proof (cases "head_opt post = Some fd")
    case True
    then obtain ks where post: "post = fd # ks" by (auto simp: head_opt_Some)
    have "next_node fd (se_cbs e) = head_opt ks"
      using keys post by (intro next_node_head) auto
    moreover have "filter (\<lambda>k. k \<noteq> fd) ks = ks"
      using keys(2) post by (auto intro: filter_True)
    ultimately show ?thesis
      using keys True post
      by (auto simp: iterator_at_def erase_event_def Let_def erase_node_keys)
  next
    case False
    then have "head_opt (filter (\<lambda>k. k \<noteq> fd) post) = head_opt post"
      by (cases post) auto
    then show ?thesis
      using keys False
      by (auto simp: iterator_at_def erase_event_def Let_def erase_node_keys)
  qed
qed

lemma iterator_at_fold:
  "iterator_at e pre post \<Longrightarrow>
   iterator_at (fold erase_event fds e) (filter (\<lambda>k. k \<notin> set fds) pre)
     (filter (\<lambda>k. k \<notin> set fds) post) \<and>
   (se_iterator_deleted (fold erase_event fds e) \<longleftrightarrow>
      se_iterator_deleted e \<or> head_opt post \<in> Some ` set fds)"
proof (induction fds arbitrary: e pre post)
  case Nil
  then show ?case by simp
next
  case (Cons fd fds)
  let ?no = "filter (\<lambda>k. k \<noteq> fd)"
  have "head_opt post \<noteq> Some fd \<Longrightarrow> head_opt (?no post) = head_opt post"
    by (cases post) auto
  then have "se_iterator_deleted (fold erase_event fds (erase_event fd e)) \<longleftrightarrow>
      se_iterator_deleted e \<or> head_opt post \<in> insert (Some fd) (Some ` set fds)"
    using Cons.IH [OF iterator_at_erase(1) [OF Cons.prems, of fd]]
      iterator_at_erase(2) [OF Cons.prems, of fd]
    by (cases "head_opt post = Some fd") simp_all
  moreover have "filter (\<lambda>k. k \<notin> set fds) (?no xs) = filter (\<lambda>k. k \<notin> set (fd # fds)) xs" for xs
    by (simp add: conj_commute)
  ultimately show ?case
    using Cons.IH [OF iterator_at_erase(1) [OF Cons.prems, of fd]] by simp
qed

lemma iterator_at_advance:
  assumes at: "iterator_at e pre (k # post)" and "\<not> se_iterator_deleted e"
    and e': "e' = advance_iterator (fold erase_event fds e)"
  shows "\<exists>pre'. iterator_at e' pre' (filter (\<lambda>x. x \<notin> set fds) post) \<and> \<not> se_iterator_deleted e'"
proof (cases "k \<in> set fds")
  case True
  then show ?thesis
    using iterator_at_fold [OF at, of fds] assms(2) e'
    by (auto simp: advance_iterator_def iterator_at_def)
next
  case False
  let ?f = "fold erase_event fds e" and ?no = "filter (\<lambda>x. x \<notin> set fds)"
  have f: "iterator_at ?f (?no pre) (k # ?no post)" "\<not> se_iterator_deleted ?f"
    using iterator_at_fold [OF at, of fds] assms(2) False by auto
  then have "next_node k (se_cbs ?f) = head_opt (?no post)"
    by (intro next_node_head [of _ "?no pre"]) (auto simp: iterator_at_def)
  with f e' have "iterator_at e' (?no pre @ [k]) (?no post)"
    by (auto simp: iterator_at_def advance_iterator_def)
  moreover have "\<not> se_iterator_deleted e'"
    using f(2) e' by (simp add: advance_iterator_def)
  ultimately show ?thesis by blast
qed

lemma se_cbs_fold_erase:
  "fst ` set (se_cbs (fold erase_event fds e)) = fst ` set (se_cbs e) - set fds"
proof (induction fds arbitrary: e)
  case Nil
  then show ?case by simp
next
  case (Cons fd fds)
  then show ?case by (auto simp: erase_event_cbs erase_node_def)
qed

lemma se_cbs_advance [simp]: "se_cbs (advance_iterator e) = se_cbs e"
  by (simp add: advance_iterator_def)

subsection \<open>One round of callbacks\<close>

text \<open>
  The contract of callbacks that may remove descriptors but do not add any: all they do to
  the event loop object is a sequence of removals.
\<close>

definition removes ::
  "('k, 'c, 'z) select_world_scheme \<Rightarrow> ('k, 'c, 'z) select_world_scheme \<Rightarrow> bool" where
  "removes s t \<longleftrightarrow>
     (\<exists>fds. sel t = fold erase_event fds (sel s)) \<and> calls_of (trace t) = calls_of (trace s)"

interpretation rm: step_rel "removes :: ('k, 'c, 'z) select_world_scheme \<Rightarrow> _"
proof
  fix s t u :: "('k, 'c, 'z) select_world_scheme"
  show "removes s s" by (auto simp: removes_def intro: exI [of _ "[]"])
  assume "removes s t"
  then obtain f where "sel t = fold erase_event f (sel s)" "calls_of (trace t) = calls_of (trace s)"
    by (auto simp: removes_def)
  moreover assume "removes t u"
  then obtain g where "sel u = fold erase_event g (sel t)" "calls_of (trace u) = calls_of (trace t)"
    by (auto simp: removes_def)
  ultimately show "removes s u"
    by (auto simp: removes_def intro: exI [of _ "f @ g"])
qed

lemma more_sel:
  fixes s t :: "('k, 'c, 'z) select_world_scheme"
  shows "world.more t = world.more s \<Longrightarrow>
    sel t = sel s \<and> sigchld_blocking_pipe_signal t = sigchld_blocking_pipe_signal s \<and>
    select_world.more t = select_world.more s"
  by (cases s; cases t) simp

lemma adds_removes:
  fixes s t :: "('k, 'c, 'z) select_world_scheme"
  assumes "adds system_event s t"
  shows "removes s t"
  using adds_system_projections(5) [OF assms] more_sel [OF adds_more [OF assms]]
  by (auto simp: removes_def intro: exI [of _ "[]"])

lemma pres_removes_remove: "pres removes (se_remove_read_event fd)"
proof (rule presI)
  fix s t a
  assume "se_remove_read_event fd s = Ret a t"
  then have "sel t = erase_event fd (sel s)" "trace t = trace s"
    by (auto simp: se_remove_read_event_def upd_sel_def ret_iffs split: if_splits)
  then show "removes s t"
    by (auto simp: removes_def intro: exI [of _ "[fd]"])
qed

definition removing_callbacks ::
  "(('k, 'c, 'z) select_world_scheme, 'c) loop_callbacks \<Rightarrow> bool" where
  "removing_callbacks L \<longleftrightarrow>
     (\<forall>c fd. pres removes (lc_run L c fd)) \<and> (\<forall>f. lc_interrupt L = Some f \<longrightarrow> pres removes f)"

lemma call_node_Ret:
  assumes "removing_callbacks L" and "call_node N K L fd s = Ret r t"
  shows "\<exists>fds. sel t = fold erase_event fds (sel s) \<and> calls_of (trace t) = calls_of (trace s) @ [fd]"
proof -
  let ?s = "s\<lparr>trace := ECall fd # trace s\<rparr>"
  have "pres removes (read_retry N K fd 1)"
    by (rule pres_mono [OF pres_adds_read_retry [of system_event] adds_removes]) simp_all
  then have "pres removes (control_callback N K L fd)"
    using assms(1) unfolding control_callback_def
    by (intro rm.pres_intros) (auto simp: removing_callbacks_def)
  then have "pres removes (case cb of None \<Rightarrow> control_callback N K L fd | Some c \<Rightarrow> lc_run L c fd)"
    for cb
    using assms(1) by (auto simp: removing_callbacks_def split: option.split)
  moreover obtain cb where
    "(case cb of None \<Rightarrow> control_callback N K L fd | Some c \<Rightarrow> lc_run L c fd) ?s = Ret r t"
    using assms(2)
    by (auto simp: call_node_def note_event_def ret_iffs split: option.splits)
  ultimately have "removes ?s t" by (blast dest: presD)
  then show ?thesis by (simp add: removes_def)
qed

text \<open>No callback ends a round early by skipping the other descriptors.\<close>

definition never_skips ::
  "nat \<Rightarrow> 'k platform \<Rightarrow> (('k, 'c, 'z) select_world_scheme, 'c) loop_callbacks \<Rightarrow> bool" where
  "never_skips N K L \<longleftrightarrow> (\<forall>fd s r t. call_node N K L fd s = Ret r t \<longrightarrow> r \<noteq> SKIP_OTHER_FD)"

definition keys :: "'c select_event \<Rightarrow> int set" where
  "keys e = fst ` set (se_cbs e)"

lemma keys_simps:
  "keys (advance_iterator e) = keys e"
  "keys (fold erase_event fds e) = keys e - set fds"
  by (simp_all add: keys_def se_cbs_fold_erase)

lemma dispatch_calls:
  assumes L: "removing_callbacks L"
  shows "dispatch N K L ready m s = Ret stop t \<Longrightarrow> iterator_at (sel s) pre post \<Longrightarrow>
    \<not> se_iterator_deleted (sel s) \<Longrightarrow>
    \<exists>cs. calls_of (trace t) = calls_of (trace s) @ cs \<and>
       subseq cs (filter (\<lambda>k. k \<in> ready) post) \<and> keys (sel t) \<subseteq> keys (sel s) \<and>
       (never_skips N K L \<longrightarrow> \<not> stop \<longrightarrow> set post \<inter> ready \<inter> keys (sel t) \<subseteq> set cs)"
proof (induction m arbitrary: s pre post)
  case 0
  then show ?case by (simp add: ret_iffs)
next
  case (Suc m)
  show ?case
  proof (cases post)
    case Nil
    then have "se_iterator (sel s) = None" using Suc.prems(2) by (simp add: iterator_at_def)
    then have "t = s" using Suc.prems(1) by (simp add: ret_iffs)
    with Nil show ?thesis by (auto intro!: exI [of _ "[]"])
  next
    case (Cons k ks)
    then have it: "se_iterator (sel s) = Some k" using Suc.prems(2) by (simp add: iterator_at_def)
    show ?thesis
    proof (cases "k \<in> ready")
      case False
      let ?s = "s\<lparr>sel := advance_iterator (sel s)\<rparr>"
      have run: "dispatch N K L ready m ?s = Ret stop t"
        using Suc.prems(1) it False by (simp add: ret_iffs upd_sel_def)
      obtain pre' where "iterator_at (sel ?s) pre' ks" "\<not> se_iterator_deleted (sel ?s)"
        using iterator_at_advance [of "sel s" pre k ks "sel ?s" "[]"] Suc.prems(2,3) Cons by auto
      from Suc.IH [OF run this] obtain cs where
        "calls_of (trace t) = calls_of (trace s) @ cs" "subseq cs (filter (\<lambda>k. k \<in> ready) ks)"
        "keys (sel t) \<subseteq> keys (sel s)"
        "never_skips N K L \<longrightarrow> \<not> stop \<longrightarrow> set ks \<inter> ready \<inter> keys (sel t) \<subseteq> set cs"
        by (auto simp: keys_simps)
      then show ?thesis using False Cons by (intro exI [of _ cs]) auto
    next
      case True
      then obtain r u where call: "call_node N K L k s = Ret r u"
        and rest: "(case r of STOP_LOOP \<Rightarrow> ret True | SKIP_OTHER_FD \<Rightarrow> ret False
          | NOTHING \<Rightarrow> seq (upd_sel advance_iterator) (dispatch N K L ready m)) u = Ret stop t"
        using Suc.prems(1) it by (auto simp: ret_iffs)
      obtain fds where u: "sel u = fold erase_event fds (sel s)"
        "calls_of (trace u) = calls_of (trace s) @ [k]"
        using call_node_Ret [OF L call] by blast
      show ?thesis
      proof (cases "r = NOTHING")
        case False
        with rest have "t = u" and "r = STOP_LOOP \<and> stop \<or> r = SKIP_OTHER_FD"
          by (cases r; simp add: ret_iffs)+
        with u call True Cons show ?thesis
          by (intro exI [of _ "[k]"]) (auto simp: keys_simps never_skips_def)
      next
        case NOTHING: True
        let ?u = "u\<lparr>sel := advance_iterator (sel u)\<rparr>"
        have run: "dispatch N K L ready m ?u = Ret stop t"
          using rest NOTHING by (simp add: ret_iffs upd_sel_def)
        let ?ks = "filter (\<lambda>x. x \<notin> set fds) ks"
        obtain pre' where "iterator_at (sel ?u) pre' ?ks" "\<not> se_iterator_deleted (sel ?u)"
          using iterator_at_advance [of "sel s" pre k ks "sel ?u" fds] Suc.prems(2,3) Cons u(1)
          by auto
        from Suc.IH [OF run this] obtain cs where cs:
          "calls_of (trace t) = calls_of (trace u) @ cs"
          "subseq cs (filter (\<lambda>k. k \<in> ready) ?ks)" "keys (sel t) \<subseteq> keys (sel s) - set fds"
          "never_skips N K L \<longrightarrow> \<not> stop \<longrightarrow> set ?ks \<inter> ready \<inter> keys (sel t) \<subseteq> set cs"
          by (auto simp: keys_simps u(1))
        have "subseq (filter (\<lambda>k. k \<in> ready) ?ks) (filter (\<lambda>k. k \<in> ready) ks)"
          by (intro subseq_filter subseq_filter_left)
        with cs(2) have "subseq cs (filter (\<lambda>k. k \<in> ready) ks)"
          by (rule subseq_order.order_trans)
        with cs u(2) True Cons show ?thesis
          by (intro exI [of _ "k # cs"]) auto
      qed
    qed
  qed
qed

subsection \<open>What a loop does is what its callbacks do\<close>

text \<open>
  The contract between the loop and the owner of its callbacks: a relation that the owner's
  callbacks respect, and that does not look at the iterator and the cache of the loop, is
  respected by the whole loop.
\<close>

locale loop_client = guarded R I
  for R :: "('k, 'c, 'z) select_world_scheme \<Rightarrow> ('k, 'c, 'z) select_world_scheme \<Rightarrow> bool"
    and I :: "('k, 'c, 'z) select_world_scheme \<Rightarrow> bool" +
  fixes N :: nat and K :: "'k platform"
    and L :: "(('k, 'c, 'z) select_world_scheme, 'c) loop_callbacks"
  assumes upd_sel_ok:
      "(\<And>e. se_cbs (f e) = se_cbs e \<and> se_control_pipe (f e) = se_control_pipe e) \<Longrightarrow>
       pres R (upd_sel f)"
    and errno_ok: "pres R (set_errno n)"
    and select_ok: "pres R (sys_select K nfds fds)"
    and call_ok: "pres R (note_event (ECall fd))"
    and control_ok: "I s \<Longrightarrow> map_of (se_cbs (sel s)) fd = Some None \<Longrightarrow>
       read_retry N K fd 1 s = Ret r t \<Longrightarrow> R s t"
    and run_ok: "I s \<Longrightarrow> map_of (se_cbs (sel s)) fd = Some (Some c) \<Longrightarrow>
       hold I R (lc_run L c fd)"
    and interrupt_ok: "lc_interrupt L = Some g \<Longrightarrow> hold I R g"
    and error_ok: "lc_error L = Some h \<Longrightarrow> hold I R h"
begin

lemma hold_get_max_fd: "hold I R get_max_fd"
  unfolding get_max_fd_def Let_def
  by (rule hold_gets_bind hold_if hold_seq hold_simple hold_pres upd_sel_ok | simp)+

lemma hold_call_node: "hold I R (call_node N K L fd)"
proof (rule holdI)
  fix s r t
  assume I: "I s" and run: "call_node N K L fd s = Ret r t"
  then obtain cb where cb: "map_of (se_cbs (sel s)) fd = Some cb"
    and body: "(seq (note_event (ECall fd))
         (case cb of None \<Rightarrow> control_callback N K L fd | Some c \<Rightarrow> lc_run L c fd)) s = Ret r t"
    by (auto simp: call_node_def ret_iffs)
  let ?s = "s\<lparr>trace := ECall fd # trace s\<rparr>"
  have ss: "R s ?s"
    using presD [OF call_ok, of fd s "()" ?s] by (simp add: note_event_def prog_simps)
  with I have I': "I ?s" by (rule keeps)
  show "R s t"
  proof (cases cb)
    case None
    with body obtain q u where q: "read_retry N K fd 1 ?s = Ret q u"
      and rest: "(seq (assertion (case q of Inl _ \<Rightarrow> False | Inr _ \<Rightarrow> True))
         (case lc_interrupt L of Some f \<Rightarrow> f | None \<Rightarrow> ret NOTHING)) u = Ret r t"
      by (auto simp: control_callback_def note_event_def ret_iffs)
    have "map_of (se_cbs (sel ?s)) fd = Some None" using cb None by simp
    from control_ok [OF I' this q] have su: "R ?s u" .
    have "hold I R (case lc_interrupt L of Some f \<Rightarrow> f | None \<Rightarrow> ret NOTHING)"
      by (rule hold_option) (simp_all add: hold_simple interrupt_ok)
    then have "hold I R (seq (assertion (case q of Inl _ \<Rightarrow> False | Inr _ \<Rightarrow> True))
         (case lc_interrupt L of Some f \<Rightarrow> f | None \<Rightarrow> ret NOTHING))"
      by (rule hold_seq [OF hold_simple(6)])
    from holdD [OF this keeps [OF I' su] rest] ss su show ?thesis by (blast intro: R_trans)
  next
    case (Some c)
    with body have "lc_run L c fd ?s = Ret r t" by (auto simp: note_event_def ret_iffs)
    with run_ok [of s fd c] I I' cb Some have "R ?s t" by (auto dest: holdD)
    with ss show ?thesis by (rule R_trans)
  qed
qed

lemma hold_dispatch: "hold I R (dispatch N K L ready m)"
proof (induction m)
  case 0
  show ?case by (simp add: hold_simple)
next
  case (Suc m)
  have adv: "hold I R (seq (upd_sel advance_iterator) (dispatch N K L ready m))"
    by (intro hold_seq hold_pres upd_sel_ok Suc) (simp add: advance_iterator_def)
  have "hold I R (case r of STOP_LOOP \<Rightarrow> ret True | SKIP_OTHER_FD \<Rightarrow> ret False
      | NOTHING \<Rightarrow> seq (upd_sel advance_iterator) (dispatch N K L ready m))" for r
    by (cases r) (simp_all add: hold_simple adv)
  then show ?case
    using adv by (auto intro!: hold_gets_bind hold_option hold_if hold_simple
        hold_bind [OF hold_call_node])
qed

lemma hold_select_wait: "hold I R (select_wait m K L)"
proof (induction m)
  case 0
  show ?case by (simp add: hold_simple)
next
  case (Suc m)
  have "hold I R (case lc_error L of None \<Rightarrow> skip | Some f \<Rightarrow> f)"
    by (rule hold_option) (simp_all add: hold_simple error_ok)
  with Suc show ?case
    by (auto intro!: hold_gets_bind hold_if hold_simple hold_seq hold_pres [OF errno_ok]
        hold_bind [OF hold_get_max_fd] hold_bind [OF hold_pres [OF select_ok]] hold_sum)
qed

lemma hold_loop_rounds: "hold I R (loop_rounds N K L m)"
proof (induction m)
  case 0
  show ?case by (simp add: hold_simple)
next
  case (Suc m)
  have "hold I R (upd_sel (\<lambda>e. e\<lparr>se_iterator := first_node (se_cbs e)\<rparr>))"
    by (intro hold_pres upd_sel_ok) simp
  then show ?case
    using Suc
    by (auto intro!: hold_gets_bind hold_if hold_simple hold_seq hold_pres [OF errno_ok]
        hold_bind [OF hold_select_wait] hold_bind [OF hold_dispatch] hold_option)
qed

lemma hold_se_loop: "hold I R (se_loop N K L)"
  unfolding se_loop_def by (rule hold_loop_rounds)

end

subsection \<open>Sequences of requests\<close>

definition watch_op ::
  "'k platform \<Rightarrow> int + int \<times> 'c option \<Rightarrow> (('k, 'c, 'z) select_world_scheme, unit) prog" where
  "watch_op K op = (case op of
     Inl fd \<Rightarrow> se_remove_read_event fd | Inr (fd, cb) \<Rightarrow> se_add_read_event K fd cb)"

definition watch_event ::
  "'k platform \<Rightarrow> int + int \<times> 'c option \<Rightarrow> 'c select_event \<Rightarrow> 'c select_event" where
  "watch_event K = case_sum erase_event (\<lambda>(fd, cb). add_event K fd cb)"

lemma watch_op_run:
  "watch_op K op s = (case watch_spec [op] (se_lookup (sel s)) of
     None \<Rightarrow> End Aborted s | Some _ \<Rightarrow> Ret () (s\<lparr>sel := watch_event K op (sel s)\<rparr>))"
  by (cases op) (auto simp: watch_op_def watch_event_def se_remove_read_event_def
      se_add_read_event_def se_lookup_def add_event_def upd_sel_def prog_simps split: prod.splits)

lemma watch_spec_Cons:
  "watch_spec (op # ops) m = Option.bind (watch_spec [op] m) (watch_spec ops)"
  by (cases op) auto

lemma watch_event_lookup:
  assumes "se_wf e" and "watch_spec [op] (se_lookup e) = Some m"
  shows "se_wf (watch_event K op e)" "se_lookup (watch_event K op e) = m"
  using se.run_ops [OF assms, of K] by (simp_all add: watch_event_def)

lemma watch_ops_run:
  "se_wf (sel s) \<Longrightarrow> watch_spec ops (se_lookup (sel s)) = Some m \<Longrightarrow>
   block (map (watch_op K) ops) s = Ret () (s\<lparr>sel := fold (watch_event K) ops (sel s)\<rparr>)"
proof (induction ops arbitrary: s)
  case Nil
  then show ?case by (simp add: prog_simps)
next
  case (Cons op ops)
  then obtain m1 where m1: "watch_spec [op] (se_lookup (sel s)) = Some m1" "watch_spec ops m1 = Some m"
    by (auto simp: watch_spec_Cons [of op ops] bind_eq_Some_conv)
  let ?s = "s\<lparr>sel := watch_event K op (sel s)\<rparr>"
  have "block (map (watch_op K) ops) ?s = Ret () (?s\<lparr>sel := fold (watch_event K) ops (sel ?s)\<rparr>)"
    using Cons.prems(1) m1 watch_event_lookup [OF Cons.prems(1) m1(1), of K] by (intro Cons.IH) simp_all
  moreover have "watch_op K op s = Ret () ?s" using m1(1) by (simp add: watch_op_run)
  ultimately show ?case by (simp add: seq_def bind_def)
qed

lemma watch_ops_abort:
  "se_wf (sel s) \<Longrightarrow> watch_spec ops (se_lookup (sel s)) = None \<Longrightarrow>
   \<exists>t. block (map (watch_op K) ops) s = End Aborted t"
proof (induction ops arbitrary: s)
  case Nil
  then show ?case by simp
next
  case (Cons op ops)
  show ?case
  proof (cases "watch_spec [op] (se_lookup (sel s))")
    case None
    then have "watch_op K op s = End Aborted s" by (simp add: watch_op_run)
    then show ?thesis by (simp add: seq_def bind_def)
  next
    case (Some m1)
    let ?s = "s\<lparr>sel := watch_event K op (sel s)\<rparr>"
    have "watch_spec ops m1 = None" using Cons.prems(2) Some watch_spec_Cons [of op ops] by simp
    then have "\<exists>t. block (map (watch_op K) ops) ?s = End Aborted t"
      using watch_event_lookup [OF Cons.prems(1) Some, of K] by (intro Cons.IH) simp_all
    moreover have "watch_op K op s = Ret () ?s" using Some by (simp add: watch_op_run)
    ultimately show ?thesis by (simp add: seq_def bind_def)
  qed
qed

lemma se_lookup_dom: "dom (se_lookup e) = fst ` set (se_cbs e)"
proof -
  have "se_lookup e = map_of (se_cbs e)" by (rule ext) (simp add: se_lookup_def)
  then show ?thesis by (simp add: dom_map_of_conv_image_fst)
qed

lemma next_node_in: "next_node fd cbs = Some k \<Longrightarrow> distinct (map fst cbs) \<Longrightarrow> k \<noteq> fd \<and> k \<in> fst ` set cbs"
  by (induction cbs) (auto simp: first_node_def split: if_splits list.splits)

lemma watch_event_iterator:
  assumes "se_wf e" and op: "watch_spec [op] (se_lookup e) = Some m"
    and it: "\<forall>k. se_iterator e = Some k \<longrightarrow> k \<in> dom (se_lookup e)"
  shows "\<forall>k. se_iterator (watch_event K op e) = Some k \<longrightarrow> k \<in> dom (se_lookup (watch_event K op e))"
proof (cases op)
  case (Inl fd)
  have "se_iterator (erase_event fd e) =
      (if se_iterator e = Some fd then next_node fd (se_cbs e) else se_iterator e)"
    by (simp add: erase_event_def Let_def)
  moreover have "k \<in> dom (se_lookup e) - {fd}" if "next_node fd (se_cbs e) = Some k" for k
    using next_node_in [OF that] assms(1) by (simp add: se_wf_def se_lookup_dom)
  ultimately have "\<forall>k. se_iterator (erase_event fd e) = Some k \<longrightarrow> k \<in> dom (se_lookup e) - {fd}"
    using it by (auto split: if_splits)
  moreover have "se_lookup (watch_event K op e) = (se_lookup e)(fd := None)"
    using watch_event_lookup(2) [OF assms(1) op, of K] op Inl by (simp split: if_splits)
  ultimately show ?thesis using Inl by (simp add: watch_event_def)
next
  case (Inr p)
  obtain fd cb where p: "p = (fd, cb)" by (cases p)
  have "se_lookup (watch_event K op e) = (se_lookup e)(fd \<mapsto> cb)"
    using watch_event_lookup(2) [OF assms(1) op, of K] op Inr p by (simp split: if_splits)
  with it Inr p show ?thesis by (simp add: watch_event_def add_event_def)
qed

lemma watch_events_iterator:
  "se_wf e \<Longrightarrow> watch_spec ops (se_lookup e) = Some m \<Longrightarrow>
   \<forall>k. se_iterator e = Some k \<longrightarrow> k \<in> dom (se_lookup e) \<Longrightarrow>
   \<forall>k. se_iterator (fold (watch_event K) ops e) = Some k \<longrightarrow>
     k \<in> dom (se_lookup (fold (watch_event K) ops e))"
proof (induction ops arbitrary: e)
  case Nil
  then show ?case by simp
next
  case (Cons op ops)
  then obtain m1 where m1: "watch_spec [op] (se_lookup e) = Some m1" "watch_spec ops m1 = Some m"
    by (auto simp: watch_spec_Cons [of op ops] bind_eq_Some_conv)
  with Cons.IH [of "watch_event K op e"] watch_event_lookup [OF Cons.prems(1) m1(1), of K]
    watch_event_iterator [OF Cons.prems(1) m1(1) Cons.prems(3), of K]
  show ?case by simp
qed

lemma watch_events_recompute:
  "se_recompute_max_fds e \<Longrightarrow> se_recompute_max_fds (fold (watch_event K) ops e)"
  by (induction ops arbitrary: e)
     (auto simp: watch_event_def erase_event_def add_event_def Let_def split: sum.splits)

lemma select_wait_run:
  assumes "se_recompute_max_fds (sel t)"
  shows "select_wait (Suc n) K L t =
    (let fds = dom (se_lookup (sel t)) in
     if fds = {} then Ret (Some {}) t
     else let top = Max (insert (-1) fds) in
       bind (sys_select K (top + 1) fds) (\<lambda>r. case r of
           Inl err \<Rightarrow>
             if err \<noteq> EINTR
             then seq (case lc_error L of Some f \<Rightarrow> f | None \<Rightarrow> skip) (ret None)
             else select_wait n K L
         | Inr ready \<Rightarrow> ret (Some ready))
         (t\<lparr>errno := 0, sel := (sel t)\<lparr>se_max_fd := top\<rparr>\<rparr>))"
  using assms
  by (simp add: get_max_fd_def upd_sel_def set_errno_def foldl_max prog_simps Let_def se_lookup_dom)

subsection \<open>Properties\<close>

text \<open>
  Property C32. The registry of the event loop is the map its users think of. A
  sequence of calls of \<open>add_read_event\<close> and \<open>remove_read_event\<close>, in any order and also in the
  middle of a round (the iterator stands on a watched descriptor or at the end, and no
  insertion makes the hash map move its nodes), runs into an assertion exactly when it adds a
  descriptor that is watched or removes one that is not; else it changes nothing but the loop
  object, and afterwards the descriptors and callbacks are those of the map, the iterator does
  not dangle, and the next wait asks \<open>select\<close> for exactly the descriptors watched, with the
  largest plus one as the first argument, or does not call \<open>select\<close> when there is none.
  (\<open>recompute_max_fds\<close> is set in a new object, and the code never takes it back.)
\<close>

theorem watched_descriptors:
  fixes s :: "('k, 'c, 'z) select_world_scheme"
  assumes "se_wf (sel s)" and "se_recompute_max_fds (sel s)"
    and "\<forall>k. se_iterator (sel s) = Some k \<longrightarrow> k \<in> dom (se_lookup (sel s))"
  shows "case watch_spec ops (se_lookup (sel s)) of
      None \<Rightarrow> \<exists>t. block (map (watch_op K) ops) s = End Aborted t
    | Some m \<Rightarrow> \<exists>e. block (map (watch_op K) ops) s = Ret () (s\<lparr>sel := e\<rparr>) \<and> se_lookup e = m \<and>
        (\<forall>k. se_iterator e = Some k \<longrightarrow> k \<in> dom m) \<and>
        (\<forall>(t :: ('k, 'c, 'z) select_world_scheme) L n. sel t = e \<longrightarrow>
           select_wait (Suc n) K L t =
             (if dom m = {} then Ret (Some {}) t
              else let top = Max (insert (-1) (dom m)) in
                bind (sys_select K (top + 1) (dom m)) (\<lambda>r. case r of
                    Inl err \<Rightarrow>
                      if err \<noteq> EINTR
                      then seq (case lc_error L of Some f \<Rightarrow> f | None \<Rightarrow> skip) (ret None)
                      else select_wait n K L
                  | Inr ready \<Rightarrow> ret (Some ready))
                  (t\<lparr>errno := 0, sel := e\<lparr>se_max_fd := top\<rparr>\<rparr>)))"
proof (cases "watch_spec ops (se_lookup (sel s))")
  case None
  with watch_ops_abort [OF assms(1)] show ?thesis by simp
next
  case (Some m)
  let ?e = "fold (watch_event K) ops (sel s)"
  have l: "se_wf ?e" "se_lookup ?e = m"
    using se.run_ops [OF assms(1) Some, of K] by (simp_all add: watch_event_def)
  note run = watch_ops_run [OF assms(1) Some]
  have it: "\<forall>k. se_iterator ?e = Some k \<longrightarrow> k \<in> dom m"
    using watch_events_iterator [OF assms(1) Some assms(3), of K] l(2) by simp
  have "se_recompute_max_fds ?e" using assms(2) by (rule watch_events_recompute)
  with l(2) have "select_wait (Suc n) K L t = (if dom m = {} then Ret (Some {}) t
      else let top = Max (insert (-1) (dom m)) in
        bind (sys_select K (top + 1) (dom m)) (\<lambda>r. case r of
            Inl err \<Rightarrow>
              if err \<noteq> EINTR
              then seq (case lc_error L of Some f \<Rightarrow> f | None \<Rightarrow> skip) (ret None)
              else select_wait n K L
          | Inr ready \<Rightarrow> ret (Some ready))
          (t\<lparr>errno := 0, sel := ?e\<lparr>se_max_fd := top\<rparr>\<rparr>))"
    if "sel t = ?e" for t :: "('k, 'c, 'z) select_world_scheme" and L n
    using that select_wait_run [of t n K L] by (simp add: Let_def del: select_wait.simps)
  with run l(2) it Some show ?thesis by auto
qed

text \<open>The witness: in the middle of a round, 3 is being called and removed, 9 is added, 5 removed.\<close>

definition busy_world :: "(script, string) select_world" where
  "busy_world = \<lparr>kst = empty_script, errno = 0, trace = [],
     sigchld_blocking_pipe_signal = (-1, -1),
     sel = init_select_event\<lparr>se_cbs := [(3, None), (5, Some ''a''), (6, Some ''b'')],
       se_iterator := Some 3\<rparr>\<rparr>"

theorem watched_descriptors_witness:
  "\<exists>e. block (map (watch_op script_platform) [Inl 3, Inr (9, Some ''c''), Inl 5]) busy_world =
       Ret () (busy_world\<lparr>sel := e\<rparr>) \<and>
     se_lookup e = [6 \<mapsto> Some ''b'', 9 \<mapsto> Some ''c'']"
proof -
  have w: "se_wf (sel busy_world)" "se_recompute_max_fds (sel busy_world)"
    "\<forall>k. se_iterator (sel busy_world) = Some k \<longrightarrow> k \<in> dom (se_lookup (sel busy_world))"
    by (simp_all add: busy_world_def se_wf_def se_lookup_dom init_select_event_def)
  have "watch_spec [Inl 3, Inr (9, Some ''c''), Inl 5] (se_lookup (sel busy_world)) =
      Some [6 \<mapsto> Some ''b'', 9 \<mapsto> Some ''c'']"
    by (auto simp: busy_world_def se_lookup_def init_select_event_def fun_eq_iff)
  with watched_descriptors [OF w, of script_platform "[Inl 3, Inr (9, Some ''c''), Inl 5]"]
  show ?thesis by auto
qed

text \<open>
  Property C12. One round of the event loop, with callbacks that may remove any watched
  descriptors, their own and others already visited or still to come: the callbacks called
  are those of ready descriptors, each at most once, in the order of the map; and when no
  callback stops the loop or skips the rest, every ready descriptor that is still watched at
  the end of the round has been called. So moving the iterator on in
  \<open>remove_read_event\<close> neither repeats nor loses an event.
\<close>

theorem dispatch_round:
  assumes "removing_callbacks L" and "dispatch N K L ready m s = Ret stop t"
    and "se_wf (sel s)" and "se_iterator (sel s) = first_node (se_cbs (sel s))"
    and "\<not> se_iterator_deleted (sel s)"
  shows "\<exists>cs. calls_of (trace t) = calls_of (trace s) @ cs \<and> distinct cs \<and>
     subseq cs (filter (\<lambda>k. k \<in> ready) (map fst (se_cbs (sel s)))) \<and>
     (\<not> never_skips N K L \<or> stop \<or> keys (sel s) \<inter> ready \<inter> keys (sel t) \<subseteq> set cs)"
proof -
  let ?all = "map fst (se_cbs (sel s))"
  have "iterator_at (sel s) [] ?all"
    using assms(3,4) by (simp add: iterator_at_def se_wf_def first_node_head)
  from dispatch_calls [OF assms(1,2) this assms(5)] obtain cs where cs:
    "calls_of (trace t) = calls_of (trace s) @ cs"
    "subseq cs (filter (\<lambda>k. k \<in> ready) ?all)"
    "never_skips N K L \<longrightarrow> \<not> stop \<longrightarrow> set ?all \<inter> ready \<inter> keys (sel t) \<subseteq> set cs"
    by blast
  have "distinct (filter (\<lambda>k. k \<in> ready) ?all)"
    using assms(3) by (simp add: se_wf_def)
  with cs(2) have "distinct cs" by (auto simp: subseq_conv_nths intro: distinct_nthsI)
  with cs show ?thesis by (auto simp: keys_def)
qed

text \<open>The witness: the callback of descriptor 3 removes 3 and 4; 4 and 5 are ready too.\<close>

definition demo_callbacks :: "((script, unit, 'z) select_world_scheme, unit) loop_callbacks" where
  "demo_callbacks =
     \<lparr>lc_run = (\<lambda>c fd. seq (if fd = 3 then block [se_remove_read_event 3, se_remove_read_event 4]
                            else skip) (ret NOTHING)),
      lc_interrupt = None, lc_error = None\<rparr>"

definition demo_world :: "(script, unit) select_world" where
  "demo_world = \<lparr>kst = empty_script, errno = 0, trace = [],
     sigchld_blocking_pipe_signal = (-1, -1),
     sel = init_select_event\<lparr>se_cbs := [(3, Some ()), (4, Some ()), (5, Some ())],
       se_iterator := Some 3\<rparr>\<rparr>"

theorem dispatch_round_witness:
  "\<exists>t cs. dispatch 1 script_platform demo_callbacks {3, 4, 5} 5 demo_world = Ret False t \<and>
     calls_of (trace t) = cs \<and> distinct cs \<and> subseq cs [3, 4, 5]"
proof -
  let ?t = "demo_world\<lparr>trace := [ECall 5, ECall 3],
      sel := (sel demo_world)\<lparr>se_cbs := [(5, Some ())], se_iterator := None\<rparr>\<rparr>"
  have "removing_callbacks demo_callbacks"
    unfolding removing_callbacks_def demo_callbacks_def
    by (auto intro!: rm.pres_intros pres_removes_remove)
  moreover have run: "dispatch 1 script_platform demo_callbacks {3, 4, 5} 5 demo_world = Ret False ?t"
    by (simp add: numeral_eq_Suc prog_simps call_node_def demo_callbacks_def demo_world_def
        init_select_event_def note_event_def se_remove_read_event_def upd_sel_def erase_event_def
        erase_node_def first_node_def advance_iterator_def Let_def)
  moreover have "se_wf (sel demo_world)" "\<not> se_iterator_deleted (sel demo_world)"
    "se_iterator (sel demo_world) = first_node (se_cbs (sel demo_world))"
    by (simp_all add: demo_world_def se_wf_def init_select_event_def first_node_def)
  ultimately obtain cs where "calls_of (trace ?t) = calls_of (trace demo_world) @ cs"
    "distinct cs" "subseq cs (filter (\<lambda>k. k \<in> {3, 4, 5}) (map fst (se_cbs (sel demo_world))))"
    using dispatch_round [of demo_callbacks 1 script_platform "{3, 4, 5}" 5 demo_world False ?t]
    by blast
  with run show ?thesis by (auto simp: demo_world_def)
qed

end
