(* ===== verification/Sigchld_Handler.thy ===== *)
theory Sigchld_Handler
  imports Select_Event
begin

section \<open>The SIGCHLD handler of the multi process mode (signal/sigchld_handler.h, .cpp)\<close>

text \<open>
  The handler for SIGCHLD writes the signal number to a global pipe; \<open>sigchld_handler\<close>
  owns the pipe and the disposition of the signal, and when the event loop finds the pipe
  readable it reaps every child that has changed state. The globals of the file and the
  fields of the handler object are parts of the state; the callbacks \<open>on_signal\<close> and
  \<open>on_error\<close> are arguments. \<open>m\<close> and \<open>N\<close> bound the reads and the
  reaping loop.
  The lemmas show that installing and removing the handler restores the disposition and
  leaves no descriptor open, and that every reaped child is reported once, in order.
\<close>

record ('k, 'c) sigchld_world = "('k, 'c) select_world" +
  sigchld_sa_prev :: sig_handler
  sigchld_pipe_signal :: "int \<times> int"
  sigchld_active :: bool
  sh_err :: error
  sh_signal_set :: "int set"

record 's sigchld_callbacks =
  sc_signal :: "(int \<Rightarrow> 32 word \<Rightarrow> ('s, unit) prog) option"
  sc_error :: "(error \<Rightarrow> ('s, unit) prog) option"

definition no_callbacks :: "'s sigchld_callbacks" where
  "no_callbacks = \<lparr>sc_signal = None, sc_error = None\<rparr>"

subsection \<open>Global functions\<close>

definition sigchld_signal_handler ::
  "'k platform \<Rightarrow> int \<Rightarrow> (('k, 'c, 'z) sigchld_world_scheme, unit) prog" where
  "sigchld_signal_handler K sig =
     bind (gets sigchld_pipe_signal) (\<lambda>p.
     bind (sys_write K (snd p) (int_bytes sig)) (\<lambda>_. skip))"

definition sigchld_set_signal_handler ::
  "'k platform \<Rightarrow> (('k, 'c, 'z) sigchld_world_scheme, bool) prog" where
  "sigchld_set_signal_handler K =
     bind (sys_pipe2 K (O_CLOEXEC OR O_NONBLOCK)) (\<lambda>r. case r of
       Inl _ \<Rightarrow> ret False
     | Inr p \<Rightarrow>
         seq (upd (\<lambda>s. s\<lparr>sigchld_pipe_signal := p\<rparr>))
         (bind (sys_sigaction K MULTI_HANDLER) (\<lambda>r. case r of
            Inl _ \<Rightarrow> bind (close_pipe K p) (\<lambda>p.
                     seq (upd (\<lambda>s. s\<lparr>sigchld_pipe_signal := p\<rparr>)) (ret False))
          | Inr prev \<Rightarrow> seq (upd (\<lambda>s. s\<lparr>sigchld_sa_prev := prev, sigchld_active := True\<rparr>))
                         (ret True))))"

definition sigchld_reset_signal_handler ::
  "'k platform \<Rightarrow> (('k, 'c, 'z) sigchld_world_scheme, bool) prog" where
  "sigchld_reset_signal_handler K =
     bind (gets sigchld_active) (\<lambda>active.
       if \<not> active then ret False
       else bind (gets sigchld_sa_prev) (\<lambda>prev.
         bind (sys_sigaction K prev) (\<lambda>r. case r of
           Inl _ \<Rightarrow> ret False
         | Inr _ \<Rightarrow>
             bind (gets sigchld_pipe_signal) (\<lambda>p.
             bind (close_pipe K p) (\<lambda>p.
             seq (upd (\<lambda>s. s\<lparr>sigchld_pipe_signal := p, sigchld_active := False\<rparr>))
                 (ret True))))))"

definition sigchld_get_signal_fd :: "(('k, 'c, 'z) sigchld_world_scheme, int) prog" where
  "sigchld_get_signal_fd = gets (\<lambda>s. fst (sigchld_pipe_signal s))"

subsection \<open>The handler object\<close>

definition sh_process_error ::
  "('k, 'c, 'z) sigchld_world_scheme sigchld_callbacks \<Rightarrow> error \<Rightarrow>
   (('k, 'c, 'z) sigchld_world_scheme, unit) prog" where
  "sh_process_error C err =
     seq (upd (\<lambda>s. s\<lparr>sh_err := err\<rparr>))
         (case sc_error C of None \<Rightarrow> skip | Some f \<Rightarrow> f err)"

definition sh_prepare_signal_set :: "(('k, 'c, 'z) sigchld_world_scheme, unit) prog" where
  "sh_prepare_signal_set =
     block [upd (\<lambda>s. s\<lparr>sh_signal_set := {}\<rparr>),
            upd (\<lambda>s. s\<lparr>sh_signal_set := insert SIGCHLD (sh_signal_set s)\<rparr>)]"

definition sh_block_sigchld where
  "sh_block_sigchld K C =
     bind (gets sh_signal_set) (\<lambda>set.
     bind (sys_sigprocmask K SIG_BLOCK set) (\<lambda>r. case r of
       Inl _ \<Rightarrow> sh_process_error C SIG_BLOCK_ERROR | Inr _ \<Rightarrow> skip))"

definition sh_unblock_sigchld where
  "sh_unblock_sigchld K C =
     bind (gets sh_signal_set) (\<lambda>set.
     bind (sys_sigprocmask K SIG_UNBLOCK set) (\<lambda>r. case r of
       Inl _ \<Rightarrow> sh_process_error C SIG_UNBLOCK_ERROR | Inr _ \<Rightarrow> skip))"

definition sh_construct :: "'k platform \<Rightarrow> (('k, 'c, 'z) sigchld_world_scheme, unit) prog" where
  "sh_construct K =
     block [upd (\<lambda>s. s\<lparr>sh_err := NO_ERROR, sh_signal_set := {}\<rparr>),
            sh_prepare_signal_set,
            bind (sigchld_set_signal_handler K) (\<lambda>ok.
              onlyif (\<not> ok) (sh_process_error no_callbacks SIGACTION_SET_ERROR))]"

definition sh_destruct where
  "sh_destruct K C =
     bind (sigchld_reset_signal_handler K) (\<lambda>ok.
       onlyif (\<not> ok) (sh_process_error C SIGACTION_RESET_ERROR))"

text \<open>
  The \<open>do ... while(true)\<close> of \<open>handle_sigchld\<close>. \<open>waitpid(0, ..., WNOHANG)\<close> answers with
  the process and its status, with process 0 when no child has changed state, or fails.
\<close>

fun reap_loop ::
  "nat \<Rightarrow> 'k platform \<Rightarrow> ('k, 'c, 'z) sigchld_world_scheme sigchld_callbacks \<Rightarrow>
   (('k, 'c, 'z) sigchld_world_scheme, unit) prog" where
  "reap_loop 0 K C = spin"
| "reap_loop (Suc m) K C =
     seq (set_errno 0)
     (bind (sys_waitpid K 0) (\<lambda>r. case r of
        Inl e \<Rightarrow>
          if e = ECHILD then skip
          else if e = EINTR then reap_loop m K C
          else sh_process_error C WAITPID_ERROR
      | Inr (pid, status) \<Rightarrow>
          if pid = 0 then skip
          else seq (case sc_signal C of None \<Rightarrow> skip | Some cb \<Rightarrow> cb pid status)
                   (reap_loop m K C)))"

definition sh_handle_sigchld where
  "sh_handle_sigchld N K C =
     seq (sh_block_sigchld K C)
     (bind (gets errno) (\<lambda>save_errno.
      block [reap_loop N K C, set_errno save_errno, sh_unblock_sigchld K C]))"

text \<open>
  Reading the \<open>int\<close> from the pipe, in as many parts as the kernel hands out; \<open>got\<close> are the
  bytes stored so far. The loop is left early by an error other than EINTR.
\<close>

fun read_signal_bytes ::
  "nat \<Rightarrow> 'k platform \<Rightarrow> int \<Rightarrow> string \<Rightarrow> (('k, 'z) world_scheme, string) prog" where
  "read_signal_bytes 0 K fd got = spin"
| "read_signal_bytes (Suc m) K fd got =
     bind (sys_read K fd (4 - length got)) (\<lambda>r. case r of
       Inl e \<Rightarrow> if e = EINTR then read_signal_bytes m K fd got else ret got
     | Inr d \<Rightarrow>
         if length (got @ d) \<noteq> 4 then read_signal_bytes m K fd (got @ d) else ret (got @ d))"

definition sh_read_signal where
  "sh_read_signal N K C =
     bind (gets (\<lambda>s. fst (sigchld_pipe_signal s))) (\<lambda>fd.
     bind (read_signal_bytes N K fd []) (\<lambda>got.
       if length got \<noteq> 4 then ret STOP_LOOP
       else if bytes_int got = SIGCHLD then seq (sh_handle_sigchld N K C) (ret NOTHING)
       else ret NOTHING))"

definition sh_get_read_fd :: "(('k, 'c, 'z) sigchld_world_scheme, int) prog" where
  "sh_get_read_fd = sigchld_get_signal_fd"

definition sh_valid :: "('k, 'c, 'z) sigchld_world_scheme \<Rightarrow> bool" where
  "sh_valid s \<longleftrightarrow> sh_err s = NO_ERROR"

definition sh_last_error :: "('k, 'c, 'z) sigchld_world_scheme \<Rightarrow> error" where
  "sh_last_error s = sh_err s"

subsection \<open>Facts\<close>

lemma more_sigchld:
  fixes s t :: "('k, 'c, 'z) sigchld_world_scheme"
  shows "world.more t = world.more s \<Longrightarrow>
    sigchld_sa_prev t = sigchld_sa_prev s \<and> sigchld_pipe_signal t = sigchld_pipe_signal s \<and>
    sigchld_active t = sigchld_active s \<and> sh_err t = sh_err s \<and>
    sh_signal_set t = sh_signal_set s \<and> sel t = sel s \<and>
    sigchld_blocking_pipe_signal t = sigchld_blocking_pipe_signal s \<and>
    sigchld_world.more t = sigchld_world.more s"
  by (cases s; cases t) simp

text \<open>The pipe a successful \<open>pipe2\<close> creates in a trace.\<close>

lemma sys_pipe2_Ret:
  "sys_pipe2 K flags s = Ret r t \<Longrightarrow>
   world.more t = world.more s \<and>
   (case r of Inl e \<Rightarrow> trace t = trace s | Inr (a, b) \<Rightarrow> trace t = EPipe a b # trace s)"
  by (auto simp: sys_pipe2_def ret_iffs)

lemma sys_sigaction_Ret:
  "sys_sigaction K h s = Ret r t \<Longrightarrow>
   world.more t = world.more s \<and>
   (case r of Inl e \<Rightarrow> trace t = trace s | Inr old \<Rightarrow> trace t = ESigaction h # trace s)"
  by (auto simp: sys_sigaction_def ret_iffs)

text \<open>Installing the handler.\<close>

lemma set_signal_handler_Ret:
  assumes "sigchld_set_signal_handler K s = Ret ok t"
  shows "if ok
     then (\<exists>a b k. k_pipe2 K (O_CLOEXEC OR O_NONBLOCK) (kst s) = (Inr (a, b), k) \<and>
            k_sigaction K MULTI_HANDLER k = (Inr (sigchld_sa_prev t), kst t) \<and>
            sigchld_pipe_signal t = (a, b) \<and> sigchld_active t \<and>
            trace t = [ESigaction MULTI_HANDLER, EPipe a b] @ trace s)
     else sigchld_active t = sigchld_active s \<and> sigchld_sa_prev t = sigchld_sa_prev s \<and>
       (trace t = trace s \<and> sigchld_pipe_signal t = sigchld_pipe_signal s \<or>
        (\<exists>a b. trace t = close_events (a, b) @ EPipe a b # trace s \<and>
           sigchld_pipe_signal t = (closed_fd a, closed_fd b)))" (is ?main)
    and "sh_err t = sh_err s"
proof -
  from assms obtain r u where p: "sys_pipe2 K (O_CLOEXEC OR O_NONBLOCK) s = Ret r u"
    by (auto simp: sigchld_set_signal_handler_def ret_iffs)
  note u = sys_pipe2_Ret [OF p]
  have "?main \<and> sh_err t = sh_err s" (is ?all)
  proof (cases r)
    case (Inl e)
    with assms p u show ?all
      by (auto simp: sigchld_set_signal_handler_def ret_iffs dest: more_sigchld)
  next
    case (Inr ab)
    let ?u = "u\<lparr>sigchld_pipe_signal := ab\<rparr>"
    from Inr assms p obtain q v where sa: "sys_sigaction K MULTI_HANDLER ?u = Ret q v"
      and rest: "(case q of Inl _ \<Rightarrow> bind (close_pipe K ab) (\<lambda>p.
                     seq (upd (\<lambda>s. s\<lparr>sigchld_pipe_signal := p\<rparr>)) (ret False))
          | Inr prev \<Rightarrow> seq (upd (\<lambda>s. s\<lparr>sigchld_sa_prev := prev, sigchld_active := True\<rparr>))
                         (ret True)) v = Ret ok t"
      by (auto simp: sigchld_set_signal_handler_def ret_iffs)
    have v: "world.more v = world.more ?u" using sys_sigaction_Ret [OF sa] by blast
    show ?all
    proof (cases q)
      case (Inl e)
      with rest obtain p' w where c: "close_pipe K ab v = Ret p' w"
        and t: "t = w\<lparr>sigchld_pipe_signal := p'\<rparr>" "\<not> ok"
        by (auto simp: ret_iffs)
      show ?all
        using close_pipe_Ret [OF c] t u Inr sys_sigaction_Ret [OF sa] Inl
          more_sigchld [OF v] more_sigchld [of w v] more_sigchld [of u s]
        by (cases ab) auto
    next
      case (Inr prev)
      with rest have t: "t = v\<lparr>sigchld_sa_prev := prev, sigchld_active := True\<rparr>" "ok"
        by (auto simp: ret_iffs)
      from sa Inr have "k_sigaction K MULTI_HANDLER (kst u) = (Inr prev, kst v)"
        by (auto simp: sys_sigaction_def ret_iffs)
      moreover from p \<open>r = Inr ab\<close>
      have "k_pipe2 K (O_CLOEXEC OR O_NONBLOCK) (kst s) = (Inr ab, kst u)"
        by (auto simp: sys_pipe2_def ret_iffs)
      ultimately show ?all
        using t u \<open>r = Inr ab\<close> sys_sigaction_Ret [OF sa] Inr more_sigchld [OF v]
          more_sigchld [of u s]
        by (cases ab) auto
    qed
  qed
then show ?main and "sh_err t = sh_err s" by auto
qed

text \<open>The destructor: the handler was active and \<open>sigaction\<close> accepts, it refuses, or it was not active.\<close>

lemma destruct_restores:
  assumes act: "sigchld_active s" and ok: "k_sigaction K (sigchld_sa_prev s) (kst s) = (Inr old, k)"
  shows "\<exists>t. sh_destruct K C s = Ret () t \<and> \<not> sigchld_active t \<and> sh_err t = sh_err s \<and>
    sigchld_pipe_signal t =
      (closed_fd (fst (sigchld_pipe_signal s)), closed_fd (snd (sigchld_pipe_signal s))) \<and>
    trace t = close_events (sigchld_pipe_signal s) @ ESigaction (sigchld_sa_prev s) # trace s"
proof -
  let ?p = "sigchld_pipe_signal s"
  let ?u = "s\<lparr>kst := k, trace := ESigaction (sigchld_sa_prev s) # trace s\<rparr>"
  obtain v where c: "close_pipe K ?p ?u = Ret (closed_fd (fst ?p), closed_fd (snd ?p)) v"
    using close_pipe_returns by blast
  have "sys_sigaction K (sigchld_sa_prev s) s = Ret (Inr old) ?u"
    using ok by (simp add: sys_sigaction_def syscall_def)
  with act c have "sh_destruct K C s = Ret () (v\<lparr>sigchld_pipe_signal :=
      (closed_fd (fst ?p), closed_fd (snd ?p)), sigchld_active := False\<rparr>)"
    by (simp add: sh_destruct_def sigchld_reset_signal_handler_def prog_simps)
  with close_pipe_Ret [OF c] more_sigchld [of v ?u] show ?thesis by simp
qed

lemma destruct_fails:
  assumes act: "sigchld_active s" and bad: "k_sigaction K (sigchld_sa_prev s) (kst s) = (Inl e, k)"
  shows "sh_destruct K C s = sh_process_error C SIGACTION_RESET_ERROR (s\<lparr>kst := k, errno := e\<rparr>)"
  using assms
  by (simp add: sh_destruct_def sigchld_reset_signal_handler_def sys_sigaction_def syscall_def prog_simps)

lemma destruct_inactive:
  "\<not> sigchld_active s \<Longrightarrow> sh_destruct K C s = sh_process_error C SIGACTION_RESET_ERROR s"
  by (simp add: sh_destruct_def sigchld_reset_signal_handler_def prog_simps)

text \<open>The kernel's answers to a run of \<open>waitpid\<close> calls: \<open>None\<close> is an EINTR.\<close>

fun wait_chain ::
  "'k platform \<Rightarrow> 'k \<Rightarrow> (int \<times> 32 word) option list \<Rightarrow> 'k \<Rightarrow> bool" where
  "wait_chain K k [] k' \<longleftrightarrow>
     (\<exists>st. k_waitpid K 0 k = (Inr (0, st), k')) \<or> k_waitpid K 0 k = (Inl ECHILD, k')"
| "wait_chain K k (None # ws) k' \<longleftrightarrow>
     (\<exists>k1. k_waitpid K 0 k = (Inl EINTR, k1) \<and> wait_chain K k1 ws k')"
| "wait_chain K k (Some (pid, st) # ws) k' \<longleftrightarrow>
     (\<exists>k1. k_waitpid K 0 k = (Inr (pid, st), k1) \<and> pid \<noteq> 0 \<and> wait_chain K k1 ws k')"

definition children :: "'x option list \<Rightarrow> 'x list" where
  "children ws = map the (filter (\<lambda>w. w \<noteq> None) ws)"

lemma children_simps [simp]:
  "children [] = []" "children (None # ws) = children ws"
  "children (Some x # ws) = x # children ws"
  by (simp_all add: children_def)

definition keeps_client ::
  "(int \<Rightarrow> 32 word \<Rightarrow> 'z \<Rightarrow> 'z) \<Rightarrow> ('k, 'c, 'z) sigchld_world_scheme sigchld_callbacks" where
  "keeps_client g = \<lparr>sc_signal = Some (\<lambda>pid st. upd (sigchld_world.more_update (g pid st))),
     sc_error = None\<rparr>"

text \<open>The kernel's answers to a run of \<open>read\<close> calls that want \<open>n\<close> bytes in all.\<close>

fun serves :: "'k platform \<Rightarrow> int \<Rightarrow> nat \<Rightarrow> 'k \<Rightarrow> string option list \<Rightarrow> bool" where
  "serves K fd n k [] \<longleftrightarrow> n = 0"
| "serves K fd n k (None # as) \<longleftrightarrow>
     (\<exists>k'. n \<noteq> 0 \<and> k_read K fd n k = (Inl EINTR, k') \<and> serves K fd n k' as)"
| "serves K fd n k (Some d # as) \<longleftrightarrow>
     (\<exists>k'. n \<noteq> 0 \<and> k_read K fd n k = (Inr d, k') \<and> length d \<le> n \<and>
        serves K fd (n - length d) k' as)"

lemma read_signal_bytes_serves:
  "serves K fd (4 - length got) (kst s) as \<Longrightarrow> length got < 4 \<Longrightarrow> length as \<le> N \<Longrightarrow>
   \<exists>t. read_signal_bytes N K fd got s = Ret (got @ concat (children as)) t \<and>
     length (got @ concat (children as)) = 4"
proof (induction as arbitrary: N got s)
  case Nil
  then show ?case by simp
next
  case (Cons a as)
  then obtain M where N: "N = Suc M" "length as \<le> M" by (cases N) auto
  show ?case
  proof (cases a)
    case None
    with Cons.prems obtain k' where k: "k_read K fd (4 - length got) (kst s) = (Inl EINTR, k')"
      "serves K fd (4 - length got) k' as" by auto
    with Cons.IH [of got "s\<lparr>kst := k', errno := EINTR\<rparr>" M] Cons.prems N None
    show ?thesis by (simp add: prog_simps sys_read_def syscall_def)
  next
    case (Some d)
    with Cons.prems obtain k' where k: "k_read K fd (4 - length got) (kst s) = (Inr d, k')"
      "length d \<le> 4 - length got" "serves K fd (4 - length (got @ d)) k' as" by auto
    show ?thesis
    proof (cases "length (got @ d) = 4")
      case True
      with k(3) have "as = []" by (cases as) (auto elim: serves.elims)
      with True k Some N show ?thesis by (simp add: prog_simps sys_read_def syscall_def)
    next
      case False
      with k Cons.IH [of "got @ d" "s\<lparr>kst := k', trace := ERead fd d # trace s\<rparr>" M]
        Cons.prems N Some
      show ?thesis by (auto simp: prog_simps sys_read_def syscall_def)
    qed
  qed
qed

subsection \<open>Properties\<close>

text \<open>
  Property C19. The life of the handler object, when no other one is active. When the constructor made its pipe and
  \<open>sigaction\<close> accepted the handler, the object is valid and the globals hold that pipe and
  the disposition \<open>sigaction\<close> answered with. In every later state that still has these globals the
  destructor puts exactly that disposition back and then closes both ends of that pipe, and
  leaves the handler not active; only if \<open>sigaction\<close> refuses does it close nothing, keep the
  globals, and report SIGACTION_RESET_ERROR. When the constructor fails (no pipe, or
  \<open>sigaction\<close> refused), the error is SIGACTION_SET_ERROR, the handler is not active, no
  descriptor stays open, and destroying the object reports SIGACTION_RESET_ERROR, once more.
\<close>

theorem sigchld_handler_life:
  fixes s :: "('k, 'c, 'z) sigchld_world_scheme"
  assumes "sh_construct K s = Ret () u" and "\<not> sigchld_active s" and "fresh_pipes (trace u)"
  shows "if sh_valid u
     then (\<exists>a b k prev. k_pipe2 K (O_CLOEXEC OR O_NONBLOCK) (kst s) = (Inr (a, b), k) \<and>
       k_sigaction K MULTI_HANDLER k = (Inr prev, kst u) \<and>
       trace u = [ESigaction MULTI_HANDLER, EPipe a b] @ trace s \<and>
       sigchld_sa_prev u = prev \<and> sigchld_pipe_signal u = (a, b) \<and> sigchld_active u \<and>
       (\<forall>(v :: ('k, 'c, 'z) sigchld_world_scheme) C.
          sigchld_sa_prev v = prev \<and> sigchld_pipe_signal v = (a, b) \<and> sigchld_active v \<longrightarrow>
          (case k_sigaction K prev (kst v) of
             (Inr _, _) \<Rightarrow> (\<exists>t. sh_destruct K C v = Ret () t \<and>
                trace t = [EClose b, EClose a, ESigaction prev] @ trace v \<and>
                \<not> sigchld_active t \<and> sigchld_pipe_signal t = (-1, -1) \<and> sh_err t = sh_err v)
           | (Inl e, k) \<Rightarrow> sh_destruct K C v =
                sh_process_error C SIGACTION_RESET_ERROR (v\<lparr>kst := k, errno := e\<rparr>))))
     else sh_last_error u = SIGACTION_SET_ERROR \<and> \<not> sigchld_active u \<and>
       open_fds (trace u) = open_fds (trace s) \<and>
       (\<forall>C. sh_destruct K C u = sh_process_error C SIGACTION_RESET_ERROR u)"
proof -
  from assms(1) obtain ok s' where
    set_h: "sigchld_set_signal_handler K
      (s\<lparr>sh_err := NO_ERROR, sh_signal_set := {SIGCHLD}\<rparr>) = Ret ok s'"
    and onfail: "onlyif (\<not> ok) (sh_process_error no_callbacks SIGACTION_SET_ERROR) s' = Ret () u"
    by (auto simp: sh_construct_def sh_prepare_signal_set_def ret_iffs)
  then have u: "u = (if ok then s' else s'\<lparr>sh_err := SIGACTION_SET_ERROR\<rparr>)"
    by (auto simp: ret_iffs sh_process_error_def no_callbacks_def split: if_splits)
  have err: "sh_err s' = NO_ERROR" using set_signal_handler_Ret(2) [OF set_h] by simp
  note h = set_signal_handler_Ret(1) [OF set_h]
  show ?thesis
  proof (cases ok)
    case True
    with h obtain a b k where
      k: "k_pipe2 K (O_CLOEXEC OR O_NONBLOCK) (kst s) = (Inr (a, b), k)"
        "k_sigaction K MULTI_HANDLER k = (Inr (sigchld_sa_prev u), kst u)"
      and g: "sigchld_pipe_signal u = (a, b)" "sigchld_active u"
      and tr: "trace u = [ESigaction MULTI_HANDLER, EPipe a b] @ trace s"
      using u by auto
    have ab: "0 \<le> a" "0 \<le> b" using assms(3) tr by auto
    have run: "case k_sigaction K (sigchld_sa_prev u) (kst v) of
        (Inr _, _) \<Rightarrow> (\<exists>t. sh_destruct K C v = Ret () t \<and>
           trace t = [EClose b, EClose a, ESigaction (sigchld_sa_prev u)] @ trace v \<and>
           \<not> sigchld_active t \<and> sigchld_pipe_signal t = (-1, -1) \<and> sh_err t = sh_err v)
      | (Inl e, k) \<Rightarrow> sh_destruct K C v =
           sh_process_error C SIGACTION_RESET_ERROR (v\<lparr>kst := k, errno := e\<rparr>)"
      if v: "sigchld_sa_prev v = sigchld_sa_prev u \<and> sigchld_pipe_signal v = (a, b) \<and> sigchld_active v"
      for v :: "('k, 'c, 'z) sigchld_world_scheme" and C
    proof (cases "k_sigaction K (sigchld_sa_prev u) (kst v)")
      case (Pair r k)
      show ?thesis
      proof (cases r)
        case (Inl e)
        with Pair v destruct_fails [of v K e k C] show ?thesis by simp
      next
        case (Inr old)
        with Pair v destruct_restores [of v K old k C] ab show ?thesis
          by (auto simp: close_events_def closed_fd_def)
      qed
    qed
    have valid: "sh_valid u" using err True u by (simp add: sh_valid_def)
    show ?thesis
      unfolding if_P [OF valid]
      by (intro exI conjI; (rule k g tr refl | (intro allI impI, rule run, assumption)))
  next
    case False
    with u assms(3) have "fresh_pipes (trace s')" by simp
    with False h have "open_fds (trace s') = open_fds (trace s)"
      by (auto simp: open_fds_close_events close_events_def split: if_splits)
    moreover have "\<not> sigchld_active u" using False h u assms(2) by simp
    ultimately show ?thesis
      using False u by (auto simp: sh_valid_def sh_last_error_def destruct_inactive)
  qed
qed

text \<open>The world the witnesses start in.\<close>

definition demo_sigchld :: "script \<Rightarrow> (script, unit, nat list) sigchld_world_scheme" where
  "demo_sigchld sc = \<lparr>kst = sc, errno = 0, trace = [], sigchld_blocking_pipe_signal = (-1, -1),
     sel = init_select_event, sigchld_sa_prev = SIG_DFL, sigchld_pipe_signal = (-1, -1),
     sigchld_active = False, sh_err = NO_ERROR, sh_signal_set = {}, \<dots> = []\<rparr>"

definition demo_life :: "(script, unit, nat list) sigchld_world_scheme" where
  "demo_life = demo_sigchld
     (empty_script\<lparr>sc_pipes := 1, sc_sigaction := [Inr (FOREIGN_HANDLER 7), Inr SIG_DFL]\<rparr>)"

theorem sigchld_handler_life_witness:
  "\<exists>u t. sh_construct script_platform demo_life = Ret () u \<and> sh_valid u \<and>
     sh_destruct script_platform no_callbacks u = Ret () t \<and>
     trace t = [EClose 4, EClose 3, ESigaction (FOREIGN_HANDLER 7), ESigaction MULTI_HANDLER, EPipe 3 4] \<and>
     \<not> sigchld_active t"
proof -
  obtain u where u: "sh_construct script_platform demo_life = Ret () u" "sh_valid u"
    "fresh_pipes (trace u)" "sigchld_sa_prev u = FOREIGN_HANDLER 7" "sigchld_pipe_signal u = (3, 4)"
    "sigchld_active u" "trace u = [ESigaction MULTI_HANDLER, EPipe 3 4]"
    "\<exists>old k. k_sigaction script_platform (FOREIGN_HANDLER 7) (kst u) = (Inr old, k)"
    by (simp add: sh_construct_def sh_prepare_signal_set_def sigchld_set_signal_handler_def
        prog_simps sys_defs syscall_def demo_life_def demo_sigchld_def empty_script_def sh_valid_def)
  have s: "\<not> sigchld_active demo_life"
    by (simp add: demo_life_def demo_sigchld_def)
  obtain old k where "k_sigaction script_platform (FOREIGN_HANDLER 7) (kst u) = (Inr old, k)"
    using u(8) by blast
  moreover from sigchld_handler_life [OF u(1) s u(3), unfolded if_P [OF u(2)]] obtain a b prev where
    g: "sigchld_sa_prev u = prev \<and> sigchld_pipe_signal u = (a, b) \<and> sigchld_active u"
    and "\<forall>(v :: (script, unit, nat list) sigchld_world_scheme) C. sigchld_sa_prev v = prev \<and> sigchld_pipe_signal v = (a, b) \<and> sigchld_active v \<longrightarrow>
      (case k_sigaction script_platform prev (kst v) of
         (Inr _, _) \<Rightarrow> (\<exists>t. sh_destruct script_platform C v = Ret () t \<and>
            trace t = [EClose b, EClose a, ESigaction prev] @ trace v \<and>
            \<not> sigchld_active t \<and> sigchld_pipe_signal t = (-1, -1) \<and> sh_err t = sh_err v)
       | (Inl e, k) \<Rightarrow> sh_destruct script_platform C v =
            sh_process_error C SIGACTION_RESET_ERROR (v\<lparr>kst := k, errno := e\<rparr>))"
    by blast
  note mp [OF spec [OF spec [OF this(2)]] g, of no_callbacks]
  ultimately show ?thesis using u g by auto
qed

text \<open>
  Property C18. Every child that changed state is reaped and reported: whatever sequence of
  children and EINTR failures \<open>waitpid\<close> answers with before it says that there is no more,
  the loop ends (one step more than the length of the sequence is enough), and the signal
  callback has been called once per child, in order, with the child's process id and status.
\<close>

theorem reap_loop_reports_all:
  assumes "wait_chain K (kst s) ws k'" and "length ws < N"
  shows "\<exists>t. reap_loop N K (keeps_client g) s = Ret () t \<and> kst t = k' \<and>
     sigchld_world.more t = fold (\<lambda>(pid, st). g pid st) (children ws) (sigchld_world.more s)"
  using assms
proof (induction ws arbitrary: s N)
  case Nil
  then obtain M where "N = Suc M" by (cases N) auto
  with Nil.prems show ?case
    by (auto simp: prog_simps sys_waitpid_def syscall_def set_errno_def)
next
  case (Cons w ws)
  then obtain M where N: "N = Suc M" "length ws < M" by (cases N) auto
  show ?case
  proof (cases w)
    case None
    with Cons.prems obtain k1 where "k_waitpid K 0 (kst s) = (Inl EINTR, k1)"
      "wait_chain K k1 ws k'" by auto
    with Cons.IH [of "s\<lparr>kst := k1, errno := EINTR\<rparr>" M] N None show ?thesis
      by (simp add: prog_simps sys_waitpid_def syscall_def set_errno_def)
  next
    case (Some p)
    obtain pid st where p: "p = (pid, st)" by (cases p)
    with Some Cons.prems obtain k1 where "k_waitpid K 0 (kst s) = (Inr (pid, st), k1)"
      "pid \<noteq> 0" "wait_chain K k1 ws k'" by auto
    with Cons.IH [of "sigchld_world.more_update (g pid st)
        (s\<lparr>errno := 0, kst := k1, trace := EWait pid st # trace s\<rparr>)" M] N Some p
    show ?thesis
      by (simp add: prog_simps sys_waitpid_def syscall_def set_errno_def keeps_client_def)
  qed
qed

theorem reap_loop_reports_all_witness:
  "\<exists>t. reap_loop 4 script_platform (keeps_client (\<lambda>pid st l. l @ [nat pid]))
       (demo_sigchld (empty_script\<lparr>sc_waitpid := [Inr (11, 0), Inl EINTR, Inr (12, 9)]\<rparr>)) =
     Ret () t \<and> sigchld_world.more t = [11, 12]"
  using reap_loop_reports_all [of script_platform
      "demo_sigchld (empty_script\<lparr>sc_waitpid := [Inr (11, 0), Inl EINTR, Inr (12, 9)]\<rparr>)"
      "[Some (11, 0), None, Some (12, 9)]" empty_script 4 "\<lambda>pid st l. l @ [nat pid]"]
  by (auto simp: demo_sigchld_def empty_script_def)

text \<open>
  Property C31. A signal number reaches the event loop whole: in whatever pieces, and with
  whatever EINTR failures in between, the four bytes that the signal handler writes come out
  of the pipe, the reading loop ends, and the number decoded is the number written.
\<close>

theorem signal_read_in_pieces:
  assumes "serves K fd 4 (kst s) as" and "concat (children as) = int_bytes i"
    and "- (2 ^ 31) \<le> i" and "i < 2 ^ 31" and "length as \<le> N"
  shows "\<exists>got t. read_signal_bytes N K fd [] s = Ret got t \<and> length got = 4 \<and> bytes_int got = i"
proof -
  have "bytes_int (int_bytes i) = i"
    using assms(3,4) by (auto simp: bytes_int_def Let_def bytes_uint_int_bytes_cases)
  then show ?thesis
    using read_signal_bytes_serves [of K fd "[]" s as N] assms(1,2,5) by auto
qed

theorem signal_read_in_pieces_witness:
  "\<exists>got t. read_signal_bytes 3 script_platform 5 [] (demo_sigchld (empty_script\<lparr>sc_read :=
       [Inr [CHR 0x11], Inl EINTR, Inr [NUL, NUL, NUL]]\<rparr>)) = Ret got t \<and> bytes_int got = SIGCHLD"
proof -
  have "int_bytes SIGCHLD = [CHR 0x11, NUL, NUL, NUL]"
    by code_simp
  then show ?thesis
    using signal_read_in_pieces [of script_platform 5 "demo_sigchld (empty_script\<lparr>sc_read :=
       [Inr [CHR 0x11], Inl EINTR, Inr [NUL, NUL, NUL]]\<rparr>)"
       "[Some [CHR 0x11], None, Some [NUL, NUL, NUL]]" SIGCHLD 3]
    by (auto simp: demo_sigchld_def empty_script_def)
qed

end
