(* ===== verification/Pexec_Single.thy ===== *)
theory Pexec_Single
  imports Sigchld_Handler Argument_Parser
begin

section \<open>One child process (pexec_single.h)\<close>

text \<open>
  The class template \<open>pexec\<close>: it creates the pipes, forks, runs the program in the child,
  passes the child's output to the callbacks and reports its end. Objects live in a store,
  \<open>objs\<close>, under a number that stands for \<open>this\<close>; the callbacks of the object are the
  argument \<open>C\<close>. The fields keep their source names after the prefix \<open>px\<close>. The size
  of \<open>read_buffer\<close> is the template's BUFFER_SIZE.
  \<open>fork\<close> returns once per call here; the model follows the process whose answer the
  platform gives, so a platform that answers 0 shows what the child does. \<open>N\<close> bounds
  every loop.
  The properties of this class are in \<open>Pexec_Single_Props\<close>.
\<close>

datatype px_type = BLOCKING | NONBLOCKING

record pexec =
  px_type :: px_type
  px_read_buffer :: string
  px_state :: error
  px_signal_set :: "int set"
  px_pipe_stdin :: "int \<times> int"
  px_pipe_stdout :: "int \<times> int"
  px_pipe_stderr :: "int \<times> int"
  px_pipe_close_watch :: "int \<times> int"
  px_args :: "string list"
  px_args_c :: "string option list"
  px_sa :: sig_handler
  px_sa_prev :: sig_handler
  px_proc :: proc_status
  px_proc_killed :: bool
  px_user_stopped :: bool
  px_status :: "32 word"
  px_proc_pid :: int
  px_spawn_process_arg :: string

definition init_pexec :: "nat \<Rightarrow> pexec" where
  "init_pexec buffer_size =
     \<lparr>px_type = BLOCKING, px_read_buffer = replicate buffer_size NUL, px_state = NO_ERROR,
      px_signal_set = {}, px_pipe_stdin = (-1, -1), px_pipe_stdout = (-1, -1),
      px_pipe_stderr = (-1, -1), px_pipe_close_watch = (-1, -1), px_args = [], px_args_c = [],
      px_sa = SIG_DFL, px_sa_prev = SIG_DFL, px_proc = init_proc_status, px_proc_killed = False,
      px_user_stopped = False, px_status = 0, px_proc_pid = 0, px_spawn_process_arg = []\<rparr>"

record pexec_fds =
  stdout_read_fd :: int
  stderr_read_fd :: int
  stdin_write_fd :: int
  watch_close_write_fd :: int

text \<open>
  The lambdas that the library registers with a \<open>select_event\<close>: the four of
  \<open>pexec::loop_io\<close> and the one of \<open>pexec_multi::run\<close>.
\<close>

datatype closure =
    OnCloseWatch
  | OnStdout
  | OnStderr
  | OnSignalPipe
  | DoAction

record 'k pexec_world = "('k, closure) sigchld_world" +
  objs :: "nat \<Rightarrow> pexec"

text \<open>
  The user callbacks. Those for output get the whole buffer and the number of bytes read;
  the state callback gets the status record by reference and returns what it left in it.
\<close>

record 's pexec_callbacks =
  pc_stdout :: "string \<Rightarrow> nat \<Rightarrow> ('s, unit) prog"
  pc_stderr :: "string \<Rightarrow> nat \<Rightarrow> ('s, unit) prog"
  pc_state :: "pstate \<Rightarrow> proc_status \<Rightarrow> ('s, proc_status) prog"
  pc_error :: "error \<Rightarrow> ('s, unit) prog"

text \<open>The callbacks of an object whose user has set none.\<close>

definition default_callbacks :: "'s pexec_callbacks" where
  "default_callbacks =
     \<lparr>pc_stdout = (\<lambda>data len. skip), pc_stderr = (\<lambda>data len. skip),
      pc_state = (\<lambda>state proc. ret proc), pc_error = (\<lambda>s. skip)\<rparr>"

text \<open>The setters: a callback takes the place of the one before.\<close>

definition set_stdout_cb ::
  "(string \<Rightarrow> nat \<Rightarrow> ('s, unit) prog) \<Rightarrow> 's pexec_callbacks \<Rightarrow> 's pexec_callbacks" where
  "set_stdout_cb cb C = C\<lparr>pc_stdout := cb\<rparr>"

definition set_stderr_cb ::
  "(string \<Rightarrow> nat \<Rightarrow> ('s, unit) prog) \<Rightarrow> 's pexec_callbacks \<Rightarrow> 's pexec_callbacks" where
  "set_stderr_cb cb C = C\<lparr>pc_stderr := cb\<rparr>"

definition set_state_cb ::
  "(pstate \<Rightarrow> proc_status \<Rightarrow> ('s, proc_status) prog) \<Rightarrow> 's pexec_callbacks \<Rightarrow> 's pexec_callbacks" where
  "set_state_cb cb C = C\<lparr>pc_state := cb\<rparr>"

definition set_error_cb ::
  "(error \<Rightarrow> ('s, unit) prog) \<Rightarrow> 's pexec_callbacks \<Rightarrow> 's pexec_callbacks" where
  "set_error_cb cb C = C\<lparr>pc_error := cb\<rparr>"

lemmas setters = set_stdout_cb_def set_stderr_cb_def set_state_cb_def set_error_cb_def default_callbacks_def

definition this_gets :: "nat \<Rightarrow> (pexec \<Rightarrow> 'a) \<Rightarrow> (('k, 'z) pexec_world_scheme, 'a) prog" where
  "this_gets this f = gets (\<lambda>s. f (objs s this))"

definition this_upd :: "nat \<Rightarrow> (pexec \<Rightarrow> pexec) \<Rightarrow> (('k, 'z) pexec_world_scheme, unit) prog" where
  "this_upd this f = upd (\<lambda>s. s\<lparr>objs := (objs s)(this := f (objs s this))\<rparr>)"

subsection \<open>The pipes\<close>

text \<open>The four pipes of an object and the global pipe of the blocking mode.\<close>

datatype pipe_name = PStdin | PStdout | PStderr | PSignal | PWatch

fun pipe_of :: "pipe_name \<Rightarrow> nat \<Rightarrow> ('k, 'z) pexec_world_scheme \<Rightarrow> int \<times> int" where
  "pipe_of PStdin this s = px_pipe_stdin (objs s this)"
| "pipe_of PStdout this s = px_pipe_stdout (objs s this)"
| "pipe_of PStderr this s = px_pipe_stderr (objs s this)"
| "pipe_of PSignal this s = sigchld_blocking_pipe_signal s"
| "pipe_of PWatch this s = px_pipe_close_watch (objs s this)"

fun set_pipe :: "pipe_name \<Rightarrow> nat \<Rightarrow> int \<times> int \<Rightarrow> (('k, 'z) pexec_world_scheme, unit) prog" where
  "set_pipe PStdin this p = this_upd this (\<lambda>x. x\<lparr>px_pipe_stdin := p\<rparr>)"
| "set_pipe PStdout this p = this_upd this (\<lambda>x. x\<lparr>px_pipe_stdout := p\<rparr>)"
| "set_pipe PStderr this p = this_upd this (\<lambda>x. x\<lparr>px_pipe_stderr := p\<rparr>)"
| "set_pipe PSignal this p = upd (\<lambda>s. s\<lparr>sigchld_blocking_pipe_signal := p\<rparr>)"
| "set_pipe PWatch this p = this_upd this (\<lambda>x. x\<lparr>px_pipe_close_watch := p\<rparr>)"

text \<open>\<open>close_pipe(member)\<close> and the result of \<open>pipe2(member, flags)\<close>.\<close>

definition close_member ::
  "'k platform \<Rightarrow> nat \<Rightarrow> pipe_name \<Rightarrow> (('k, 'z) pexec_world_scheme, unit) prog" where
  "close_member K this n =
     bind (gets (pipe_of n this)) (\<lambda>p.
     bind (close_pipe K p) (\<lambda>p. set_pipe n this p))"

definition open_member ::
  "'k platform \<Rightarrow> nat \<Rightarrow> pipe_name \<Rightarrow> 32 word \<Rightarrow> (('k, 'z) pexec_world_scheme, bool) prog" where
  "open_member K this n flags =
     bind (sys_pipe2 K flags) (\<lambda>r. case r of
       Inl _ \<Rightarrow> ret False
     | Inr p \<Rightarrow> seq (set_pipe n this p) (ret True))"

definition close_fork_pipes :: "'k platform \<Rightarrow> nat \<Rightarrow> (('k, 'z) pexec_world_scheme, unit) prog" where
  "close_fork_pipes K this =
     block [close_member K this PStdin,
            close_member K this PStdout,
            close_member K this PStderr,
            bind (this_gets this px_type) (\<lambda>ty.
              onlyif (ty = BLOCKING) (close_member K this PSignal)),
            close_member K this PWatch]"

subsection \<open>Errors and states\<close>

definition process_error ::
  "('k, 'z) pexec_world_scheme pexec_callbacks \<Rightarrow> nat \<Rightarrow> error \<Rightarrow>
   (('k, 'z) pexec_world_scheme, unit) prog" where
  "process_error C this st =
     block [note_event (EError st), pc_error C st, this_upd this (\<lambda>x. x\<lparr>px_state := st\<rparr>)]"

definition call_state ::
  "('k, 'z) pexec_world_scheme pexec_callbacks \<Rightarrow> nat \<Rightarrow> pstate \<Rightarrow>
   (('k, 'z) pexec_world_scheme, unit) prog" where
  "call_state C this st =
     bind (this_gets this px_proc) (\<lambda>p.
     seq (note_event (EState st p))
     (bind (pc_state C st p) (\<lambda>p'. this_upd this (\<lambda>x. x\<lparr>px_proc := p'\<rparr>))))"

definition fail_stopped where
  "fail_stopped K C this = block [close_fork_pipes K this, call_state C this FAIL_STOPPED]"

definition user_stopped where
  "user_stopped K C this =
     block [this_upd this (\<lambda>x. x\<lparr>px_user_stopped := True\<rparr>),
            this_upd this (\<lambda>x. x\<lparr>px_proc := (px_proc x)\<lparr>ps_user_stop_fd := -1\<rparr>\<rparr>),
            close_fork_pipes K this,
            call_state C this USER_STOPPED]"

text \<open>The way out of \<open>exec\<close> and of the readers after an error.\<close>

definition give_up where
  "give_up K C this err =
     seq (block [process_error C this err, fail_stopped K C this]) (ret False)"

subsection \<open>Preparation\<close>

definition prepare_signal_set :: "nat \<Rightarrow> (('k, 'z) pexec_world_scheme, unit) prog" where
  "prepare_signal_set this =
     block [this_upd this (\<lambda>x. x\<lparr>px_signal_set := {}\<rparr>),
            this_upd this (\<lambda>x. x\<lparr>px_signal_set := insert SIGCHLD (px_signal_set x)\<rparr>)]"

definition prepare_fork_pipes where
  "prepare_fork_pipes K C this =
     (let or_fail = \<lambda>ok err k. if ok then k else give_up K C this err in
      bind (open_member K this PStdin O_NONBLOCK) (\<lambda>ok. or_fail ok STDIN_PIPE_ERROR (
      bind (open_member K this PStdout O_NONBLOCK) (\<lambda>ok. or_fail ok STDOUT_PIPE_ERROR (
      bind (open_member K this PStderr O_NONBLOCK) (\<lambda>ok. or_fail ok STDERR_PIPE_ERROR (
      bind (this_gets this px_type) (\<lambda>ty.
      bind (if ty = BLOCKING then open_member K this PSignal (O_CLOEXEC OR O_NONBLOCK)
            else ret True) (\<lambda>ok. or_fail ok SIGNAL_PIPE_ERROR (
      bind (open_member K this PWatch (O_CLOEXEC OR O_NONBLOCK)) (\<lambda>ok. or_fail ok WATCH_PIPE_ERROR
        (ret True))))))))))))"

definition prepare_args where
  "prepare_args K C this =
     bind (this_gets this px_spawn_process_arg) (\<lambda>arg.
     seq (this_upd this (\<lambda>x. x\<lparr>px_args := str2arg arg\<rparr>))
     (bind (this_gets this px_args) (\<lambda>as.
        if as = [] then give_up K C this ARG_PARSE_ERROR
        else
          seq (this_upd this (\<lambda>x. x\<lparr>px_args_c := arg2argc as\<rparr>))
          (bind (this_gets this px_args_c) (\<lambda>cs.
             if length cs < 2 then give_up K C this ARG_PARSE_C_ERROR else ret True)))))"

subsection \<open>Signals\<close>

definition set_sigchld_signal_handler where
  "set_sigchld_signal_handler K C this =
     seq (this_upd this (\<lambda>x. x\<lparr>px_sa := BLOCKING_HANDLER\<rparr>))
     (bind (sys_sigaction K BLOCKING_HANDLER) (\<lambda>r. case r of
        Inl _ \<Rightarrow> give_up K C this SIGACTION_SET_ERROR
      | Inr prev \<Rightarrow> seq (this_upd this (\<lambda>x. x\<lparr>px_sa_prev := prev\<rparr>)) (ret True)))"

definition reset_sigchld_signal_handler where
  "reset_sigchld_signal_handler K C this =
     bind (this_gets this px_sa_prev) (\<lambda>prev.
     bind (sys_sigaction K prev) (\<lambda>r. case r of
       Inl _ \<Rightarrow> seq (process_error C this SIGACTION_RESET_ERROR) (ret False)
     | Inr _ \<Rightarrow> ret True))"

definition block_sigchld where
  "block_sigchld K C this =
     bind (this_gets this px_signal_set) (\<lambda>set.
     bind (sys_sigprocmask K SIG_BLOCK set) (\<lambda>r. case r of
       Inl _ \<Rightarrow> process_error C this SIG_BLOCK_ERROR | Inr _ \<Rightarrow> skip))"

definition unblock_sigchld where
  "unblock_sigchld K C this =
     bind (this_gets this px_signal_set) (\<lambda>set.
     bind (sys_sigprocmask K SIG_UNBLOCK set) (\<lambda>r. case r of
       Inl _ \<Rightarrow> process_error C this SIG_UNBLOCK_ERROR | Inr _ \<Rightarrow> skip))"

subsection \<open>Reading output\<close>

text \<open>What \<open>read\<close> leaves in the buffer, and the terminating NUL written after it.\<close>

definition fill_buffer :: "string \<Rightarrow> string \<Rightarrow> string" where
  "fill_buffer d buf = d @ drop (length d) buf"

definition store_read :: "nat \<Rightarrow> string \<Rightarrow> (('k, 'z) pexec_world_scheme, unit) prog" where
  "store_read this d = this_upd this (\<lambda>x. x\<lparr>px_read_buffer := fill_buffer d (px_read_buffer x)\<rparr>)"

definition terminate_buffer :: "nat \<Rightarrow> nat \<Rightarrow> (('k, 'z) pexec_world_scheme, unit) prog" where
  "terminate_buffer this rc = this_upd this (\<lambda>x. x\<lparr>px_read_buffer := (px_read_buffer x)[rc := NUL]\<rparr>)"

text \<open>The two output channels: the pipe, the callback, and the event noted for a call of it.\<close>

datatype channel = Stdout | Stderr

fun chan_pipe :: "channel \<Rightarrow> pipe_name" where
  "chan_pipe Stdout = PStdout"
| "chan_pipe Stderr = PStderr"

fun chan_event :: "channel \<Rightarrow> string \<Rightarrow> event" where
  "chan_event Stdout d = EOut d"
| "chan_event Stderr d = EErr d"

fun chan_cb ::
  "'s pexec_callbacks \<Rightarrow> channel \<Rightarrow> string \<Rightarrow> nat \<Rightarrow> ('s, unit) prog" where
  "chan_cb C Stdout = pc_stdout C"
| "chan_cb C Stderr = pc_stderr C"

text \<open>\<open>cb(read_buffer.data(), rc)\<close>\<close>

definition deliver where
  "deliver C this ch rc =
     bind (this_gets this px_read_buffer) (\<lambda>buf.
     seq (note_event (chan_event ch (take rc buf))) (chan_cb C ch buf rc))"

definition buffer_room :: "nat \<Rightarrow> (('k, 'z) pexec_world_scheme, nat) prog" where
  "buffer_room this = this_gets this (\<lambda>x. length (px_read_buffer x) - 1)"

fun read_std_rest ::
  "nat \<Rightarrow> 'k platform \<Rightarrow> ('k, 'z) pexec_world_scheme pexec_callbacks \<Rightarrow> nat \<Rightarrow> int \<Rightarrow> channel \<Rightarrow>
   error \<Rightarrow> (('k, 'z) pexec_world_scheme, unit) prog" where
  "read_std_rest 0 K C this fd ch err = spin"
| "read_std_rest (Suc m) K C this fd ch err =
     seq (set_errno 0)
     (bind (buffer_room this) (\<lambda>n.
      bind (sys_read K fd n) (\<lambda>r. case r of
        Inl _ \<Rightarrow> bind (gets errno) (\<lambda>e.
                 onlyif (e \<noteq> EINTR \<and> e \<noteq> EAGAIN) (process_error C this err))
      | Inr d \<Rightarrow>
          seq (store_read this d)
          (if length d = 0 then read_std_rest m K C this fd ch err
           else
             seq (terminate_buffer this (length d))
             (seq (deliver C this ch (length d))
             (bind (gets errno) (\<lambda>e.
                if e = EINTR then read_std_rest m K C this fd ch err else skip)))))))"

definition loop_rest_io where
  "loop_rest_io N K C this =
     block [bind (gets (pipe_of PStdout this)) (\<lambda>p.
              read_std_rest N K C this (fst p) Stdout STDOUT_PIPE_READ_REST_ERROR),
            bind (gets (pipe_of PStderr this)) (\<lambda>p.
              read_std_rest N K C this (fst p) Stderr STDERR_PIPE_READ_REST_ERROR)]"

definition stopped where
  "stopped N K C this =
     block [loop_rest_io N K C this, close_fork_pipes K this, call_state C this STOPPED]"

text \<open>How a reader of the event loop leaves after an error.\<close>

definition reader_error where
  "reader_error K C this err =
     seq (process_error C this err)
     (bind (this_gets this px_type) (\<lambda>ty.
        if ty = NONBLOCKING then seq (fail_stopped K C this) (ret NOTHING) else ret STOP_LOOP))"

text \<open>
  The readers. The loop around \<open>read\<close> is \<open>read_retry\<close>: it is left at once by an error
  other than EINTR, so a negative \<open>rc\<close> never reaches the code behind the loop.
\<close>

definition read_close where
  "read_close N K C this =
     bind (gets (pipe_of PWatch this)) (\<lambda>p.
     bind (buffer_room this) (\<lambda>n.
     bind (read_retry N K (fst p) n) (\<lambda>r. case r of
       Inl _ \<Rightarrow> reader_error K C this WATCH_PIPE_READ_ERROR
     | Inr d \<Rightarrow>
         seq (store_read this d)
         (bind (this_gets this px_type) (\<lambda>ty.
          seq (onlyif (ty = NONBLOCKING) (user_stopped K C this)) (ret NOTHING))))))"

definition read_std where
  "read_std N K C this fd ch err =
     bind (buffer_room this) (\<lambda>n.
     bind (read_retry N K fd n) (\<lambda>r. case r of
       Inl _ \<Rightarrow> reader_error K C this err
     | Inr d \<Rightarrow>
         seq (store_read this d)
         (if length d = 0 then ret SKIP_OTHER_FD
          else seq (block [terminate_buffer this (length d), deliver C this ch (length d)])
                   (ret NOTHING))))"

definition read_stdout where
  "read_stdout N K C this =
     bind (gets (pipe_of PStdout this)) (\<lambda>p. read_std N K C this (fst p) Stdout STDOUT_PIPE_READ_ERROR)"

definition read_stderr where
  "read_stderr N K C this =
     bind (gets (pipe_of PStderr this)) (\<lambda>p. read_std N K C this (fst p) Stderr STDERR_PIPE_READ_ERROR)"

definition get_fds :: "nat \<Rightarrow> (('k, 'z) pexec_world_scheme, pexec_fds) prog" where
  "get_fds this =
     this_gets this (\<lambda>x. \<lparr>stdout_read_fd = fst (px_pipe_stdout x),
       stderr_read_fd = fst (px_pipe_stderr x), stdin_write_fd = snd (px_pipe_stdin x),
       watch_close_write_fd = fst (px_pipe_close_watch x)\<rparr>)"

subsection \<open>The child's status\<close>

definition fork_error :: "int \<Rightarrow> error option" where
  "fork_error code =
     (if code = 100 then Some FORK_EXEC_ERROR
      else if code = 101 then Some FORK_STDIN_NONBLOCK_ERROR
      else if code = 102 then Some FORK_STDOUT_NONBLOCK_ERROR
      else if code = 103 then Some FORK_STDERR_NONBLOCK_ERROR
      else if code = 104 then Some FORK_DUP2_STDIN_ERROR
      else if code = 105 then Some FORK_DUP2_STDOUT_ERROR
      else if code = 106 then Some FORK_DUP2_STDERR_ERROR
      else None)"

definition handle_proc_return_code where
  "handle_proc_return_code C this =
     bind (this_gets this (\<lambda>x. ps_return_code (px_proc x))) (\<lambda>code.
       case fork_error code of None \<Rightarrow> skip | Some err \<Rightarrow> process_error C this err)"

definition update_status where
  "update_status N K C this st =
     seq (block [this_upd this (\<lambda>x. x\<lparr>px_status := st\<rparr>),
            this_upd this (\<lambda>x. x\<lparr>px_proc := update_proc_status st (px_proc x)\<rparr>),
            call_state C this SIGNALED])
     (bind (this_gets this (\<lambda>x. ps_running (px_proc x))) (\<lambda>running.
        onlyif (\<not> running)
          (block [this_upd this (\<lambda>x. x\<lparr>px_proc := (px_proc x)\<lparr>ps_stdin_fd := -1\<rparr>\<rparr>),
                  this_upd this (\<lambda>x. x\<lparr>px_proc_killed := True\<rparr>),
                  handle_proc_return_code C this,
                  bind (this_gets this px_type) (\<lambda>ty.
                    onlyif (ty = NONBLOCKING) (stopped N K C this))])))"

text \<open>
  The \<open>do ... while(errno == EINTR)\<close> around \<open>waitpid\<close>. A positive result stores the
  status; 0 (the child has not changed state) leaves the 0 stored before the call.
\<close>

fun wait_loop ::
  "nat \<Rightarrow> 'k platform \<Rightarrow> ('k, 'z) pexec_world_scheme pexec_callbacks \<Rightarrow> nat \<Rightarrow>
   (('k, 'z) pexec_world_scheme, unit) prog" where
  "wait_loop 0 K C this = spin"
| "wait_loop (Suc m) K C this =
     seq (this_upd this (\<lambda>x. x\<lparr>px_status := 0\<rparr>))
     (seq (set_errno 0)
     (bind (this_gets this px_proc_pid) (\<lambda>pid.
      bind (sys_waitpid K pid) (\<lambda>r.
      seq (case r of
             Inl _ \<Rightarrow> process_error C this WAITPID_ERROR
           | Inr (p, st) \<Rightarrow>
               if p \<le> 0 then process_error C this WAITPID_ERROR
               else this_upd this (\<lambda>x. x\<lparr>px_status := st\<rparr>))
      (bind (gets errno) (\<lambda>e. if e = EINTR then wait_loop m K C this else skip))))))"

definition handle_sigchld where
  "handle_sigchld N K C this =
     seq (block_sigchld K C this)
     (bind (gets errno) (\<lambda>save_errno.
      seq (block [wait_loop N K C this, set_errno save_errno, unblock_sigchld K C this])
      (bind (this_gets this px_status) (\<lambda>st. update_status N K C this st))))"

subsection \<open>The event loop of the blocking mode\<close>

text \<open>Reading the signal number; \<open>got\<close> are the bytes read so far.\<close>

fun read_signal_int ::
  "nat \<Rightarrow> 'k platform \<Rightarrow> ('k, 'z) pexec_world_scheme pexec_callbacks \<Rightarrow> nat \<Rightarrow> string \<Rightarrow>
   (('k, 'z) pexec_world_scheme, string) prog" where
  "read_signal_int 0 K C this got = spin"
| "read_signal_int (Suc m) K C this got =
     bind (gets (pipe_of PSignal this)) (\<lambda>p.
     bind (sys_read K (fst p) (4 - length got)) (\<lambda>r. case r of
       Inl _ \<Rightarrow> seq (process_error C this SIGNAL_PIPE_READ_ERROR) (ret got)
     | Inr d \<Rightarrow>
         if length (got @ d) \<noteq> 4 then read_signal_int m K C this (got @ d) else ret (got @ d)))"

fun run_closure where
  "run_closure N K C this OnCloseWatch fd =
     bind (read_close N K C this) (\<lambda>r.
     seq (onlyif (r = NOTHING) (se_interrupt K)) (ret r))"
| "run_closure N K C this OnStdout fd = read_stdout N K C this"
| "run_closure N K C this OnStderr fd = read_stderr N K C this"
| "run_closure N K C this OnSignalPipe fd =
     bind (read_signal_int N K C this []) (\<lambda>got.
       if length got \<noteq> 4 then ret STOP_LOOP
       else
         seq (onlyif (bytes_int got = SIGCHLD) (handle_sigchld N K C this))
         (bind (this_gets this px_proc_killed) (\<lambda>killed.
            ret (if killed then STOP_LOOP else NOTHING))))"
| "run_closure N K C this DoAction fd = finish Aborted"

definition io_callbacks where
  "io_callbacks N K C this =
     \<lparr>lc_run = run_closure N K C this,
      lc_interrupt = Some (seq (this_upd this (\<lambda>x. x\<lparr>px_user_stopped := True\<rparr>)) (ret STOP_LOOP)),
      lc_error = Some (process_error C this SELECT_ERROR)\<rparr>"

definition watch_member where
  "watch_member K this n c =
     bind (gets (pipe_of n this)) (\<lambda>p. se_add_read_event K (fst p) (Some c))"

definition loop_io where
  "loop_io N K C this =
     block [this_upd this (\<lambda>x. x\<lparr>px_proc_killed := False\<rparr>),
            this_upd this (\<lambda>x. x\<lparr>px_user_stopped := False\<rparr>),
            this_upd this (\<lambda>x. x\<lparr>px_status := 0\<rparr>),
            se_construct K,
            watch_member K this PWatch OnCloseWatch,
            watch_member K this PStdout OnStdout,
            watch_member K this PStderr OnStderr,
            watch_member K this PSignal OnSignalPipe,
            se_loop N K (io_callbacks N K C this),
            se_destruct K]"

subsection \<open>Spawning\<close>

text \<open>What the child does: six calls that may fail, then \<open>execvp\<close>.\<close>

definition child_unset where
  "child_unset K this n end code =
     bind (gets (pipe_of n this)) (\<lambda>p.
     bind (fd_unset_nonblock K (end p)) (\<lambda>r. if r = -1 then finish (Exited code) else skip))"

definition child_dup where
  "child_dup K this n end fileno code =
     bind (gets (pipe_of n this)) (\<lambda>p.
     bind (sys_dup2 K (end p) fileno) (\<lambda>r.
       if r \<noteq> Inr fileno then finish (Exited code) else skip))"

definition child_prepare :: "'k platform \<Rightarrow> nat \<Rightarrow> (('k, 'z) pexec_world_scheme, unit) prog" where
  "child_prepare K this =
     block [child_unset K this PStdin fst 101,
            child_unset K this PStdout snd 102,
            child_unset K this PStderr snd 103,
            child_dup K this PStdin fst 0 104,
            child_dup K this PStdout snd 1 105,
            child_dup K this PStderr snd 2 106,
            close_member K this PStdout,
            close_member K this PStderr,
            close_member K this PStdin]"

definition child_branch :: "'k platform \<Rightarrow> nat \<Rightarrow> (('k, 'z) pexec_world_scheme, bool) prog" where
  "child_branch K this =
     seq (child_prepare K this)
     (bind (this_gets this px_args_c) (\<lambda>argv.
      bind (sys_execvp K argv) (\<lambda>r. case r of
        Inl _ \<Rightarrow> finish (Exited 100)
      | Inr _ \<Rightarrow> finish (Replaced argv))))"

definition spawn_proc where
  "spawn_proc K C this =
     bind (sys_fork K) (\<lambda>r.
     seq (this_upd this (\<lambda>x. x\<lparr>px_proc_pid := (case r of Inl _ \<Rightarrow> -1 | Inr pid \<Rightarrow> pid)\<rparr>))
     (case r of
        Inl _ \<Rightarrow> give_up K C this FORK_ERROR
      | Inr pid \<Rightarrow> if pid = 0 then child_branch K this else ret True))"

subsection \<open>The public operations\<close>

definition set_type :: "nat \<Rightarrow> px_type \<Rightarrow> (('k, 'z) pexec_world_scheme, unit) prog" where
  "set_type this t = this_upd this (\<lambda>x. x\<lparr>px_type := t\<rparr>)"

text \<open>\<open>exec\<close> once the child runs.\<close>

definition exec_started where
  "exec_started N K C this =
     block [this_upd this (\<lambda>x. x\<lparr>px_proc := (px_proc x)\<lparr>ps_pid := px_proc_pid x\<rparr>\<rparr>),
            this_upd this (\<lambda>x. x\<lparr>px_proc := (px_proc x)\<lparr>ps_stdin_fd := snd (px_pipe_stdin x)\<rparr>\<rparr>),
            this_upd this (\<lambda>x. x\<lparr>px_proc := (px_proc x)\<lparr>ps_running := True\<rparr>\<rparr>),
            this_upd this (\<lambda>x. x\<lparr>px_proc :=
              (px_proc x)\<lparr>ps_user_stop_fd := snd (px_pipe_close_watch x)\<rparr>\<rparr>),
            call_state C this STARTED,
            bind (this_gets this px_type) (\<lambda>ty.
              onlyif (ty = BLOCKING)
                (block [loop_io N K C this,
                        bind (reset_sigchld_signal_handler K C this) (\<lambda>_. skip),
                        bind (this_gets this px_user_stopped) (\<lambda>user.
                          if user then user_stopped K C this else stopped N K C this)]))]"

definition pexec_exec where
  "pexec_exec N K C this spawn_arg =
     seq (this_upd this (\<lambda>x. x\<lparr>px_spawn_process_arg := spawn_arg\<rparr>))
     (seq (this_upd this (\<lambda>x. x\<lparr>px_state := NO_ERROR\<rparr>))
     (bind (prepare_args K C this) (\<lambda>ok. onlyif ok
     (seq (prepare_signal_set this)
     (bind (prepare_fork_pipes K C this) (\<lambda>ok. onlyif ok
     (bind (this_gets this px_type) (\<lambda>ty.
      bind (if ty = BLOCKING then set_sigchld_signal_handler K C this else ret True) (\<lambda>ok. onlyif ok
     (bind (spawn_proc K C this) (\<lambda>spawned. onlyif spawned
     (exec_started N K C this))))))))))))"

end
