(* ===== verification/Pexec_Contract.thy ===== *)
theory Pexec_Contract
  imports Pexec_Single
begin

section \<open>The contract of the user callbacks, and what an object does between fork and stop\<close>

text \<open>
  The callbacks of a \<open>pexec\<close> object are code of its client. The locale \<open>px_client\<close> says
  what the class needs from them: they leave the object, the global pipe and the control pipe of
  the event loop alone, they keep the fields of the status record that the class reads back, and
  they neither open, close nor read descriptors, fork, or install a
  handler. \<open>px_local_client\<close> adds that they leave the event loop's map alone, which holds
  in the blocking mode, where the loop is a local variable.
  \<open>busy\<close> is the relation between the states before and after anything the object does
  while the child runs; every operation of the blocking event loop respects it.
\<close>

subsection \<open>Events\<close>

definition client_event :: "event \<Rightarrow> bool" where
  "client_event e \<longleftrightarrow>
     (case e of EWrite fd d \<Rightarrow> True | EKill p sig \<Rightarrow> True | EMask how \<Rightarrow> True
      | ESetfl fd fl \<Rightarrow> True | _ \<Rightarrow> False)"

definition quiet_event :: "event \<Rightarrow> bool" where
  "quiet_event e \<longleftrightarrow>
     (case e of EPipe a b \<Rightarrow> False | EClose fd \<Rightarrow> False | EFork pid \<Rightarrow> False
      | ESigaction h \<Rightarrow> False | EState st p \<Rightarrow> st = SIGNALED | _ \<Rightarrow> True)"

definition silent_event :: "event \<Rightarrow> bool" where
  "silent_event e \<longleftrightarrow>
     quiet_event e \<and> (case e of ERead fd d \<Rightarrow> False | EOut d \<Rightarrow> False | EErr d \<Rightarrow> False | _ \<Rightarrow> True)"

lemma client_silent: "client_event e \<Longrightarrow> silent_event e"
  by (simp add: client_event_def silent_event_def quiet_event_def split: event.splits)

text \<open>The bytes given to the callbacks are the bytes read from the two pipes.\<close>

definition io_trace :: "int \<Rightarrow> int \<Rightarrow> event list \<Rightarrow> bool" where
  "io_trace a b es \<longleftrightarrow>
     (\<forall>e \<in> set es. quiet_event e) \<and> out_of es = read_from a es \<and> err_of es = read_from b es"

lemma io_trace_append: "io_trace a b es \<Longrightarrow> io_trace a b fs \<Longrightarrow> io_trace a b (es @ fs)"
  by (auto simp: io_trace_def)

lemma io_trace_silent: "\<forall>e \<in> set es. silent_event e \<Longrightarrow> io_trace a b es"
proof (induction es)
  case Nil
  then show ?case by (simp add: io_trace_def)
next
  case (Cons e es)
  then show ?case
    by (auto simp: io_trace_def silent_event_def split: event.splits)
qed

lemma quiet_projections:
  assumes "\<forall>e \<in> set es. quiet_event e"
  shows "open_fds (es @ t) = open_fds t" "closes_own (es @ t) = closes_own t"
    "fresh_pipes (es @ t) = fresh_pipes t"
    "forks_of es = []" "handlers_of es = []" "\<exists>n. states_of es = replicate n SIGNALED"
proof -
  have "open_fds (es @ t) = open_fds t \<and> closes_own (es @ t) = closes_own t \<and>
    fresh_pipes (es @ t) = fresh_pipes t \<and> forks_of es = [] \<and> handlers_of es = [] \<and>
    (\<exists>n. states_of es = replicate n SIGNALED)"
    using assms
  proof (induction es)
    case Nil
    then show ?case by simp
  next
    case (Cons e es)
    then obtain n where n: "states_of es = replicate n SIGNALED" by auto
    with Cons have "states_of (e # es) = replicate n SIGNALED \<or>
        states_of (e # es) = replicate (Suc n) SIGNALED"
      by (auto simp: quiet_event_def replicate_append_same split: event.splits)
    then have "\<exists>n. states_of (e # es) = replicate n SIGNALED" by blast
    moreover have "open_fds (e # es @ t) = open_fds t \<and> closes_own (e # es @ t) = closes_own t \<and>
      fresh_pipes (e # es @ t) = fresh_pipes t \<and> forks_of (e # es) = [] \<and> handlers_of (e # es) = []"
      using Cons by (auto simp: quiet_event_def split: event.splits)
    ultimately show ?case by simp
  qed
  then show "open_fds (es @ t) = open_fds t" "closes_own (es @ t) = closes_own t"
    "fresh_pipes (es @ t) = fresh_pipes t"
    "forks_of es = []" "handlers_of es = []" "\<exists>n. states_of es = replicate n SIGNALED"
    by auto
qed

subsection \<open>The contract\<close>

definition client ::
  "nat \<Rightarrow> ('k, 'z) pexec_world_scheme \<Rightarrow> ('k, 'z) pexec_world_scheme \<Rightarrow> bool" where
  "client this s t \<longleftrightarrow>
     objs t this = objs s this \<and>
     sigchld_blocking_pipe_signal t = sigchld_blocking_pipe_signal s \<and>
     se_control_pipe (sel t) = se_control_pipe (sel s) \<and>
     (\<exists>es. trace t = es @ trace s \<and> (\<forall>e \<in> set es. client_event e))"

interpretation cl: step_rel "client this :: ('k, 'z) pexec_world_scheme \<Rightarrow> _"
proof
  fix s t u :: "('k, 'z) pexec_world_scheme"
  show "client this s s" by (simp add: client_def)
  assume "client this s t"
  then obtain es where "trace t = es @ trace s" "\<forall>e \<in> set es. client_event e"
    "objs t this = objs s this"
    "sigchld_blocking_pipe_signal t = sigchld_blocking_pipe_signal s"
    "se_control_pipe (sel t) = se_control_pipe (sel s)"
    by (auto simp: client_def)
  moreover assume "client this t u"
  then obtain fs where "trace u = fs @ trace t" "\<forall>e \<in> set fs. client_event e"
    "objs u this = objs t this"
    "sigchld_blocking_pipe_signal u = sigchld_blocking_pipe_signal t"
    "se_control_pipe (sel u) = se_control_pipe (sel t)"
    by (auto simp: client_def)
  ultimately show "client this s u"
    by (auto simp: client_def intro: exI [of _ "fs @ es"])
qed

locale px_client =
  fixes C :: "('k, 'z) pexec_world_scheme pexec_callbacks" and this :: nat
  assumes stdout_ok: "pres (client this) (pc_stdout C buf n)"
    and stderr_ok: "pres (client this) (pc_stderr C buf n)"
    and error_ok: "pres (client this) (pc_error C e)"
    and state_ok: "pc_state C st p s = Ret p' t \<Longrightarrow>
      client this s t \<and> ps_running p' = ps_running p \<and> ps_return_code p' = ps_return_code p"

locale px_local_client = px_client C this
  for C :: "('k, 'z) pexec_world_scheme pexec_callbacks" and this :: nat +
  assumes stdout_local: "pres (\<lambda>s t. sel t = sel s) (pc_stdout C buf n)"
    and stderr_local: "pres (\<lambda>s t. sel t = sel s) (pc_stderr C buf n)"
    and error_local: "pres (\<lambda>s t. sel t = sel s) (pc_error C e)"
    and state_local: "pres (\<lambda>s t. sel t = sel s) (pc_state C st p)"

subsection \<open>The relation\<close>

definition kept_object :: "pexec \<Rightarrow> pexec \<Rightarrow> bool" where
  "kept_object p q \<longleftrightarrow>
     px_type q = px_type p \<and> px_pipe_stdin q = px_pipe_stdin p \<and>
     px_pipe_stdout q = px_pipe_stdout p \<and> px_pipe_stderr q = px_pipe_stderr p \<and>
     px_pipe_close_watch q = px_pipe_close_watch p \<and> px_sa_prev q = px_sa_prev p \<and>
     px_proc_pid q = px_proc_pid p \<and>
     length (px_read_buffer q) = length (px_read_buffer p)"

definition busy ::
  "nat \<Rightarrow> ('k, 'z) pexec_world_scheme \<Rightarrow> ('k, 'z) pexec_world_scheme \<Rightarrow> bool" where
  "busy this s t \<longleftrightarrow>
     kept_object (objs s this) (objs t this) \<and>
     sigchld_blocking_pipe_signal t = sigchld_blocking_pipe_signal s \<and>
     se_control_pipe (sel t) = se_control_pipe (sel s) \<and> se_cbs (sel t) = se_cbs (sel s) \<and>
     (\<exists>es. trace t = es @ trace s \<and>
        io_trace (fst (pipe_of PStdout this s)) (fst (pipe_of PStderr this s)) es)"

lemma busy_pipes:
  "busy this s t \<Longrightarrow> pipe_of n this t = pipe_of n this s \<and>
   px_type (objs t this) = px_type (objs s this)"
  by (cases n) (simp_all add: busy_def kept_object_def)

interpretation bz: step_rel "busy this :: ('k, 'z) pexec_world_scheme \<Rightarrow> _"
proof
  fix s t u :: "('k, 'z) pexec_world_scheme"
  show "busy this s s" by (simp add: busy_def kept_object_def io_trace_silent)
  assume st: "busy this s t" and tu: "busy this t u"
  let ?io = "io_trace (fst (pipe_of PStdout this s)) (fst (pipe_of PStderr this s))"
  from st tu obtain es fs where "trace t = es @ trace s" "?io es" "trace u = fs @ trace t" "?io fs"
    by (auto simp: busy_def kept_object_def)
  then have "trace u = (fs @ es) @ trace s" "?io (fs @ es)"
    by (simp_all add: io_trace_append)
  then show "busy this s u"
    using st tu unfolding busy_def kept_object_def by auto
qed

text \<open>Which read ends must differ, for the output not to be mixed up.\<close>

definition apart :: "nat \<Rightarrow> ('k, 'z) pexec_world_scheme \<Rightarrow> bool" where
  "apart this s \<longleftrightarrow>
     px_type (objs s this) = BLOCKING \<and>
     (let a = fst (pipe_of PStdout this s); b = fst (pipe_of PStderr this s) in
      a \<noteq> b \<and> fst (pipe_of PWatch this s) \<notin> {a, b} \<and> fst (pipe_of PSignal this s) \<notin> {a, b})"

lemma busy_apart: "apart this s \<Longrightarrow> busy this s t \<Longrightarrow> apart this t"
  using busy_pipes [of this s t] by (simp add: apart_def Let_def)

interpretation ap: guarded "busy this :: ('k, 'z) pexec_world_scheme \<Rightarrow> _" "apart this"
  by unfold_locales (rule busy_apart)

subsection \<open>Simple steps\<close>

lemma more_pexec:
  fixes s t :: "('k, 'z) pexec_world_scheme"
  shows "world.more t = world.more s \<Longrightarrow>
    objs t = objs s \<and> sel t = sel s \<and>
    sigchld_blocking_pipe_signal t = sigchld_blocking_pipe_signal s \<and>
    pexec_world.more t = pexec_world.more s"
  by (cases s; cases t) simp

lemma silent_busy: "adds silent_event s t \<Longrightarrow> busy this s t"
  using more_pexec [of t s]
  by (auto simp: adds_def busy_def kept_object_def intro: io_trace_silent)

lemma pres_busy_adds: "pres (adds silent_event) m \<Longrightarrow> pres (busy this) m"
  by (rule pres_mono [OF _ silent_busy])

lemma silent_events [simp]:
  "silent_event (EWrite fd d)" "silent_event (EWait p st)" "silent_event (EMask how)"
  "silent_event (EError e)" "silent_event (EState SIGNALED q)" "silent_event (ECall fd)"
  by (simp_all add: silent_event_def quiet_event_def)

lemma pres_busy_sys:
  "pres (busy this) (sys_write K fd d)"
  "pres (busy this) (sys_waitpid K pid)"
  "pres (busy this) (sys_sigprocmask K how sigs)"
  "pres (busy this) (sys_select K nfds fds)"
  "pres (busy this) (set_errno e)"
  "pres (busy this) (note_event (EError er))"
  "pres (busy this) (note_event (EState SIGNALED p))"
  "pres (busy this) (note_event (ECall fd))"
  by (auto intro!: pres_busy_adds adds_intros)

lemma pres_busy_this_upd:
  "(\<And>x. kept_object x (f x)) \<Longrightarrow> pres (busy this) (this_upd this f)"
  by (auto simp: this_upd_def busy_def io_trace_silent intro!: pres_upd)

lemma pres_busy_upd_sel:
  "(\<And>e. se_cbs (f e) = se_cbs e \<and> se_control_pipe (f e) = se_control_pipe e) \<Longrightarrow>
   pres (busy this) (upd_sel f)"
  by (auto simp: upd_sel_def busy_def kept_object_def io_trace_silent intro!: pres_upd)

lemma pres_busy_this_gets: "pres (busy this) (this_gets this f)"
  by (simp add: this_gets_def bz.pres_gets)

lemma pres_busy_interrupt: "pres (busy this) (se_interrupt K)"
  by (auto simp: se_interrupt_def intro!: bz.pres_intros pres_busy_sys)

lemma kept_object_simps [simp]:
  "kept_object x (x\<lparr>px_state := e\<rparr>)" "kept_object x (x\<lparr>px_status := st\<rparr>)"
  "kept_object x (x\<lparr>px_proc := p\<rparr>)" "kept_object x (x\<lparr>px_proc_killed := b\<rparr>)"
  "kept_object x (x\<lparr>px_user_stopped := b\<rparr>)"
  by (simp_all add: kept_object_def)

lemma client_busy: "client this s t \<Longrightarrow> sel t = sel s \<Longrightarrow> busy this s t"
  by (auto simp: client_def busy_def kept_object_def intro!: io_trace_silent client_silent)

subsection \<open>The operations of the blocking event loop\<close>

text \<open>A read that does not touch the two output pipes.\<close>

lemma read_other_busy:
  assumes "apart this s" and "fd \<notin> {fst (pipe_of PStdout this s), fst (pipe_of PStderr this s)}"
    and "world.more t = world.more s" and "(\<exists>d. trace t = ERead fd d # trace s) \<or> trace t = trace s"
  shows "busy this s t"
proof -
  have "\<exists>es. trace t = es @ trace s \<and>
      io_trace (fst (pipe_of PStdout this s)) (fst (pipe_of PStderr this s)) es"
    using assms(4)
  proof
    assume "trace t = trace s"
    then show ?thesis by (auto intro: exI [of _ "[]"] simp: io_trace_def)
  next
    assume "\<exists>d. trace t = ERead fd d # trace s"
    then obtain d where "trace t = ERead fd d # trace s" by blast
    with assms(2) show ?thesis
      by (intro exI [of _ "[ERead fd d]"]) (auto simp: io_trace_def quiet_event_def)
  qed
  then show ?thesis
    using more_pexec [OF assms(3)] by (simp add: busy_def kept_object_def)
qed

text \<open>Storing the bytes of a read and giving them to the callback.\<close>

lemma take_fill:
  "take (length d) ((fill_buffer d buf)[length d := c]) = d"
  "take (length d) (fill_buffer d buf) = d"
  by (simp_all add: fill_buffer_def)

lemma length_fill: "length d \<le> length buf \<Longrightarrow> length (fill_buffer d buf) = length buf"
  by (simp add: fill_buffer_def)

definition reads_fit :: "'k platform \<Rightarrow> bool" where
  "reads_fit K \<longleftrightarrow> (\<forall>fd n k d k'. k_read K fd n k = (Inr d, k') \<longrightarrow> length d \<le> n)"

lemma reads_fitD: "reads_fit K \<Longrightarrow> read_retry m K fd n s = Ret (Inr d) t \<Longrightarrow> length d \<le> n"
  using read_retry_answer [of m K fd n s d t] unfolding reads_fit_def by blast

fun chan_fd :: "channel \<Rightarrow> nat \<Rightarrow> ('k, 'z) pexec_world_scheme \<Rightarrow> int" where
  "chan_fd ch this s = fst (pipe_of (chan_pipe ch) this s)"

lemma io_trace_deliver:
  assumes "a \<noteq> b" and "\<forall>e \<in> set es. silent_event e" and "fd = (case ch of Stdout \<Rightarrow> a | Stderr \<Rightarrow> b)"
  shows "io_trace a b (es @ [chan_event ch d, ERead fd d])"
    "d = [] \<Longrightarrow> io_trace a b [ERead fd d]"
proof -
  have "io_trace a b [chan_event ch d, ERead fd d]"
    using assms(1,3) by (cases ch) (auto simp: io_trace_def quiet_event_def)
  with io_trace_silent [OF assms(2)] show "io_trace a b (es @ [chan_event ch d, ERead fd d])"
    by (rule io_trace_append)
  show "d = [] \<Longrightarrow> io_trace a b [ERead fd d]"
    using assms(1,3) by (cases ch) (auto simp: io_trace_def quiet_event_def)
qed

context px_local_client begin

lemma busy_process_error: "pres (busy this) (process_error C this e)"
proof -
  have "pres (busy this) (pc_error C e)"
    using error_ok error_local by (auto simp: pres_def intro: client_busy)
  then show ?thesis
    by (auto simp: process_error_def intro!: bz.pres_intros pres_busy_sys pres_busy_this_upd)
qed

lemma busy_signaled: "pres (busy this) (call_state C this SIGNALED)"
proof -
  have "pres (busy this) (pc_state C st p)" for st p
    using state_ok state_local by (auto simp: pres_def intro!: client_busy)
  then show ?thesis
    by (auto simp: call_state_def intro!: bz.pres_intros pres_busy_sys pres_busy_this_upd
        pres_busy_this_gets)
qed

lemma chan_cb_ok: "pres (client this) (chan_cb C ch buf n)"
  and chan_cb_local: "pres (\<lambda>s t. sel t = sel s) (chan_cb C ch buf n)"
  by (cases ch; simp add: stdout_ok stderr_ok stdout_local stderr_local)+

text \<open>From a read on an output pipe to the end of the callback.\<close>

lemma deliver_busy:
  assumes "apart this s" and u: "world.more u = world.more s"
    and tr: "trace u = ERead (chan_fd ch this s) d # trace s"
    and len: "length d \<le> length (px_read_buffer (objs s this)) - 1"
    and run: "(block [store_read this d, terminate_buffer this (length d),
      deliver C this ch (length d)]) u = Ret r t"
  shows "busy this s t"
proof -
  let ?buf = "(fill_buffer d (px_read_buffer (objs s this)))[length d := NUL]"
  let ?v = "u\<lparr>objs := (objs s)(this := (objs s this)\<lparr>px_read_buffer := ?buf\<rparr>)\<rparr>"
  let ?w = "?v\<lparr>trace := chan_event ch d # trace u\<rparr>"
  have cb: "chan_cb C ch ?buf (length d) ?w = Ret r t"
    using run more_pexec [OF u]
    by (auto simp: store_read_def terminate_buffer_def this_upd_def deliver_def this_gets_def
        note_event_def ret_iffs take_fill)
  then have c: "client this ?w t" "sel t = sel ?w"
    using presD [OF chan_cb_ok cb] presD [OF chan_cb_local cb] by auto
  then obtain es where es: "trace t = es @ chan_event ch d # trace u" "\<forall>e \<in> set es. client_event e"
    by (auto simp: client_def)
  let ?a = "fst (pipe_of PStdout this s)" and ?b = "fst (pipe_of PStderr this s)"
  have "chan_fd ch this s = (case ch of Stdout \<Rightarrow> ?a | Stderr \<Rightarrow> ?b)" by (cases ch) simp_all
  moreover have "?a \<noteq> ?b" using assms(1) by (simp add: apart_def Let_def)
  ultimately have "io_trace ?a ?b (es @ [chan_event ch d, ERead (chan_fd ch this s) d])"
    using es(2) by (intro io_trace_deliver(1)) (auto intro: client_silent)
  moreover have "trace t = (es @ [chan_event ch d, ERead (chan_fd ch this s) d]) @ trace s"
    using es(1) tr by simp
  moreover have "length ?buf = length (px_read_buffer (objs s this))"
    using len by (simp add: length_fill)
  ultimately show ?thesis
    using c more_pexec [OF u] by (auto simp: busy_def client_def kept_object_def)
qed

lemma reader_error_busy: "hold (apart this) (busy this) (reader_error K C this e)"
  unfolding reader_error_def this_gets_def
  by (rule ap.hold_seq [OF hold_pres [OF busy_process_error]] ap.hold_gets_bind hold_if
      ap.hold_simple | simp add: apart_def)+

lemma read_std_busy:
  assumes fit: "reads_fit K" and I: "apart this s"
    and run: "read_std N K C this (chan_fd ch this s) ch e s = Ret r t"
  shows "busy this s t"
proof -
  let ?n = "length (px_read_buffer (objs s this)) - 1"
  from run obtain q u where q: "read_retry N K (chan_fd ch this s) ?n s = Ret q u"
    and rest: "(case q of Inl _ \<Rightarrow> reader_error K C this e
     | Inr d \<Rightarrow> seq (store_read this d)
         (if length d = 0 then ret SKIP_OTHER_FD
          else seq (block [terminate_buffer this (length d), deliver C this ch (length d)])
                   (ret NOTHING))) u = Ret r t"
    by (auto simp: read_std_def buffer_room_def this_gets_def ret_iffs)
  note u = read_retry_Ret [OF q]
  show ?thesis
  proof (cases q)
    case (Inl x)
    with u have "busy this s u" by (auto intro: silent_busy simp: adds_def)
    moreover from this I have "apart this u" by (blast intro: busy_apart)
    ultimately show ?thesis
      using rest Inl holdD [OF reader_error_busy] by (auto intro: bz.R_trans)
  next
    case (Inr d)
    have len: "length d \<le> ?n"
      using reads_fitD [OF fit] q Inr by blast
    show ?thesis
    proof (cases "d = []")
      case True
      let ?a = "fst (pipe_of PStdout this s)" and ?b = "fst (pipe_of PStderr this s)"
      have "chan_fd ch this s = (case ch of Stdout \<Rightarrow> ?a | Stderr \<Rightarrow> ?b)" by (cases ch) simp_all
      then have "io_trace ?a ?b [ERead (chan_fd ch this s) d]"
        using I True by (intro io_trace_deliver(2) [of _ _ "[]"]) (auto simp: apart_def Let_def)
      then have "\<exists>es. trace u = es @ trace s \<and> io_trace ?a ?b es"
        using u Inr by (intro exI [of _ "[ERead (chan_fd ch this s) d]"]) simp
      then show ?thesis
        using rest Inr True u more_pexec [of u s]
        by (auto simp: store_read_def this_upd_def ret_iffs busy_def kept_object_def fill_buffer_def)
    next
      case False
      then have b: "block [store_read this d, terminate_buffer this (length d),
          deliver C this ch (length d)] u = Ret () t"
        using rest Inr by (auto simp: ret_iffs)
      show ?thesis
        using u Inr by (intro deliver_busy [OF I _ _ len b]) simp_all
    qed
  qed
qed

lemma read_channels_busy:
  assumes "reads_fit K"
  shows "hold (apart this) (busy this) (read_stdout N K C this)"
    "hold (apart this) (busy this) (read_stderr N K C this)"
  using read_std_busy [OF assms, where ch = Stdout] read_std_busy [OF assms, where ch = Stderr]
  by (auto intro!: holdI simp: read_stdout_def read_stderr_def ret_iffs)

lemma read_close_busy:
  assumes fit: "reads_fit K"
  shows "hold (apart this) (busy this) (read_close N K C this)"
proof (rule holdI)
  fix s t :: "('k, 'z) pexec_world_scheme" and r
  let ?fd = "fst (pipe_of PWatch this s)" and ?n = "length (px_read_buffer (objs s this)) - 1"
  assume I: "apart this s" and run: "read_close N K C this s = Ret r t"
  then obtain q u where q: "read_retry N K ?fd ?n s = Ret q u"
    and rest: "(case q of Inl _ \<Rightarrow> reader_error K C this WATCH_PIPE_READ_ERROR
     | Inr d \<Rightarrow>
         seq (store_read this d)
         (bind (this_gets this px_type) (\<lambda>ty.
          seq (onlyif (ty = NONBLOCKING) (user_stopped K C this)) (ret NOTHING)))) u = Ret r t"
    by (auto simp: read_close_def buffer_room_def this_gets_def ret_iffs)
  note u = read_retry_Ret [OF q]
  have su: "busy this s u"
    using I u by (intro read_other_busy [OF I, of ?fd]) (auto simp: apart_def Let_def split: sum.splits)
  show "busy this s t"
  proof (cases q)
    case (Inl x)
    then show ?thesis
      using rest su busy_apart [OF I su] holdD [OF reader_error_busy] by (auto intro: bz.R_trans)
  next
    case (Inr d)
    have "length d \<le> ?n"
      using reads_fitD [OF fit] q Inr by blast
    then have "t = u\<lparr>objs := (objs u)(this := (objs u this)\<lparr>px_read_buffer :=
          fill_buffer d (px_read_buffer (objs u this))\<rparr>)\<rparr>"
      and "length (fill_buffer d (px_read_buffer (objs u this))) = length (px_read_buffer (objs u this))"
      using rest Inr busy_apart [OF I su] u more_pexec [of u s]
      by (auto simp: store_read_def this_upd_def this_gets_def ret_iffs apart_def length_fill)
    then have "busy this u t" by (auto simp: busy_def kept_object_def io_trace_silent)
    with su show ?thesis by (rule bz.R_trans)
  qed
qed

lemma read_std_rest_busy:
  assumes fit: "reads_fit K"
  shows "apart this s \<Longrightarrow> read_std_rest m K C this (chan_fd ch this s) ch e s = Ret r t \<Longrightarrow>
    busy this s t"
proof (induction m arbitrary: s)
  case 0
  then show ?case by (simp add: ret_iffs)
next
  case (Suc m)
  let ?fd = "chan_fd ch this s" and ?n = "length (px_read_buffer (objs s this)) - 1"
  let ?more = "read_std_rest m K C this ?fd ch e"
  note I = Suc.prems(1)
  from Suc.prems(2) obtain q u where q: "sys_read K ?fd ?n (s\<lparr>errno := 0\<rparr>) = Ret q u"
    and rest: "(case q of
        Inl _ \<Rightarrow> bind (gets errno) (\<lambda>er. onlyif (er \<noteq> EINTR \<and> er \<noteq> EAGAIN) (process_error C this e))
      | Inr d \<Rightarrow>
          seq (store_read this d)
          (if length d = 0 then ?more
           else seq (terminate_buffer this (length d)) (seq (deliver C this ch (length d))
             (bind (gets errno) (\<lambda>er. if er = EINTR then ?more else skip))))) u = Ret r t"
    by (auto simp: buffer_room_def this_gets_def ret_iffs set_errno_def)
  have u: "world.more u = world.more s"
    "trace u = (case q of Inl _ \<Rightarrow> trace s | Inr d \<Rightarrow> ERead ?fd d # trace s)"
    using q by (auto simp: sys_read_def ret_iffs)
  have again: "busy this s t" if "busy this s v" and "?more v = Ret r t" for v
  proof -
    have "chan_fd ch this v = ?fd" using busy_pipes [OF that(1)] by simp
    with that Suc.IH [of v] busy_apart [OF I that(1)] have "busy this v t" by (simp del: chan_fd.simps)
    with that(1) show ?thesis by (rule bz.R_trans)
  qed
  show ?case
  proof (cases q)
    case (Inl x)
    with u have su: "busy this s u" by (auto intro: silent_busy simp: adds_def)
    have "pres (busy this) (onlyif (er \<noteq> EINTR \<and> er \<noteq> EAGAIN) (process_error C this e))" for er
      by (auto intro: bz.pres_onlyif busy_process_error)
    with rest Inl have "busy this u t" by (auto simp: ret_iffs pres_def split: if_splits)
    with su show ?thesis by (rule bz.R_trans)
  next
    case (Inr d)
    then obtain k where "k_read K ?fd ?n (kst s) = (Inr d, k)"
      using q by (auto simp: sys_read_def ret_iffs)
    with fit have len: "length d \<le> ?n" unfolding reads_fit_def by blast
    show ?thesis
    proof (cases "d = []")
      case True
      let ?a = "fst (pipe_of PStdout this s)" and ?b = "fst (pipe_of PStderr this s)"
      let ?v = "u\<lparr>objs := (objs u)(this := (objs u this)\<lparr>px_read_buffer :=
          px_read_buffer (objs u this)\<rparr>)\<rparr>"
      have "?fd = (case ch of Stdout \<Rightarrow> ?a | Stderr \<Rightarrow> ?b)" by (cases ch) simp_all
      then have "io_trace ?a ?b [ERead ?fd d]"
        using I True by (intro io_trace_deliver(2) [of _ _ "[]"]) (auto simp: apart_def Let_def)
      then have "\<exists>es. trace u = es @ trace s \<and> io_trace ?a ?b es"
        using u Inr by (intro exI [of _ "[ERead ?fd d]"]) simp
      then have "busy this s ?v"
        using u more_pexec [of u s] by (simp add: busy_def kept_object_def)
      then show ?thesis
        using rest Inr True again [of ?v]
        by (auto simp: store_read_def this_upd_def ret_iffs fill_buffer_def)
    next
      case False
      with rest Inr obtain v where
        b: "block [store_read this d, terminate_buffer this (length d),
          deliver C this ch (length d)] u = Ret () v"
        and after: "(if errno v = EINTR then ?more else skip) v = Ret r t"
        by (fastforce simp: ret_iffs simp del: chan_fd.simps)
      have "busy this s v"
        using u Inr by (intro deliver_busy [OF I _ _ len b]) simp_all
      with after again [of v] show ?thesis by (auto simp: ret_iffs split: if_splits)
    qed
  qed
qed

lemma loop_rest_io_busy:
  assumes "reads_fit K"
  shows "hold (apart this) (busy this) (loop_rest_io N K C this)"
proof -
  have "hold (apart this) (busy this) (bind (gets (pipe_of PStdout this)) (\<lambda>p.
      read_std_rest N K C this (fst p) Stdout STDOUT_PIPE_READ_REST_ERROR))"
    "hold (apart this) (busy this) (bind (gets (pipe_of PStderr this)) (\<lambda>p.
      read_std_rest N K C this (fst p) Stderr STDERR_PIPE_READ_REST_ERROR))"
    using read_std_rest_busy [OF assms, where ch = Stdout]
      read_std_rest_busy [OF assms, where ch = Stderr]
    by (auto intro!: holdI simp: ret_iffs)
  then show ?thesis
    unfolding loop_rest_io_def by (intro ap.hold_block_Cons ap.hold_block_Nil)
qed

lemma handle_proc_return_code_busy: "pres (busy this) (handle_proc_return_code C this)"
  by (auto simp: handle_proc_return_code_def intro!: bz.pres_intros pres_busy_this_gets
      busy_process_error)

lemma update_status_busy: "hold (apart this) (busy this) (update_status N K C this st)"
  unfolding update_status_def this_gets_def
  by (intro ap.hold_seq ap.hold_gets_bind ap.hold_onlyif ap.hold_block_Cons ap.hold_block_Nil
      hold_pres [OF pres_busy_this_upd] hold_pres [OF busy_signaled]
      hold_pres [OF handle_proc_return_code_busy])
     (auto simp: apart_def)

lemma wait_loop_busy: "pres (busy this) (wait_loop m K C this)"
  by (induction m)
     (auto intro!: bz.pres_intros pres_busy_sys pres_busy_this_upd pres_busy_this_gets
       busy_process_error)

lemma mask_busy: "pres (busy this) (block_sigchld K C this)" "pres (busy this) (unblock_sigchld K C this)"
  by (auto simp: block_sigchld_def unblock_sigchld_def intro!: bz.pres_intros pres_busy_sys
      pres_busy_this_gets busy_process_error)

lemma handle_sigchld_busy: "hold (apart this) (busy this) (handle_sigchld N K C this)"
  unfolding handle_sigchld_def this_gets_def
  by (intro ap.hold_seq ap.hold_gets_bind ap.hold_block_Cons ap.hold_block_Nil update_status_busy
      hold_pres mask_busy wait_loop_busy pres_busy_sys)

lemma read_signal_int_busy: "hold (apart this) (busy this) (read_signal_int m K C this got)"
proof (induction m arbitrary: got)
  case 0
  show ?case by (simp add: ap.hold_simple)
next
  case (Suc m)
  show ?case
  proof (rule holdI)
    fix s t :: "('k, 'z) pexec_world_scheme" and r
    let ?fd = "fst (pipe_of PSignal this s)"
    assume I: "apart this s" and run: "read_signal_int (Suc m) K C this got s = Ret r t"
    from run obtain q u where q: "sys_read K ?fd (4 - length got) s = Ret q u"
      and rest: "(case q of
          Inl _ \<Rightarrow> seq (process_error C this SIGNAL_PIPE_READ_ERROR) (ret got)
        | Inr d \<Rightarrow> if length (got @ d) \<noteq> 4 then read_signal_int m K C this (got @ d)
                   else ret (got @ d)) u = Ret r t"
      by (auto simp: ret_iffs)
    have "world.more u = world.more s \<and> ((\<exists>d. trace u = ERead ?fd d # trace s) \<or> trace u = trace s)"
      using q by (auto simp: sys_read_def ret_iffs)
    then have su: "busy this s u"
      using I by (intro read_other_busy [OF I, of ?fd]) (auto simp: apart_def Let_def)
    have "hold (apart this) (busy this) (case q of
          Inl _ \<Rightarrow> seq (process_error C this SIGNAL_PIPE_READ_ERROR) (ret got)
        | Inr d \<Rightarrow> if length (got @ d) \<noteq> 4 then read_signal_int m K C this (got @ d)
                   else ret (got @ d))"
      by (intro hold_sum ap.hold_seq hold_if ap.hold_simple hold_pres [OF busy_process_error] Suc)
    from holdD [OF this busy_apart [OF I su] rest] su show "busy this s t"
      by (blast intro: bz.R_trans)
  qed
qed

lemma run_closure_busy:
  assumes "reads_fit K"
  shows "hold (apart this) (busy this) (run_closure N K C this c fd)"
proof (cases c)
  case OnCloseWatch
  then show ?thesis
    using read_close_busy [OF assms]
    by (auto intro!: ap.hold_bind ap.hold_seq ap.hold_onlyif ap.hold_simple
        hold_pres [OF pres_busy_interrupt])
next
  case OnSignalPipe
  then show ?thesis
    by (auto intro!: ap.hold_bind read_signal_int_busy hold_if ap.hold_simple ap.hold_seq
        ap.hold_onlyif handle_sigchld_busy hold_pres [OF pres_busy_this_gets])
qed (use read_channels_busy [OF assms] in \<open>simp_all add: ap.hold_simple\<close>)

end

subsection \<open>The event loop\<close>

text \<open>The invariant of the loop: the control pipe is not one of the output pipes either.\<close>

definition loop_apart :: "nat \<Rightarrow> ('k, 'z) pexec_world_scheme \<Rightarrow> bool" where
  "loop_apart this s \<longleftrightarrow>
     apart this s \<and> fst (se_control_pipe (sel s)) \<noteq> fst (pipe_of PStdout this s) \<and>
     fst (se_control_pipe (sel s)) \<noteq> fst (pipe_of PStderr this s) \<and>
     (\<forall>fd. map_of (se_cbs (sel s)) fd = Some None \<longrightarrow> fd = fst (se_control_pipe (sel s)))"

lemma busy_loop_apart: "loop_apart this s \<Longrightarrow> busy this s t \<Longrightarrow> loop_apart this t"
  using busy_pipes [of this s t] busy_apart [of this s t]
  by (simp add: loop_apart_def busy_def kept_object_def)

lemma hold_loop_apart: "hold (apart this) R m \<Longrightarrow> hold (loop_apart this) R m"
  by (auto simp: hold_def loop_apart_def)

locale px_io = px_local_client C this
  for C :: "('k, 'z) pexec_world_scheme pexec_callbacks" and this :: nat +
  fixes N :: nat and K :: "'k platform"
  assumes fit: "reads_fit K"

sublocale px_io \<subseteq> loop_client "busy this" "loop_apart this" N K "io_callbacks N K C this"
proof
  fix s t :: "('k, 'z) pexec_world_scheme"
  show "loop_apart this s \<Longrightarrow> busy this s t \<Longrightarrow> loop_apart this t" by (rule busy_loop_apart)
next
  fix f :: "closure select_event \<Rightarrow> closure select_event"
  assume "\<And>e. se_cbs (f e) = se_cbs e \<and> se_control_pipe (f e) = se_control_pipe e"
  then show "pres (busy this) (upd_sel f)" by (rule pres_busy_upd_sel)
next
  fix s t :: "('k, 'z) pexec_world_scheme" and fd r
  assume I: "loop_apart this s" and fd: "map_of (se_cbs (sel s)) fd = Some None"
    and q: "read_retry N K fd 1 s = Ret r t"
  show "busy this s t"
    using I fd read_retry_Ret [OF q]
    by (intro read_other_busy [of this s fd]) (auto simp: loop_apart_def split: sum.splits)
next
  fix s :: "('k, 'z) pexec_world_scheme" and fd c
  show "hold (loop_apart this) (busy this) (lc_run (io_callbacks N K C this) c fd)"
    by (simp add: io_callbacks_def hold_loop_apart run_closure_busy [OF fit])
next
  fix g
  assume "lc_interrupt (io_callbacks N K C this) = Some g"
  then show "hold (loop_apart this) (busy this) g"
    by (auto simp: io_callbacks_def intro!: hold_pres bz.pres_intros pres_busy_this_upd)
next
  fix h
  assume "lc_error (io_callbacks N K C this) = Some h"
  then show "hold (loop_apart this) (busy this) h"
    by (auto simp: io_callbacks_def intro!: hold_pres busy_process_error)
qed (rule pres_busy_sys)+

text \<open>The default callbacks keep the contract, also on the scripted platform.\<close>

interpretation df: px_local_client default_callbacks this
proof
  fix s t :: "('k, 'z) pexec_world_scheme" and st p p'
  assume "pc_state default_callbacks st p s = Ret p' t"
  then show "client this s t \<and> ps_running p' = ps_running p \<and> ps_return_code p' = ps_return_code p"
    by (auto simp: default_callbacks_def ret_iffs cl.R_refl)
qed (auto simp: default_callbacks_def pres_def ret_iffs cl.R_refl)

lemma reads_fit_script: "reads_fit script_platform"
  by (auto simp: reads_fit_def dest: script_read_fits)

interpretation dio: px_io default_callbacks this N script_platform
  for this N :: nat
  by unfold_locales (rule reads_fit_script)

end
