(* ===== verification/Pexec_Frame.thy ===== *)
theory Pexec_Frame
  imports Pexec_Contract
begin

section \<open>What a relation needs to be respected by an object\<close>

text \<open>
  Many facts about a run have the form: a reflexive and transitive relation holds between the
  states before and after. The locales say from which steps of the class such a fact follows:
  \<open>px_steps\<close> for the preparation and the ways to stop, \<open>px_reads\<close> for the readers and
  the end of the child, \<open>px_frame\<close> for a whole \<open>exec\<close> with the event loop of the blocking
  mode. A relation is checked once against these few steps, and holds for every operation.
\<close>

text \<open>Events that are not calls of the user's callbacks.\<close>

definition unreported :: "event \<Rightarrow> bool" where
  "unreported e \<longleftrightarrow>
     (case e of EState st p \<Rightarrow> False | EError er \<Rightarrow> False | EOut d \<Rightarrow> False | EErr d \<Rightarrow> False
      | _ \<Rightarrow> True)"

lemma unreported_simps [simp]:
  "unreported (ERead fd d)" "unreported (EWrite fd d)" "unreported (EPipe a b)"
  "unreported (EClose fd)" "unreported (EFork pid)" "unreported (EWait p st)"
  "unreported (EKill p sig)" "unreported (ESigaction h)" "unreported (EMask how)"
  "unreported (ESetfl fd fl)" "unreported (EDup2 a b)" "unreported (ECall fd)"
  "\<not> unreported (EState ps q)" "\<not> unreported (EError er)" "\<not> unreported (EOut d)"
  "\<not> unreported (EErr d)"
  by (simp_all add: unreported_def)

locale px_steps = step_rel R
  for R :: "('k, 'z) pexec_world_scheme \<Rightarrow> ('k, 'z) pexec_world_scheme \<Rightarrow> bool" +
  fixes C :: "('k, 'z) pexec_world_scheme pexec_callbacks" and this :: nat
  assumes R_adds: "adds unreported s t \<Longrightarrow> R s t"
    and R_object: "px_type x = px_type (objs s this) \<Longrightarrow> R s (s\<lparr>objs := (objs s)(this := x)\<rparr>)"
    and R_signal_pipe: "R s (s\<lparr>sigchld_blocking_pipe_signal := p\<rparr>)"
    and R_error: "pres R (process_error C this e)"
    and R_state: "pres R (call_state C this st)"
begin

lemma pres_sys: "pres (adds unreported) m \<Longrightarrow> pres R m"
  by (rule pres_mono [OF _ R_adds])

lemma R_sys:
  "pres R (sys_read K fd n)" "pres R (sys_write K fd d)" "pres R (sys_pipe2 K flags)"
  "pres R (sys_select K nfds fds)" "pres R (sys_fork K)" "pres R (sys_waitpid K pid)"
  "pres R (sys_sigaction K h)" "pres R (sys_sigprocmask K how sigs)"
  "pres R (sys_dup2 K old new)" "pres R (sys_execvp K argv)"
  "pres R (read_retry m K fd n)" "pres R (close_pipe K p)"
  "pres R (set_errno e)" "pres R (note_event (ECall fd))" "pres R (fd_unset_nonblock K fd)"
  by (auto intro!: pres_sys util_intros)

lemma R_this:
  "(\<And>x. px_type (f x) = px_type x) \<Longrightarrow> pres R (this_upd this f)" "pres R (this_gets this g)"
  by (auto simp: this_upd_def this_gets_def intro!: pres_upd R_object pres_gets)

lemma R_set_pipe: "pres R (set_pipe n this p)"
  by (cases n) (auto intro!: R_this pres_upd R_signal_pipe)

lemmas step_intros = pres_intros R_this R_sys R_set_pipe R_error R_state

lemma R_members: "pres R (close_member K this n)" "pres R (open_member K this n flags)"
  by (auto simp: close_member_def open_member_def intro!: step_intros)

lemma R_close_fork_pipes: "pres R (close_fork_pipes K this)"
  unfolding close_fork_pipes_def by (intro step_intros R_members | simp)+

lemma R_stops:
  "pres R (fail_stopped K C this)" "pres R (user_stopped K C this)" "pres R (give_up K C this e)"
  unfolding fail_stopped_def user_stopped_def give_up_def
  by (intro step_intros R_close_fork_pipes | simp)+

lemma R_prepare:
  "pres R (prepare_args K C this)" "pres R (prepare_signal_set this)"
  "pres R (prepare_fork_pipes K C this)"
  unfolding prepare_args_def prepare_signal_set_def prepare_fork_pipes_def Let_def
  by (intro step_intros R_members R_stops | simp)+

lemma R_handler:
  "pres R (set_sigchld_signal_handler K C this)" "pres R (reset_sigchld_signal_handler K C this)"
  unfolding set_sigchld_signal_handler_def reset_sigchld_signal_handler_def
  by (intro step_intros R_stops | simp)+

lemma R_mask:
  fixes K :: "'k platform"
  shows "pres R (block_sigchld K C this)" "pres R (unblock_sigchld K C this)"
  unfolding block_sigchld_def unblock_sigchld_def
  by (intro step_intros | simp)+

lemma R_spawn_proc: "pres R (spawn_proc K C this)"
  unfolding spawn_proc_def child_branch_def child_prepare_def child_unset_def child_dup_def
  by (intro step_intros R_stops R_members | simp)+

lemma R_wait_loop: "pres R (wait_loop m K C this)"
  by (induction m) (auto intro!: step_intros)

lemma R_read_signal_int: "pres R (read_signal_int m K C this got)"
  by (induction m arbitrary: got) (auto intro!: step_intros)

lemma R_reader_error: "pres R (reader_error K C this e)"
  unfolding reader_error_def by (intro step_intros R_stops | simp)+

lemma R_store_read: "pres R (store_read this d)"
  unfolding store_read_def by (rule R_this) simp

end

subsection \<open>Reading\<close>

locale px_reads = px_steps R C this
  for R :: "('k, 'z) pexec_world_scheme \<Rightarrow> ('k, 'z) pexec_world_scheme \<Rightarrow> bool"
    and C this +
  fixes K :: "'k platform"
  assumes fit: "reads_fit K"
    and R_deliver: "n < length (px_read_buffer (objs s this)) \<Longrightarrow>
      seq (terminate_buffer this n) (deliver C this ch n) s = Ret r t \<Longrightarrow> R s t"
begin

text \<open>Bytes that were asked for with room for the terminator are stored and delivered.\<close>

lemma R_store_deliver:
  assumes "length d \<le> length (px_read_buffer (objs s this)) - 1" and "d \<noteq> []"
    and run: "seq (store_read this d)
      (seq (terminate_buffer this (length d)) (deliver C this ch (length d))) s = Ret r t"
  shows "R s t"
proof -
  obtain v where v: "store_read this d s = Ret () v"
    and rest: "seq (terminate_buffer this (length d)) (deliver C this ch (length d)) v = Ret r t"
    using run by (subst (asm) seq_Ret) auto
  have "length (px_read_buffer (objs v this)) = length (px_read_buffer (objs s this))"
    using v assms(1) by (auto simp: store_read_def this_upd_def ret_iffs length_fill)
  moreover have "0 < length d" using assms(2) by simp
  ultimately have "length d < length (px_read_buffer (objs v this))" using assms(1) by linarith
  from R_deliver [OF this rest] presD [OF R_store_read v] show ?thesis by (blast intro: R_trans)
qed

lemma R_read_std: "pres R (read_std N K C this fd ch e)"
proof (rule presI)
  fix s t :: "('k, 'z) pexec_world_scheme" and r
  let ?n = "length (px_read_buffer (objs s this)) - 1"
  assume "read_std N K C this fd ch e s = Ret r t"
  then obtain q u where q: "read_retry N K fd ?n s = Ret q u"
    and rest: "(case q of Inl _ \<Rightarrow> reader_error K C this e
     | Inr d \<Rightarrow> seq (store_read this d)
         (if length d = 0 then ret SKIP_OTHER_FD
          else seq (block [terminate_buffer this (length d), deliver C this ch (length d)])
                   (ret NOTHING))) u = Ret r t"
    by (auto simp: read_std_def buffer_room_def this_gets_def ret_iffs)
  have su: "R s u" by (rule presD [OF R_sys(11) q])
  show "R s t"
  proof (cases q)
    case (Inl x)
    with rest su presD [OF R_reader_error] show ?thesis by (auto intro: R_trans)
  next
    case (Inr d)
    have "objs u = objs s"
      using read_retry_Ret [OF q] more_pexec by blast
    then have len: "length d \<le> length (px_read_buffer (objs u this)) - 1"
      using reads_fitD [OF fit] q Inr by fastforce
    show ?thesis
    proof (cases "d = []")
      case True
      have "pres R (seq (store_read this []) (ret SKIP_OTHER_FD))"
        by (intro step_intros R_store_read | simp)+
      with rest Inr True su show ?thesis by (auto dest!: presD intro: R_trans)
    next
      case False
      then have "seq (store_read this d)
        (seq (terminate_buffer this (length d)) (deliver C this ch (length d))) u = Ret () t"
        using rest Inr by (auto simp: ret_iffs)
      from R_store_deliver [OF len False this] su show ?thesis by (blast intro: R_trans)
    qed
  qed
qed

lemma R_read_channels: "pres R (read_stdout N K C this)" "pres R (read_stderr N K C this)"
  unfolding read_stdout_def read_stderr_def by (intro step_intros R_read_std | simp)+

lemma R_read_close: "pres R (read_close N K C this)"
  unfolding read_close_def buffer_room_def
  by (intro step_intros R_reader_error R_store_read R_stops | simp)+

lemma R_read_std_rest: "pres R (read_std_rest m K C this fd ch e)"
proof (induction m)
  case 0
  show ?case by (simp add: pres_spin)
next
  case (Suc m)
  show ?case
  proof (rule presI)
    fix s t :: "('k, 'z) pexec_world_scheme" and r
    let ?n = "length (px_read_buffer (objs s this)) - 1"
    let ?more = "read_std_rest m K C this fd ch e"
    assume "read_std_rest (Suc m) K C this fd ch e s = Ret r t"
    then obtain q u where q: "sys_read K fd ?n (s\<lparr>errno := 0\<rparr>) = Ret q u"
      and rest: "(case q of
          Inl _ \<Rightarrow> bind (gets errno) (\<lambda>er. onlyif (er \<noteq> EINTR \<and> er \<noteq> EAGAIN) (process_error C this e))
        | Inr d \<Rightarrow>
            seq (store_read this d)
            (if length d = 0 then ?more
             else seq (terminate_buffer this (length d)) (seq (deliver C this ch (length d))
               (bind (gets errno) (\<lambda>er. if er = EINTR then ?more else skip))))) u = Ret r t"
      by (auto simp: buffer_room_def this_gets_def ret_iffs set_errno_def)
    have "adds unreported s (s\<lparr>errno := 0\<rparr>)" by (simp add: adds_def)
    with presD [OF R_sys(1) q] have su: "R s u" by (blast intro: R_adds R_trans)
    show "R s t"
    proof (cases q)
      case (Inl x)
      have "pres R (bind (gets errno) (\<lambda>er.
          onlyif (er \<noteq> EINTR \<and> er \<noteq> EAGAIN) (process_error C this e)))"
        by (intro step_intros | simp)+
      with rest Inl su show ?thesis by (auto dest!: presD intro: R_trans)
    next
      case (Inr d)
      have "objs u = objs s" and "length d \<le> ?n"
        using q Inr fit unfolding reads_fit_def by (auto simp: sys_read_def ret_iffs) blast
      then have len: "length d \<le> length (px_read_buffer (objs u this)) - 1" by simp
      show ?thesis
      proof (cases "d = []")
        case True
        have "pres R (seq (store_read this []) ?more)" by (intro step_intros R_store_read Suc | simp)+
        with rest Inr True su show ?thesis by (auto dest!: presD intro: R_trans)
      next
        case False
        with rest Inr obtain v where
          "seq (store_read this d)
            (seq (terminate_buffer this (length d)) (deliver C this ch (length d))) u = Ret () v"
          and v: "(if errno v = EINTR then ?more else skip) v = Ret r t"
          by (fastforce simp: ret_iffs)
        from R_store_deliver [OF len False this(1)] su have "R s v" by (blast intro: R_trans)
        moreover have "R v t"
          using v Suc by (auto simp: ret_iffs R_refl dest: presD split: if_splits)
        ultimately show ?thesis by (rule R_trans)
      qed
    qed
  qed
qed

lemma R_stopped: "pres R (stopped N K C this)"
  unfolding stopped_def loop_rest_io_def
  by (intro step_intros R_read_std_rest R_close_fork_pipes | simp)+

lemma R_update_status: "pres R (update_status N K C this st)"
  unfolding update_status_def handle_proc_return_code_def by (intro step_intros R_stopped | simp)+

lemma R_handle_sigchld: "pres R (handle_sigchld N K C this)"
  unfolding handle_sigchld_def by (intro step_intros R_mask R_wait_loop R_update_status | simp)+

end

subsection \<open>A whole run\<close>

locale px_frame = px_reads R C this K
  for R :: "('k, 'z) pexec_world_scheme \<Rightarrow> ('k, 'z) pexec_world_scheme \<Rightarrow> bool"
    and C this and K :: "'k platform" +
  assumes R_sel: "R s (s\<lparr>sel := e\<rparr>)"
begin

lemma R_upd_sel: "pres R (upd_sel f)"
  unfolding upd_sel_def by (intro pres_upd R_sel | simp)+

lemma R_select:
  "pres R (se_construct K)" "pres R (se_destruct K)" "pres R (se_interrupt K)"
  "pres R (se_add_read_event K fd cb)"
  by (auto simp: se_construct_def se_destruct_def se_interrupt_def se_add_read_event_def
      intro!: step_intros R_upd_sel)

lemma R_run_closure: "pres R (run_closure N K C this c fd)"
  by (cases c) (auto intro!: step_intros R_read_close R_read_channels R_select R_read_signal_int
      R_handle_sigchld)

end

sublocale px_frame \<subseteq> lp: loop_client R "\<lambda>_. True" N K "io_callbacks N K C this"
  for N :: nat
proof
  fix f :: "closure select_event \<Rightarrow> closure select_event"
  show "pres R (upd_sel f)" by (rule R_upd_sel)
next
  show "hold (\<lambda>_. True) R (lc_run (io_callbacks N K C this) c fd)" for c fd
    by (simp add: io_callbacks_def hold_pres R_run_closure)
next
  show "lc_interrupt (io_callbacks N K C this) = Some g \<Longrightarrow> hold (\<lambda>_. True) R g" for g
    by (auto simp: io_callbacks_def intro!: hold_pres step_intros)
next
  show "lc_error (io_callbacks N K C this) = Some h \<Longrightarrow> hold (\<lambda>_. True) R h" for h
    by (auto simp: io_callbacks_def intro!: hold_pres step_intros)
next
  show "read_retry N K fd 1 s = Ret r t \<Longrightarrow> R s t" for fd s r t
    by (rule presD [OF R_sys(11)])
qed (simp | rule R_sys)+

context px_frame begin

lemma R_se_loop: "pres R (se_loop N K (io_callbacks N K C this))"
  using lp.hold_se_loop by (simp add: hold_def pres_def)

lemma R_loop_io: "pres R (loop_io N K C this)"
  unfolding loop_io_def watch_member_def by (intro step_intros R_select R_se_loop | simp)+

lemma R_exec_started: "pres R (exec_started N K C this)"
  unfolding exec_started_def by (intro step_intros R_loop_io R_handler R_stops R_stopped | simp)+

lemma R_exec: "pres R (pexec_exec N K C this arg)"
  unfolding pexec_exec_def
  by (intro step_intros R_prepare R_handler R_spawn_proc R_exec_started | simp)+

end

end
