(* ===== verification/Pexec_Trace.thy ===== *)
theory Pexec_Trace
  imports Pexec_Frame
begin

section \<open>Traces only grow\<close>

text \<open>
  Whatever an object does, with callbacks under the contract, it only adds events to the
  trace. So a hypothesis about the whole trace, like \<open>fresh_pipes\<close>, holds at every moment
  of a run; and lists of events that are mere plumbing can be left out of what a run reported.
\<close>

definition extends :: "('k, 'z) world_scheme \<Rightarrow> ('k, 'z) world_scheme \<Rightarrow> bool" where
  "extends s t \<longleftrightarrow> (\<exists>es. trace t = es @ trace s)"

interpretation ex: step_rel "extends :: ('k, 'z) world_scheme \<Rightarrow> _"
  by unfold_locales (auto simp: extends_def)

lemma extends_fresh: "extends s t \<Longrightarrow> fresh_pipes (trace t) \<Longrightarrow> fresh_pipes (trace s)"
  by (auto simp: extends_def intro: fresh_pipes_append)

lemma pres_extends_note: "pres extends (note_event ev)"
  by (auto simp: note_event_def extends_def intro!: pres_upd)

lemma pres_extends_this_upd: "pres extends (this_upd this f)"
  by (auto simp: this_upd_def extends_def intro!: pres_upd)

lemma client_extends: "client this s t \<Longrightarrow> extends s t"
  by (auto simp: client_def extends_def)

context px_client begin

lemma ext_callbacks:
  "pres extends (pc_stdout C buf n)" "pres extends (pc_stderr C buf n)"
  "pres extends (pc_error C e)" "pres extends (pc_state C st p)"
  using stdout_ok stderr_ok error_ok state_ok
  by (auto simp: pres_def intro!: client_extends [of this])

lemma ext_deliver: "pres extends (seq (terminate_buffer this n) (deliver C this ch n))"
  unfolding terminate_buffer_def deliver_def this_gets_def
  by (cases ch)
     (auto intro!: ex.pres_intros pres_extends_note pres_extends_this_upd ext_callbacks)

end

sublocale px_client \<subseteq> ext: px_steps extends C this
proof
  show "adds unreported s t \<Longrightarrow> extends s t" for s t :: "('k, 'z) pexec_world_scheme"
    by (auto simp: adds_def extends_def)
  show "pres extends (process_error C this e)" for e
    unfolding process_error_def
    by (intro ex.pres_intros pres_extends_note pres_extends_this_upd ext_callbacks)
  show "pres extends (call_state C this st)" for st
    unfolding call_state_def this_gets_def
    by (intro ex.pres_intros pres_extends_note pres_extends_this_upd ext_callbacks)
qed (simp_all add: extends_def)

sublocale px_io \<subseteq> ext: px_frame extends C this K
proof
  show "seq (terminate_buffer this n) (deliver C this ch n) s = Ret r t \<Longrightarrow> extends s t"
    for n ch s r t by (rule presD [OF ext_deliver])
qed (simp_all add: fit extends_def)

subsection \<open>The mode of an object\<close>

text \<open>An object stays in the mode it was put in.\<close>

definition same_mode :: "nat \<Rightarrow> ('k, 'z) pexec_world_scheme \<Rightarrow> ('k, 'z) pexec_world_scheme \<Rightarrow> bool" where
  "same_mode this s t \<longleftrightarrow> px_type (objs t this) = px_type (objs s this)"

interpretation sm: step_rel "same_mode this"
  by unfold_locales (simp_all add: same_mode_def)

context px_client begin

lemma mode_callbacks:
  "pres (same_mode this) (pc_stdout C buf n)" "pres (same_mode this) (pc_stderr C buf n)"
  "pres (same_mode this) (pc_error C e)" "pres (same_mode this) (pc_state C st p)"
  using stdout_ok stderr_ok error_ok state_ok by (auto simp: pres_def same_mode_def client_def)

lemma mode_steps:
  "pres (same_mode this) (note_event e)"
  "(\<And>x. px_type (f x) = px_type x) \<Longrightarrow> pres (same_mode this) (this_upd this f)"
  by (auto simp: note_event_def this_upd_def same_mode_def intro!: pres_upd)

end

sublocale px_io \<subseteq> sm: px_frame "same_mode this" C this K
proof
  show "adds unreported s t \<Longrightarrow> same_mode this s t" for s t :: "('k, 'z) pexec_world_scheme"
    using more_pexec [of t s] by (auto simp: adds_def same_mode_def)
  show "pres (same_mode this) (process_error C this e)" for e
    unfolding process_error_def by (intro sm.pres_intros mode_steps mode_callbacks | simp)+
  show "pres (same_mode this) (call_state C this st)" for st
    unfolding call_state_def this_gets_def
    by (intro sm.pres_intros mode_steps mode_callbacks | simp)+
  have "pres (same_mode this) (seq (terminate_buffer this n) (deliver C this ch n))" for n ch
    unfolding terminate_buffer_def deliver_def this_gets_def
    by (cases ch; (simp, intro sm.pres_intros mode_steps mode_callbacks | simp)+)
  then show "seq (terminate_buffer this n) (deliver C this ch n) s = Ret r t \<Longrightarrow> same_mode this s t"
    for n ch s r t by (rule presD)
qed (simp_all add: fit same_mode_def)

end
