(* ===== verification/Pexec_Pipes.thy ===== *)
theory Pexec_Pipes
  imports Pexec_Trace
begin

section \<open>Who owns the descriptors\<close>

text \<open>
  \<open>owns B this s\<close>: of the descriptors the library has open, the object owns those in its
  four pipes, and in the global pipe when it is in the blocking mode; all others are in
  \<open>B\<close>; no descriptor stands in two places; and every \<open>close\<close> so far was of an open
  descriptor. Opening a closed pipe, closing one, and reporting keep this, so an object that
  has closed all its pipes has leaked nothing.
\<close>

subsection \<open>Plumbing\<close>

definition plumbing :: "event \<Rightarrow> bool" where
  "plumbing e \<longleftrightarrow> client_event e \<or> (case e of EClose fd \<Rightarrow> True | EPipe a b \<Rightarrow> True | _ \<Rightarrow> False)"

lemma plumbing_simps [simp]:
  "plumbing (EClose fd)" "plumbing (EPipe a b)" "client_event e \<Longrightarrow> plumbing e"
  by (simp_all add: plumbing_def)

lemma plumbing_projections:
  "\<forall>e \<in> set es. plumbing e \<Longrightarrow>
     states_of es = [] \<and> errors_of es = [] \<and> out_of es = [] \<and> err_of es = [] \<and>
     forks_of es = [] \<and> handlers_of es = [] \<and> read_from fd es = []"
  by (induction es) (auto simp: plumbing_def client_event_def split: event.splits)

lemma client_opens:
  "\<forall>e \<in> set es. client_event e \<Longrightarrow>
     open_fds (es @ t) = open_fds t \<and> closes_own (es @ t) = closes_own t"
  by (induction es) (auto simp: client_event_def split: event.splits)

lemma plumbing_close_events: "\<forall>e \<in> set (close_events p). plumbing e"
  by (auto simp: close_events_def)

subsection \<open>Reports\<close>

context px_client begin

lemma process_error_Ret:
  assumes "process_error C this e s = Ret r t"
  shows "\<exists>es. trace t = es @ EError e # trace s \<and> (\<forall>x \<in> set es. client_event x) \<and>
    kept_object (objs s this) (objs t this) \<and> px_state (objs t this) = e \<and>
    px_user_stopped (objs t this) = px_user_stopped (objs s this) \<and>
    sigchld_blocking_pipe_signal t = sigchld_blocking_pipe_signal s \<and>
    se_control_pipe (sel t) = se_control_pipe (sel s)"
proof -
  let ?s = "s\<lparr>trace := EError e # trace s\<rparr>"
  from assms obtain u where u: "pc_error C e ?s = Ret () u"
    and t: "t = u\<lparr>objs := (objs u)(this := (objs u this)\<lparr>px_state := e\<rparr>)\<rparr>"
    by (auto simp: process_error_def note_event_def this_upd_def ret_iffs)
  from presD [OF error_ok u] show ?thesis
    using t by (auto simp: client_def kept_object_def)
qed

lemma call_state_Ret:
  assumes "call_state C this st s = Ret r t"
  shows "\<exists>es. trace t = es @ EState st (px_proc (objs s this)) # trace s \<and>
    (\<forall>x \<in> set es. client_event x) \<and> kept_object (objs s this) (objs t this) \<and>
    px_state (objs t this) = px_state (objs s this) \<and>
    px_user_stopped (objs t this) = px_user_stopped (objs s this) \<and>
    ps_running (px_proc (objs t this)) = ps_running (px_proc (objs s this)) \<and>
    ps_return_code (px_proc (objs t this)) = ps_return_code (px_proc (objs s this)) \<and>
    sigchld_blocking_pipe_signal t = sigchld_blocking_pipe_signal s \<and>
    se_control_pipe (sel t) = se_control_pipe (sel s)"
proof -
  let ?p = "px_proc (objs s this)"
  let ?s = "s\<lparr>trace := EState st ?p # trace s\<rparr>"
  from assms obtain p' u where u: "pc_state C st ?p ?s = Ret p' u"
    and t: "t = u\<lparr>objs := (objs u)(this := (objs u this)\<lparr>px_proc := p'\<rparr>)\<rparr>"
    by (auto simp: call_state_def note_event_def this_upd_def this_gets_def ret_iffs)
  from state_ok [OF u] show ?thesis
    using t by (auto simp: client_def kept_object_def)
qed

end

subsection \<open>Pipes\<close>

definition fds_of :: "int \<times> int \<Rightarrow> int set" where
  "fds_of p = {fd. 0 \<le> fd \<and> (fd = fst p \<or> fd = snd p)}"

definition owned_names :: "px_type \<Rightarrow> pipe_name set" where
  "owned_names ty = (if ty = BLOCKING then UNIV else - {PSignal})"

abbreviation names :: "nat \<Rightarrow> ('k, 'z) pexec_world_scheme \<Rightarrow> pipe_name set" where
  "names this s \<equiv> owned_names (px_type (objs s this))"

definition own_fds :: "nat \<Rightarrow> ('k, 'z) pexec_world_scheme \<Rightarrow> int set" where
  "own_fds this s = (\<Union>n \<in> names this s. fds_of (pipe_of n this s))"

definition owns :: "int set \<Rightarrow> nat \<Rightarrow> ('k, 'z) pexec_world_scheme \<Rightarrow> bool" where
  "owns B this s \<longleftrightarrow>
     open_fds (trace s) = B \<union> own_fds this s \<and> B \<inter> own_fds this s = {} \<and>
     (\<forall>n \<in> names this s. \<forall>m \<in> names this s. n \<noteq> m \<longrightarrow>
        fds_of (pipe_of n this s) \<inter> fds_of (pipe_of m this s) = {}) \<and>
     (\<forall>n \<in> names this s. 0 \<le> fst (pipe_of n this s) \<longrightarrow>
        fst (pipe_of n this s) \<noteq> snd (pipe_of n this s)) \<and>
     closes_own (trace s)"

definition idle :: "nat \<Rightarrow> ('k, 'z) pexec_world_scheme \<Rightarrow> bool" where
  "idle this s \<longleftrightarrow> (\<forall>n \<in> names this s. fds_of (pipe_of n this s) = {})"

lemma owns_disjoint:
  "owns B this s \<Longrightarrow> n \<in> names this s \<Longrightarrow> m \<in> names this s \<Longrightarrow> n \<noteq> m \<Longrightarrow>
   fds_of (pipe_of n this s) \<inter> fds_of (pipe_of m this s) = {}"
  unfolding owns_def by blast

lemma idle_owns: "idle this s \<Longrightarrow> closes_own (trace s) \<Longrightarrow> owns (open_fds (trace s)) this s"
  by (fastforce simp: idle_def owns_def own_fds_def fds_of_def)

lemma owns_idle: "owns B this s \<Longrightarrow> idle this s \<Longrightarrow> open_fds (trace s) = B \<and> closes_own (trace s)"
  by (auto simp: owns_def idle_def own_fds_def)

text \<open>The state after a pipe has been replaced.\<close>

lemma set_pipe_Ret:
  assumes "set_pipe n this p s = Ret r t"
  shows "pipe_of n this t = p" "m \<noteq> n \<Longrightarrow> pipe_of m this t = pipe_of m this s"
    "trace t = trace s" "px_type (objs t this) = px_type (objs s this)" "sel t = sel s"
    "px_proc (objs t this) = px_proc (objs s this)" "kst t = kst s"
    "px_user_stopped (objs t this) = px_user_stopped (objs s this)"
    "px_sa_prev (objs t this) = px_sa_prev (objs s this)"
    "length (px_read_buffer (objs t this)) = length (px_read_buffer (objs s this))"
    "px_args_c (objs t this) = px_args_c (objs s this)"
    "px_state (objs t this) = px_state (objs s this)"
  using assms by (cases n; cases m; auto simp: this_upd_def ret_iffs)+

text \<open>What does not change when pipes do.\<close>

definition kept_rest ::
  "nat \<Rightarrow> ('k, 'z) pexec_world_scheme \<Rightarrow> ('k, 'z) pexec_world_scheme \<Rightarrow> bool" where
  "kept_rest this s t \<longleftrightarrow>
     px_type (objs t this) = px_type (objs s this) \<and>
     px_user_stopped (objs t this) = px_user_stopped (objs s this) \<and>
     px_sa_prev (objs t this) = px_sa_prev (objs s this) \<and>
     length (px_read_buffer (objs t this)) = length (px_read_buffer (objs s this)) \<and>
     px_args_c (objs t this) = px_args_c (objs s this) \<and>
     px_proc (objs t this) = px_proc (objs s this) \<and>
     px_state (objs t this) = px_state (objs s this) \<and> sel t = sel s"

lemma close_member_Ret:
  assumes "close_member K this n s = Ret r t"
  shows "pipe_of n this t =
      (closed_fd (fst (pipe_of n this s)), closed_fd (snd (pipe_of n this s)))"
    "\<And>m. m \<noteq> n \<Longrightarrow> pipe_of m this t = pipe_of m this s"
    "trace t = close_events (pipe_of n this s) @ trace s" "kept_rest this s t"
proof -
  from assms obtain p u where c: "close_pipe K (pipe_of n this s) s = Ret p u"
    and p: "set_pipe n this p u = Ret r t"
    by (auto simp: close_member_def ret_iffs)
  note c' = close_pipe_Ret [OF c] and p' = set_pipe_Ret [OF p]
  have "pipe_of m this u = pipe_of m this s" for m
    using more_pexec [of u s] c' by (cases m) auto
  with c' p' more_pexec [of u s]
  show "pipe_of n this t =
      (closed_fd (fst (pipe_of n this s)), closed_fd (snd (pipe_of n this s)))"
    "\<And>m. m \<noteq> n \<Longrightarrow> pipe_of m this t = pipe_of m this s"
    "trace t = close_events (pipe_of n this s) @ trace s" "kept_rest this s t"
    by (auto simp: kept_rest_def)
qed

lemma open_member_Ret:
  assumes "open_member K this n flags s = Ret ok t"
  shows "if ok then trace t = EPipe (fst (pipe_of n this t)) (snd (pipe_of n this t)) # trace s
     else trace t = trace s \<and> pipe_of n this t = pipe_of n this s"
    "\<And>m. m \<noteq> n \<Longrightarrow> pipe_of m this t = pipe_of m this s" "kept_rest this s t"
proof -
  from assms obtain q u where q: "sys_pipe2 K flags s = Ret q u"
    and rest: "(case q of Inl _ \<Rightarrow> ret False | Inr p \<Rightarrow> seq (set_pipe n this p) (ret True)) u = Ret ok t"
    by (auto simp: open_member_def ret_iffs)
  note u = sys_pipe2_Ret [OF q]
  have same: "pipe_of m this u = pipe_of m this s" for m
    using more_pexec [of u s] u by (cases m) auto
  have "(if ok then trace t = EPipe (fst (pipe_of n this t)) (snd (pipe_of n this t)) # trace s
      else trace t = trace s \<and> pipe_of n this t = pipe_of n this s) \<and>
    (\<forall>m. m \<noteq> n \<longrightarrow> pipe_of m this t = pipe_of m this s) \<and> kept_rest this s t"
  proof (cases q)
    case (Inl e)
    with rest u same more_pexec [of u s] show ?thesis by (auto simp: ret_iffs kept_rest_def)
  next
    case (Inr ab)
    with rest obtain w where w: "set_pipe n this ab u = Ret () w" "t = w" "ok"
      by (auto simp: ret_iffs)
    then show ?thesis
      using Inr u same more_pexec [of u s] set_pipe_Ret [OF w(1)]
      by (cases ab) (auto simp: kept_rest_def)
  qed
  then show "if ok then trace t = EPipe (fst (pipe_of n this t)) (snd (pipe_of n this t)) # trace s
     else trace t = trace s \<and> pipe_of n this t = pipe_of n this s"
    "\<And>m. m \<noteq> n \<Longrightarrow> pipe_of m this t = pipe_of m this s" "kept_rest this s t"
    by auto
qed

subsection \<open>Ownership is kept\<close>

lemma closed_fds [simp]: "fds_of (closed_fd a, closed_fd b) = {}"
  by (auto simp: fds_of_def)

lemma own_fds_split:
  assumes "n \<in> names this s"
  shows "own_fds this s = fds_of (pipe_of n this s) \<union>
    (\<Union>m \<in> names this s - {n}. fds_of (pipe_of m this s))"
  using assms by (auto simp: own_fds_def)

lemma own_fds_others:
  assumes "\<And>m. m \<noteq> n \<Longrightarrow> pipe_of m this t = pipe_of m this s"
    and "px_type (objs t this) = px_type (objs s this)"
  shows "(\<Union>m \<in> names this t - {n}. fds_of (pipe_of m this t)) =
    (\<Union>m \<in> names this s - {n}. fds_of (pipe_of m this s))"
  using assms by auto

lemma owns_replace:
  assumes o: "owns B this s" and n: "n \<in> names this s"
    and others: "\<And>m. m \<noteq> n \<Longrightarrow> pipe_of m this t = pipe_of m this s"
    and ty: "px_type (objs t this) = px_type (objs s this)"
    and opn: "open_fds (trace t) =
      open_fds (trace s) - fds_of (pipe_of n this s) \<union> fds_of (pipe_of n this t)"
    and new: "fds_of (pipe_of n this t) \<inter> open_fds (trace s) = {}"
    and diff: "0 \<le> fst (pipe_of n this t) \<longrightarrow> fst (pipe_of n this t) \<noteq> snd (pipe_of n this t)"
    and cl: "closes_own (trace t)"
  shows "owns B this t"
proof -
  let ?rest = "\<Union>m \<in> names this s - {n}. fds_of (pipe_of m this s)"
  have s: "own_fds this s = fds_of (pipe_of n this s) \<union> ?rest"
    by (rule own_fds_split [OF n])
  have t: "own_fds this t = fds_of (pipe_of n this t) \<union> ?rest"
    using own_fds_split [where n = n and this = this and s = t] own_fds_others [OF others ty] n ty by simp
  have disj: "fds_of (pipe_of n this s) \<inter> ?rest = {}"
  proof -
    have "fds_of (pipe_of n this s) \<inter> fds_of (pipe_of m this s) = {}"
      if "m \<in> names this s - {n}" for m
      using that by (intro owns_disjoint [OF o n]) auto
    then show ?thesis by blast
  qed
  have o': "open_fds (trace s) = B \<union> own_fds this s" "B \<inter> own_fds this s = {}"
    using o by (auto simp: owns_def)
  have "fds_of (pipe_of m this t) \<inter> fds_of (pipe_of k this t) = {}"
    if mk: "m \<in> names this t" "k \<in> names this t" "m \<noteq> k" for m k
  proof -
    have *: "fds_of (pipe_of m this s) \<subseteq> open_fds (trace s)" if "m \<in> names this s" for m
      using that o' by (auto simp: own_fds_def)
    show ?thesis
    proof (cases "m = n \<or> k = n")
      case True
      with mk others * [of m] * [of k] new ty show ?thesis by auto
    next
      case False
      with mk others ty owns_disjoint [OF o, of m k] show ?thesis by simp
    qed
  qed
  moreover have "0 \<le> fst (pipe_of m this t) \<longrightarrow> fst (pipe_of m this t) \<noteq> snd (pipe_of m this t)"
    if "m \<in> names this t" for m
    using that diff others o ty by (cases "m = n") (auto simp: owns_def)
  moreover have "open_fds (trace t) = B \<union> own_fds this t" "B \<inter> own_fds this t = {}"
    using opn o' new disj unfolding s t by auto
  ultimately show ?thesis using cl by (simp add: owns_def)
qed

lemma owns_open:
  assumes o: "owns B this s" and run: "open_member K this n flags s = Ret ok t"
    and n: "n \<in> names this s" and "fds_of (pipe_of n this s) = {}" and "fresh_pipes (trace t)"
  shows "owns B this t"
proof (rule owns_replace [OF o n])
  note r = open_member_Ret [OF run]
  show "m \<noteq> n \<Longrightarrow> pipe_of m this t = pipe_of m this s" for m by (rule r(2))
  show "px_type (objs t this) = px_type (objs s this)" using r(3) by (simp add: kept_rest_def)
  show "open_fds (trace t) =
      open_fds (trace s) - fds_of (pipe_of n this s) \<union> fds_of (pipe_of n this t)"
    using r(1) assms(4,5) by (auto simp: fds_of_def split: if_splits)
  show "fds_of (pipe_of n this t) \<inter> open_fds (trace s) = {}"
    using r(1) assms(4,5) by (auto simp: fds_of_def split: if_splits)
  show "0 \<le> fst (pipe_of n this t) \<longrightarrow> fst (pipe_of n this t) \<noteq> snd (pipe_of n this t)"
    using r(1) assms(5) o n by (auto simp: owns_def split: if_splits)
  show "closes_own (trace t)" using r(1) o by (auto simp: owns_def split: if_splits)
qed

lemma owns_close:
  assumes o: "owns B this s" and run: "close_member K this n s = Ret r t" and n: "n \<in> names this s"
  shows "owns B this t" "fds_of (pipe_of n this t) = {}"
proof -
  note r = close_member_Ret [OF run]
  let ?p = "pipe_of n this s"
  show e: "fds_of (pipe_of n this t) = {}" by (simp add: r(1))
  have own: "fds_of ?p \<subseteq> open_fds (trace s)" "0 \<le> fst ?p \<longrightarrow> fst ?p \<noteq> snd ?p"
    "closes_own (trace s)"
    using o n by (auto simp: owns_def own_fds_def)
  show "owns B this t"
  proof (rule owns_replace [OF o n])
    show "m \<noteq> n \<Longrightarrow> pipe_of m this t = pipe_of m this s" for m by (rule r(2))
    show "px_type (objs t this) = px_type (objs s this)" using r(4) by (simp add: kept_rest_def)
    show "open_fds (trace t) = open_fds (trace s) - fds_of ?p \<union> fds_of (pipe_of n this t)"
      unfolding e r(3) open_fds_close_events by (simp add: fds_of_def)
    show "closes_own (trace t)"
      using own unfolding r(3) by (auto simp: close_events_def fds_of_def)
  qed (simp_all add: e r(1))
qed

text \<open>Closing all of them.\<close>

lemma close_fork_pipes_Ret:
  assumes run: "close_fork_pipes K this s = Ret r t" and o: "owns B this s"
  shows "idle this t" "open_fds (trace t) = B" "closes_own (trace t)" "kept_rest this s t"
    "\<exists>es. trace t = es @ trace s \<and> (\<forall>e \<in> set es. plumbing e)"
proof -
  from run obtain s1 s2 s3 s4 where
    c: "close_member K this PStdin s = Ret () s1" "close_member K this PStdout s1 = Ret () s2"
      "close_member K this PStderr s2 = Ret () s3"
    and sig: "onlyif (px_type (objs s3 this) = BLOCKING) (close_member K this PSignal) s3 = Ret () s4"
    and w: "close_member K this PWatch s4 = Ret () t"
    by (auto simp: close_fork_pipes_def this_gets_def ret_iffs)
  have in_names: "PStdin \<in> names this v" "PStdout \<in> names this v" "PStderr \<in> names this v"
    "PWatch \<in> names this v" "PSignal \<in> names this v \<longleftrightarrow> px_type (objs v this) = BLOCKING"
    for v :: "('a, 'b) pexec_world_scheme" by (auto simp: owned_names_def)
  note r1 = close_member_Ret [OF c(1)] and o1 = owns_close [OF o c(1) in_names(1)]
  note r2 = close_member_Ret [OF c(2)] and o2 = owns_close [OF o1(1) c(2) in_names(2)]
  note r3 = close_member_Ret [OF c(3)] and o3 = owns_close [OF o2(1) c(3) in_names(3)]
  have s4: "owns B this s4 \<and> kept_rest this s3 s4 \<and>
      (px_type (objs s3 this) = BLOCKING \<longrightarrow> fds_of (pipe_of PSignal this s4) = {}) \<and>
      (\<forall>m. m \<noteq> PSignal \<longrightarrow> pipe_of m this s4 = pipe_of m this s3) \<and>
      (\<exists>es. trace s4 = es @ trace s3 \<and> (\<forall>e \<in> set es. plumbing e))"
  proof (cases "px_type (objs s3 this) = BLOCKING")
    case True
    with sig have "close_member K this PSignal s3 = Ret () s4" by (simp add: ret_iffs)
    with True show ?thesis
      using close_member_Ret [of K this PSignal s3 "()" s4] owns_close [OF o3(1), of K PSignal "()" s4]
        plumbing_close_events in_names(5) [of s3] by auto
  next
    case False
    with sig o3 show ?thesis by (simp add: ret_iffs kept_rest_def)
  qed
  note r5 = close_member_Ret [OF w] and o5 = owns_close [OF conjunct1 [OF s4] w in_names(4)]
  show kept: "kept_rest this s t"
    using r1(4) r2(4) r3(4) r5(4) s4 by (simp add: kept_rest_def)
  have "fds_of (pipe_of n this t) = {}" if "n \<in> names this t" for n
    using that r1 r2 r3 r5 o1 o2 o3 o5 s4 kept
    by (cases n) (auto simp: owned_names_def kept_rest_def simp del: pipe_of.simps split: if_splits)
  then show "idle this t" by (simp add: idle_def)
  with o5(1) show "open_fds (trace t) = B" "closes_own (trace t)" using owns_idle by blast+
  from s4 obtain es where "trace s4 = es @ trace s3" "\<forall>e \<in> set es. plumbing e" by blast
  with r1(3) r2(3) r3(3) r5(3)
  have "trace t = (close_events (pipe_of PWatch this s4) @ es @ close_events (pipe_of PStderr this s2) @
      close_events (pipe_of PStdout this s1) @ close_events (pipe_of PStdin this s)) @ trace s"
    (is "_ = ?es @ _") by (simp only: append_assoc)
  moreover have "\<forall>e \<in> set ?es. plumbing e"
    using plumbing_close_events \<open>\<forall>e \<in> set es. plumbing e\<close> unfolding set_append by blast
  ultimately show "\<exists>es. trace t = es @ trace s \<and> (\<forall>e \<in> set es. plumbing e)" by blast
qed

text \<open>Reports leave the pipes alone.\<close>

lemma owns_quiet:
  assumes "owns B this s" and "kept_object (objs s this) (objs t this)"
    and "sigchld_blocking_pipe_signal t = sigchld_blocking_pipe_signal s"
    and "open_fds (trace t) = open_fds (trace s)" "closes_own (trace t) = closes_own (trace s)"
  shows "owns B this t"
proof -
  have "pipe_of n this t = pipe_of n this s" for n
    using assms(2,3) by (cases n) (simp_all add: kept_object_def)
  then show ?thesis
    using assms by (simp add: owns_def own_fds_def kept_object_def)
qed

end
