(* ===== verification/Pexec_Run.thy ===== *)
theory Pexec_Run
  imports Pexec_Single
begin

section \<open>Running an object step by step\<close>

text \<open>
  The equations of the operations, applied to a state. With them the simplifier evaluates a
  program on a concrete state one statement at a time, without looking into branches and
  loop bodies that are not reached; \<open>lazy\<close> are the equations it must not use for that.
\<close>

lemmas pexec_defs =
  pexec_exec_def [THEN fun_cong] exec_started_def [THEN fun_cong] spawn_proc_def [THEN fun_cong]
  loop_io_def [THEN fun_cong] watch_member_def [THEN fun_cong]
  handle_sigchld_def [THEN fun_cong] update_status_def [THEN fun_cong]
  handle_proc_return_code_def [THEN fun_cong] get_fds_def [THEN fun_cong]
  read_stdout_def [THEN fun_cong] read_stderr_def [THEN fun_cong] read_std_def [THEN fun_cong]
  read_close_def [THEN fun_cong] reader_error_def [THEN fun_cong] stopped_def [THEN fun_cong]
  loop_rest_io_def [THEN fun_cong] buffer_room_def [THEN fun_cong] deliver_def [THEN fun_cong]
  terminate_buffer_def [THEN fun_cong] store_read_def [THEN fun_cong]
  unblock_sigchld_def [THEN fun_cong] block_sigchld_def [THEN fun_cong]
  reset_sigchld_signal_handler_def [THEN fun_cong] set_sigchld_signal_handler_def [THEN fun_cong]
  prepare_args_def [THEN fun_cong] prepare_fork_pipes_def [unfolded Let_def, THEN fun_cong]
  prepare_signal_set_def [THEN fun_cong] give_up_def [THEN fun_cong]
  user_stopped_def [THEN fun_cong] fail_stopped_def [THEN fun_cong]
  call_state_def [THEN fun_cong] process_error_def [THEN fun_cong]
  close_fork_pipes_def [THEN fun_cong] open_member_def [THEN fun_cong]
  close_member_def [THEN fun_cong] this_upd_def [THEN fun_cong] this_gets_def [THEN fun_cong]
  note_event_def [THEN fun_cong] set_errno_def [THEN fun_cong]
  sys_read_def [THEN fun_cong] sys_write_def [THEN fun_cong] sys_pipe2_def [THEN fun_cong]
  sys_close_def [THEN fun_cong] sys_select_def [THEN fun_cong] sys_fork_def [THEN fun_cong]
  sys_waitpid_def [THEN fun_cong] sys_sigaction_def [THEN fun_cong]
  sys_sigprocmask_def [THEN fun_cong] syscall_def [THEN fun_cong]
  close_fd_def [THEN fun_cong] close_pipe_def [THEN fun_cong]
  se_construct_def [THEN fun_cong] se_destruct_def [THEN fun_cong] se_interrupt_def [THEN fun_cong]
  se_add_read_event_def [THEN fun_cong] se_loop_def [THEN fun_cong] call_node_def [THEN fun_cong]
  control_callback_def [THEN fun_cong] get_max_fd_def [THEN fun_cong] upd_sel_def [THEN fun_cong]
lemmas pexec_funs =
  read_retry.simps(2) [THEN fun_cong] dispatch.simps(2) [THEN fun_cong]
  select_wait.simps(2) [THEN fun_cong] loop_rounds.simps(2) [THEN fun_cong]
  read_std_rest.simps(2) [THEN fun_cong] wait_loop.simps(2) [THEN fun_cong]
  read_signal_int.simps(2) [THEN fun_cong] run_closure.simps [THEN fun_cong]
  block.simps [THEN fun_cong] set_pipe.simps [THEN fun_cong] foreach.simps [THEN fun_cong]

lemmas lazy = read_retry.simps dispatch.simps select_wait.simps
 loop_rounds.simps  read_std_rest.simps  wait_loop.simps
 read_signal_int.simps run_closure.simps block.simps set_pipe.simps


lemmas pexec_run =
  pexec_defs pexec_funs prog_simps default_callbacks_def init_pexec_def empty_script_def
  init_select_event_def arg2argc_def io_callbacks_def insert_node_def advance_iterator_def
  first_node_def fill_buffer_def Let_def bytes_int_def init_proc_status_def

subsection \<open>An example\<close>

text \<open>
  A platform on which the child 42 writes "hi" to its standard output and exits with code 3.
\<close>

definition demo_script :: script where
  "demo_script = empty_script\<lparr>sc_pipes := 6, sc_fork := [Inr 42],
     sc_sigaction := [Inr (FOREIGN_HANDLER 1), Inr BLOCKING_HANDLER],
     sc_select := [Inr {5}, Inr {9}],
     sc_read := [Inr ''hi'', Inr [CHR 0x11, NUL, NUL, NUL]],
     sc_waitpid := [Inr (42, 0x300)]\<rparr>"

definition demo_pexec_world :: "script \<Rightarrow> px_type \<Rightarrow> script pexec_world" where
  "demo_pexec_world sc ty =
     \<lparr>kst = sc, errno = 0, trace = [], sigchld_blocking_pipe_signal = (-1, -1),
      sel = init_select_event, sigchld_sa_prev = SIG_DFL, sigchld_pipe_signal = (-1, -1),
      sigchld_active = False, sh_err = NO_ERROR, sh_signal_set = {},
      objs = (\<lambda>_. (init_pexec 8)\<lparr>px_type := ty\<rparr>)\<rparr>"

abbreviation fuel :: nat where "fuel \<equiv> Suc (Suc (Suc (Suc (Suc (Suc 0)))))"

lemma demo_arg: "str2arg ''true'' = [''true'']"
  by code_simp

lemma demo_status:
  "WIFEXITED 0x300" "\<not> WIFSIGNALED 0x300" "\<not> WIFSTOPPED 0x300" "\<not> WIFCONTINUED 0x300"
  "uint (WEXITSTATUS 0x300) = 3"
  using exit_status_macros [of 3] by (simp_all add: exit_status_def)

lemma demo_buffer: "replicate 8 NUL = [NUL, NUL, NUL, NUL, NUL, NUL, NUL, NUL]"
  by (simp add: eval_nat_numeral)

lemmas demo_run =
  pexec_run demo_script_def demo_pexec_world_def demo_arg demo_status demo_buffer
  update_proc_status_fields fork_error_def

end
