(* ===== verification/Pexec_Single_Props.thy ===== *)
theory Pexec_Single_Props
  imports Pexec_Pipes Pexec_Run
begin

section \<open>What a blocking exec does, from beginning to end\<close>

text \<open>
  The steps of \<open>pexec::exec\<close> one after the other: each either goes on, with the pipes it
  made owned by the object, or gives up, with everything closed and one error reported. The
  lemma \<open>exec_blocking\<close> puts them together; the properties at the end are read off it.
\<close>

subsection \<open>Giving up\<close>

definition failed_run ::
  "int set \<Rightarrow> nat \<Rightarrow> error \<Rightarrow> ('k, 'z) pexec_world_scheme \<Rightarrow> ('k, 'z) pexec_world_scheme \<Rightarrow> bool" where
  "failed_run B this err s t \<longleftrightarrow>
     idle this t \<and> open_fds (trace t) = B \<and> closes_own (trace t) \<and>
     px_state (objs t this) = err \<and> px_type (objs t this) = px_type (objs s this) \<and>
     (\<exists>es. trace t = es @ trace s \<and> states_of es = [FAIL_STOPPED] \<and> errors_of es = [err] \<and>
        forks_of es = [] \<and> handlers_of es = [] \<and> out_of es = [] \<and> err_of es = [])"

lemma failed_run_after:
  assumes "failed_run B this err u t" and "trace u = pl @ trace s" and "\<forall>e \<in> set pl. plumbing e"
    and "px_type (objs u this) = px_type (objs s this)"
  shows "failed_run B this err s t"
proof -
  from assms(1) obtain es where "trace t = es @ trace u" "states_of es = [FAIL_STOPPED]"
    "errors_of es = [err]" "forks_of es = []" "handlers_of es = []" "out_of es = []" "err_of es = []"
    by (auto simp: failed_run_def)
  with assms plumbing_projections [OF assms(3)]
  show ?thesis by (auto simp: failed_run_def intro!: exI [of _ "es @ pl"])
qed

context px_client begin

lemma call_state_owns:
  assumes run: "call_state C this st s = Ret r t" and o: "owns B this s"
  shows "owns B this t"
proof -
  from call_state_Ret [OF run] obtain es where
    es: "trace t = es @ EState st (px_proc (objs s this)) # trace s" "\<forall>x \<in> set es. client_event x"
    and k: "kept_object (objs s this) (objs t this)"
      "sigchld_blocking_pipe_signal t = sigchld_blocking_pipe_signal s" by blast
  show ?thesis
    using client_opens [OF es(2)] es(1) by (intro owns_quiet [OF o k]) simp_all
qed

lemma process_error_owns:
  assumes run: "process_error C this e s = Ret r t" and o: "owns B this s"
  shows "owns B this t"
proof -
  from process_error_Ret [OF run] obtain es where
    es: "trace t = es @ EError e # trace s" "\<forall>x \<in> set es. client_event x"
    and k: "kept_object (objs s this) (objs t this)"
      "sigchld_blocking_pipe_signal t = sigchld_blocking_pipe_signal s" by blast
  show ?thesis
    using client_opens [OF es(2)] es(1) by (intro owns_quiet [OF o k]) simp_all
qed

text \<open>Closing everything and reporting the end.\<close>

lemma close_and_report:
  assumes run: "block [close_fork_pipes K this, call_state C this st] s = Ret r t"
    and o: "owns B this s"
  shows "idle this t" "open_fds (trace t) = B" "closes_own (trace t)"
    "px_state (objs t this) = px_state (objs s this)"
    "px_type (objs t this) = px_type (objs s this)"
    "\<exists>es. trace t = es @ trace s \<and> states_of es = [st] \<and> errors_of es = [] \<and> forks_of es = [] \<and>
       handlers_of es = [] \<and> out_of es = [] \<and> err_of es = [] \<and> (\<forall>fd. read_from fd es = [])"
proof -
  from run obtain u where c: "close_fork_pipes K this s = Ret () u"
    and st: "call_state C this st u = Ret () t"
    by (auto simp: ret_iffs)
  note cu = close_fork_pipes_Ret [OF c o]
  from call_state_Ret [OF st] obtain es where
    es: "trace t = es @ EState st (px_proc (objs u this)) # trace u" "\<forall>x \<in> set es. client_event x"
    and k: "kept_object (objs u this) (objs t this)"
      "sigchld_blocking_pipe_signal t = sigchld_blocking_pipe_signal u"
      "px_state (objs t this) = px_state (objs u this)" by blast
  have "pipe_of n this t = pipe_of n this u" for n
    using k by (cases n) (simp_all add: kept_object_def)
  with cu(1) k show "idle this t" by (simp add: idle_def kept_object_def)
  show "open_fds (trace t) = B" "closes_own (trace t)"
    using es(1) client_opens [OF es(2)] cu(2,3) by simp_all
  show "px_state (objs t this) = px_state (objs s this)"
    "px_type (objs t this) = px_type (objs s this)"
    using k cu(4) by (simp_all add: kept_object_def kept_rest_def)
  from cu(5) obtain pl where pl: "trace u = pl @ trace s" "\<forall>e \<in> set pl. plumbing e" by blast
  have es': "\<forall>e \<in> set es. plumbing e" using es(2) by simp
  show "\<exists>es. trace t = es @ trace s \<and> states_of es = [st] \<and> errors_of es = [] \<and> forks_of es = [] \<and>
       handlers_of es = [] \<and> out_of es = [] \<and> err_of es = [] \<and> (\<forall>fd. read_from fd es = [])"
    using es(1) pl plumbing_projections [OF es'] plumbing_projections [OF pl(2)]
    by (intro exI [of _ "es @ EState st (px_proc (objs u this)) # pl"]) simp
qed

lemma give_up_Ret:
  assumes run: "give_up K C this err s = Ret ok t" and o: "owns B this s"
  shows "\<not> ok" "failed_run B this err s t"
proof -
  from run obtain u where e: "process_error C this err s = Ret () u"
    and f: "block [close_fork_pipes K this, call_state C this FAIL_STOPPED] u = Ret () t"
    and "\<not> ok"
    by (auto simp: give_up_def fail_stopped_def ret_iffs)
  then show "\<not> ok" by simp
  from process_error_Ret [OF e] obtain es where
    es: "trace u = es @ EError err # trace s" "\<forall>x \<in> set es. client_event x"
    and k: "kept_object (objs s this) (objs u this)" "px_state (objs u this) = err" by blast
  have es': "\<forall>e \<in> set es. plumbing e" using es(2) by simp
  note c = close_and_report [OF f process_error_owns [OF e o]]
  from c(6) obtain fs where "trace t = fs @ trace u" "states_of fs = [FAIL_STOPPED]"
    "errors_of fs = []" "forks_of fs = []" "handlers_of fs = []" "out_of fs = []" "err_of fs = []"
    by blast
  with es plumbing_projections [OF es'] c(1-5) k show "failed_run B this err s t"
    by (auto simp: failed_run_def kept_object_def intro!: exI [of _ "fs @ es @ [EError err]"])
qed

end

subsection \<open>Preparing\<close>

text \<open>The state when an object has made its pipes.\<close>

definition ready :: "int set \<Rightarrow> nat \<Rightarrow> ('k, 'z) pexec_world_scheme \<Rightarrow> bool" where
  "ready B this s \<longleftrightarrow>
     owns B this s \<and> (\<forall>n \<in> names this s. 0 \<le> fst (pipe_of n this s) \<and> 0 \<le> snd (pipe_of n this s))"

lemma ready_fst_distinct:
  assumes "ready B this s" and "n \<in> names this s" and "m \<in> names this s" and "n \<noteq> m"
  shows "fst (pipe_of n this s) \<noteq> fst (pipe_of m this s)"
proof -
  have "fst (pipe_of n this s) \<in> fds_of (pipe_of n this s)"
    and "fst (pipe_of m this s) \<in> fds_of (pipe_of m this s)"
    using assms by (auto simp: ready_def fds_of_def)
  moreover have "owns B this s" using assms(1) by (simp add: ready_def)
  from owns_disjoint [OF this assms(2-4)]
  have "fds_of (pipe_of n this s) \<inter> fds_of (pipe_of m this s) = {}" .
  ultimately show ?thesis by auto
qed

lemma ready_apart: "ready B this s \<Longrightarrow> px_type (objs s this) = BLOCKING \<Longrightarrow> apart this s"
  using ready_fst_distinct [of B this s]
  by (simp add: apart_def Let_def owned_names_def del: pipe_of.simps)

text \<open>Making one pipe.\<close>

definition made ::
  "pipe_name list \<Rightarrow> int set \<Rightarrow> nat \<Rightarrow> ('k, 'z) pexec_world_scheme \<Rightarrow> ('k, 'z) pexec_world_scheme \<Rightarrow>
   bool" where
  "made ns B this s u \<longleftrightarrow>
     owns B this u \<and> kept_rest this s u \<and>
     (\<forall>n \<in> set ns. 0 \<le> fst (pipe_of n this u) \<and> 0 \<le> snd (pipe_of n this u)) \<and>
     (\<forall>n. n \<notin> set ns \<longrightarrow> pipe_of n this u = pipe_of n this s) \<and>
     (\<exists>pl. trace u = pl @ trace s \<and> (\<forall>e \<in> set pl. plumbing e) \<and>
        pipes_of pl = map (\<lambda>n. pipe_of n this u) (rev ns))"

text \<open>The kernel after the five pipes of the blocking mode, and that nothing else was called before.\<close>

definition pipes_made :: "'k platform \<Rightarrow> 'k \<Rightarrow> 'k" where
  "pipes_made K k =
     fold (\<lambda>flags k. snd (k_pipe2 K flags k))
       [O_NONBLOCK, O_NONBLOCK, O_NONBLOCK, O_CLOEXEC OR O_NONBLOCK, O_CLOEXEC OR O_NONBLOCK] k"

lemma prepare_args_kernel: "prepare_args K C this s = Ret True t \<Longrightarrow> kst t = kst s"
  by (auto simp: prepare_args_def this_gets_def this_upd_def give_up_def ret_iffs split: if_splits)

lemma open_member_kernel:
  assumes "open_member K this n flags s = Ret True t"
  shows "kst t = snd (k_pipe2 K flags (kst s))" "px_type (objs t this) = px_type (objs s this)"
  using assms
  by (cases n; auto simp: open_member_def sys_pipe2_def this_upd_def ret_iffs split: sum.splits)+

lemma or_give_up_True:
  assumes "bind m (\<lambda>ok. if ok then k else give_up K C this err) s = Ret True t"
  obtains u where "m s = Ret True u" and "k u = Ret True t"
  using assms by (auto simp: give_up_def ret_iffs split: if_splits)

lemma prepare_fork_pipes_kernel:
  assumes run: "prepare_fork_pipes K C this s = Ret True t" and ty: "px_type (objs s this) = BLOCKING"
  shows "kst t = pipes_made K (kst s)"
proof -
  let ?or = "\<lambda>n fl err k. bind (open_member K this n fl) (\<lambda>ok. if ok then k else give_up K C this err)"
  let ?fl = "O_CLOEXEC OR O_NONBLOCK"
  let ?k5 = "?or PWatch ?fl WATCH_PIPE_ERROR (ret True)"
  let ?k4 = "bind (this_gets this px_type) (\<lambda>ty.
      bind (if ty = BLOCKING then open_member K this PSignal ?fl else ret True) (\<lambda>ok.
        if ok then ?k5 else give_up K C this SIGNAL_PIPE_ERROR))"
  have "?or PStdin O_NONBLOCK STDIN_PIPE_ERROR (?or PStdout O_NONBLOCK STDOUT_PIPE_ERROR
      (?or PStderr O_NONBLOCK STDERR_PIPE_ERROR ?k4)) s = Ret True t"
    using run unfolding prepare_fork_pipes_def Let_def .
  then obtain a b c where a: "open_member K this PStdin O_NONBLOCK s = Ret True a"
    and b: "open_member K this PStdout O_NONBLOCK a = Ret True b"
    and c: "open_member K this PStderr O_NONBLOCK b = Ret True c" and c4: "?k4 c = Ret True t"
    by (elim or_give_up_True)
  have "px_type (objs c this) = BLOCKING"
    using open_member_kernel(2) [OF a] open_member_kernel(2) [OF b] open_member_kernel(2) [OF c] ty by simp
  with c4 have "?or PSignal ?fl SIGNAL_PIPE_ERROR ?k5 c = Ret True t"
    by (simp add: this_gets_def bind_def gets_def)
  then obtain d e where d: "open_member K this PSignal ?fl c = Ret True d"
    and e: "open_member K this PWatch ?fl d = Ret True e" and "ret True e = Ret True t"
    by (elim or_give_up_True)
  then show ?thesis
    using a b c by (simp add: ret_iffs pipes_made_def open_member_kernel(1))
qed

context px_client begin

lemma open_or_give_up:
  assumes m: "made ns B this s u" and n: "n \<in> names this s" "n \<notin> set ns" and idle: "idle this s"
    and run: "bind (open_member K this n fl) (\<lambda>ok. if ok then k else give_up K C this err) u = Ret r t"
    and fresh: "fresh_pipes (trace t)" and ext: "pres extends k"
  shows "(\<exists>v. made (n # ns) B this s v \<and> k v = Ret r t) \<or> \<not> r \<and> failed_run B this err s t"
proof -
  from run obtain ok v where v: "open_member K this n fl u = Ret ok v"
    and rest: "(if ok then k else give_up K C this err) v = Ret r t"
    by (auto simp: ret_iffs)
  have "extends v t"
    using rest ext ext.R_stops(3) by (cases ok) (auto dest: presD)
  then have fv: "fresh_pipes (trace v)" using fresh by (rule extends_fresh)
  note r = open_member_Ret [OF v]
  from m obtain pl where pl: "trace u = pl @ trace s" "\<forall>e \<in> set pl. plumbing e"
      "pipes_of pl = map (\<lambda>n. pipe_of n this u) (rev ns)"
    and o: "owns B this u" and k: "kept_rest this s u" by (auto simp: made_def)
  have "pipe_of n this u = pipe_of n this s" using m n(2) by (auto simp: made_def)
  with idle n(1) have "fds_of (pipe_of n this u) = {}" by (simp add: idle_def)
  moreover have "n \<in> names this u" using n(1) k by (simp add: kept_rest_def)
  ultimately have o': "owns B this v" using owns_open [OF o v] fv by blast
  have kv: "kept_rest this s v" using k r(3) by (simp add: kept_rest_def)
  show ?thesis
  proof (cases ok)
    case True
    with r(1) pl have "trace v = (EPipe (fst (pipe_of n this v)) (snd (pipe_of n this v)) # pl) @ trace s"
      by simp
    moreover have "0 \<le> fst (pipe_of m this v) \<and> 0 \<le> snd (pipe_of m this v)"
      if "m \<in> set (n # ns)" for m
    proof (cases "m = n")
      case True
      with fv r(1) \<open>ok\<close> show ?thesis by simp
    next
      case False
      with that m r(2) [of m] show ?thesis by (simp add: made_def)
    qed
    moreover have "map (\<lambda>n. pipe_of n this v) (rev ns) = map (\<lambda>n. pipe_of n this u) (rev ns)"
      using n(2) by (intro map_cong [OF refl] r(2)) auto
    with pl(3) have "pipes_of (EPipe (fst (pipe_of n this v)) (snd (pipe_of n this v)) # pl) =
        map (\<lambda>n. pipe_of n this v) (rev (n # ns))" by simp
    moreover have "\<forall>e \<in> set (EPipe (fst (pipe_of n this v)) (snd (pipe_of n this v)) # pl). plumbing e"
      using pl(2) by simp
    ultimately have "made (n # ns) B this s v"
      using o' kv m r(2) unfolding made_def by (auto simp del: pipe_of.simps)
    with True rest show ?thesis by auto
  next
    case False
    with rest give_up_Ret [OF _ o'] have "\<not> r" "failed_run B this err v t" by auto
    with False r(1) pl kv show ?thesis
      by (auto intro: failed_run_after simp: kept_rest_def)
  qed
qed

lemma ext_or_fail:
  "pres extends k \<Longrightarrow> pres extends (bind (open_member K this n fl) (\<lambda>ok.
     if ok then k else give_up K C this err))"
  by (intro ext.step_intros ext.R_members ext.R_stops)

lemma prepare_fork_pipes_Ret:
  assumes run: "prepare_fork_pipes K C this s = Ret r t" and o: "owns B this s"
    and idle: "idle this s" and fresh: "fresh_pipes (trace t)"
  shows "if r then ready B this t \<and> kept_rest this s t \<and>
       (\<exists>pl. trace t = pl @ trace s \<and> (\<forall>e \<in> set pl. plumbing e) \<and>
          take 3 (pipes_of pl) = [pipe_of PStdin this t, pipe_of PStdout this t, pipe_of PStderr this t])
     else \<exists>err. err \<noteq> FORK_ERROR \<and> failed_run B this err s t"
proof -
  let ?ty = "px_type (objs s this)"
  let ?or = "\<lambda>n fl err k. bind (open_member K this n fl) (\<lambda>ok. if ok then k else give_up K C this err)"
  let ?k5 = "?or PWatch (O_CLOEXEC OR O_NONBLOCK) WATCH_PIPE_ERROR (ret True)"
  let ?k4 = "bind (this_gets this px_type) (\<lambda>ty.
      bind (if ty = BLOCKING then open_member K this PSignal (O_CLOEXEC OR O_NONBLOCK)
            else ret True) (\<lambda>ok. if ok then ?k5 else give_up K C this SIGNAL_PIPE_ERROR))"
  let ?k3 = "?or PStderr O_NONBLOCK STDERR_PIPE_ERROR ?k4"
  let ?k2 = "?or PStdout O_NONBLOCK STDOUT_PIPE_ERROR ?k3"
  have run: "?or PStdin O_NONBLOCK STDIN_PIPE_ERROR ?k2 s = Ret r t"
    using run unfolding prepare_fork_pipes_def Let_def .
  have e5: "pres extends ?k5" by (intro ext_or_fail ext.step_intros)
  have e4: "pres extends ?k4" by (intro ext.step_intros ext.R_members ext.R_stops)
  have e3: "pres extends ?k3" by (intro ext_or_fail e4)
  have e2: "pres extends ?k2" by (intro ext_or_fail e3)
  note og = open_or_give_up [OF _ _ _ idle _ fresh]
  have nm: "PStdin \<in> names this s" "PStdout \<in> names this s" "PStderr \<in> names this s"
    "PWatch \<in> names this s" "PSignal \<in> names this s \<longleftrightarrow> ?ty = BLOCKING"
    by (auto simp: owned_names_def)
  have m0: "made [] B this s s" using o by (simp add: made_def kept_rest_def)
  have fin: "ready B this v \<and> kept_rest this s v \<and>
      (\<exists>pl. trace v = pl @ trace s \<and> (\<forall>e \<in> set pl. plumbing e) \<and>
         take 3 (pipes_of pl) = [pipe_of PStdin this v, pipe_of PStdout this v, pipe_of PStderr this v])"
    if v: "made (ns @ [PStderr, PStdout, PStdin]) B this s v"
      and ns: "names this s \<subseteq> set (ns @ [PStderr, PStdout, PStdin])" for ns v
  proof -
    have "names this v = names this s" using v by (simp add: made_def kept_rest_def)
    moreover from v obtain pl where "trace v = pl @ trace s" "\<forall>e \<in> set pl. plumbing e"
      "pipes_of pl = map (\<lambda>n. pipe_of n this v) (rev (ns @ [PStderr, PStdout, PStdin]))"
      by (auto simp: made_def simp del: pipe_of.simps)
    moreover have "\<forall>n \<in> names this s. 0 \<le> fst (pipe_of n this v) \<and> 0 \<le> snd (pipe_of n this v)"
      using v ns unfolding made_def by blast
    ultimately show ?thesis using v by (auto simp: made_def ready_def simp del: pipe_of.simps)
  qed
  have last: "?thesis" if v: "made (ns @ [PStderr, PStdout, PStdin]) B this s v" "?k5 v = Ret r t"
    and w: "PWatch \<notin> set (ns @ [PStderr, PStdout, PStdin])"
    and sub: "names this s \<subseteq> set ((PWatch # ns) @ [PStderr, PStdout, PStdin])" for ns v
    using og [OF v(1) nm(4) w v(2) ex.pres_ret]
  proof (elim disjE exE conjE)
    fix v' assume v': "made (PWatch # ns @ [PStderr, PStdout, PStdin]) B this s v'"
      and "ret True v' = Ret r t"
    then have "r" "t = v'" by (simp_all add: ret_iffs)
    with fin [of "PWatch # ns"] v' sub show ?thesis by simp
  qed auto
  have ni: "PStdin \<notin> set []" "PStdout \<notin> set [PStdin]" "PStderr \<notin> set [PStdout, PStdin]"
    "PSignal \<notin> set [PStderr, PStdout, PStdin]" by simp_all
  from og [OF m0 nm(1) ni(1) run e2] show ?thesis
  proof (elim disjE exE conjE)
    fix s1 assume m1: "made [PStdin] B this s s1" and r1: "?k2 s1 = Ret r t"
    from og [OF m1 nm(2) ni(2) r1 e3] show ?thesis
    proof (elim disjE exE conjE)
      fix s2 assume m2: "made [PStdout, PStdin] B this s s2" and r2: "?k3 s2 = Ret r t"
      from og [OF m2 nm(3) ni(3) r2 e4] show ?thesis
      proof (elim disjE exE conjE)
        fix s3 assume m3: "made [PStderr, PStdout, PStdin] B this s s3" and r3: "?k4 s3 = Ret r t"
        have ty: "px_type (objs s3 this) = ?ty" using m3 by (simp add: made_def kept_rest_def)
        show ?thesis
        proof (cases "?ty = BLOCKING")
          case True
          with r3 ty have r4: "?or PSignal (O_CLOEXEC OR O_NONBLOCK) SIGNAL_PIPE_ERROR ?k5 s3 = Ret r t"
            by (auto simp: this_gets_def prog_simps)
          from True nm(5) have n5: "PSignal \<in> names this s" by simp
          from og [OF m3 n5 ni(4) r4 e5] show ?thesis
          proof (elim disjE exE conjE)
            fix s4 assume "made [PSignal, PStderr, PStdout, PStdin] B this s s4" "?k5 s4 = Ret r t"
            moreover have "n \<in> {PWatch, PSignal, PStderr, PStdout, PStdin}" for n by (cases n) auto
            ultimately show ?thesis by (intro last [of "[PSignal]"]) auto
          qed auto
        next
          case False
          with r3 ty have "?k5 s3 = Ret r t" by (auto simp: this_gets_def prog_simps)
          moreover have "n \<in> names this s \<Longrightarrow> n \<in> {PWatch, PStderr, PStdout, PStdin}" for n
            using False by (cases n) (auto simp: owned_names_def)
          ultimately show ?thesis using m3 by (intro last [of "[]"]) auto
        qed
      qed auto
    qed auto
  qed auto
qed

lemma prepare_args_Ret:
  assumes run: "prepare_args K C this s = Ret r t" and o: "owns B this s"
  shows "(r = (str2arg (px_spawn_process_arg (objs s this)) \<noteq> [])) \<and>
    (if r then trace t = trace s \<and> kept_object (objs s this) (objs t this) \<and>
       sigchld_blocking_pipe_signal t = sigchld_blocking_pipe_signal s \<and>
       px_args_c (objs t this) = arg2argc (str2arg (px_spawn_process_arg (objs s this)))
     else failed_run B this ARG_PARSE_ERROR s t)"
proof -
  let ?as = "str2arg (px_spawn_process_arg (objs s this))"
  let ?u = "s\<lparr>objs := (objs s)(this := (objs s this)\<lparr>px_args := ?as\<rparr>)\<rparr>"
  show ?thesis
  proof (cases "?as = []")
    case True
    then have g: "give_up K C this ARG_PARSE_ERROR ?u = Ret r t"
      using run by (simp add: prepare_args_def this_gets_def this_upd_def prog_simps)
    have "owns B this ?u" by (rule owns_quiet [OF o]) (simp_all add: kept_object_def)
    from give_up_Ret [OF g this] True show ?thesis
      by (auto intro: failed_run_after [of _ _ _ ?u _ "[]"])
  next
    case False
    then have "\<not> length (arg2argc ?as) < 2" by (auto simp: arg2argc_def)
    with False run show ?thesis
      by (auto simp: prepare_args_def this_gets_def this_upd_def prog_simps kept_object_def)
  qed
qed

lemma set_handler_Ret:
  assumes run: "set_sigchld_signal_handler K C this s = Ret r t" and o: "owns B this s"
  shows "if r
    then trace t = ESigaction BLOCKING_HANDLER # trace s \<and>
      k_sigaction K BLOCKING_HANDLER (kst s) = (Inr (px_sa_prev (objs t this)), kst t) \<and>
      (\<forall>n. pipe_of n this t = pipe_of n this s) \<and>
      px_type (objs t this) = px_type (objs s this)
    else failed_run B this SIGACTION_SET_ERROR s t"
proof -
  let ?s = "s\<lparr>objs := (objs s)(this := (objs s this)\<lparr>px_sa := BLOCKING_HANDLER\<rparr>)\<rparr>"
  from run obtain q u where q: "sys_sigaction K BLOCKING_HANDLER ?s = Ret q u"
    and rest: "(case q of
        Inl _ \<Rightarrow> give_up K C this SIGACTION_SET_ERROR
      | Inr prev \<Rightarrow> seq (this_upd this (\<lambda>x. x\<lparr>px_sa_prev := prev\<rparr>)) (ret True)) u = Ret r t"
    by (auto simp: set_sigchld_signal_handler_def this_upd_def ret_iffs)
  have u: "world.more u = world.more ?s"
    "trace u = (case q of Inl e \<Rightarrow> trace s | Inr old \<Rightarrow> ESigaction BLOCKING_HANDLER # trace s)"
    using q by (auto simp: sys_sigaction_def ret_iffs)
  note m = more_pexec [OF u(1)]
  show ?thesis
  proof (cases q)
    case (Inl e)
    have "owns B this u"
      using m u(2) Inl by (intro owns_quiet [OF o]) (simp_all add: kept_object_def)
    moreover have g: "give_up K C this SIGACTION_SET_ERROR u = Ret r t" using rest Inl by simp
    ultimately show ?thesis
      using m u(2) Inl give_up_Ret [OF g]
      by (auto intro: failed_run_after [of _ _ _ u _ "[]"])
  next
    case (Inr prev)
    have "k_sigaction K BLOCKING_HANDLER (kst s) = (Inr prev, kst u)"
      using q Inr by (auto simp: sys_sigaction_def ret_iffs)
    moreover have "pipe_of n this t = pipe_of n this s" for n
      using rest Inr m by (cases n) (auto simp: this_upd_def ret_iffs)
    ultimately show ?thesis
      using rest Inr m u(2) by (auto simp: this_upd_def ret_iffs)
  qed
qed

text \<open>The child never comes back into the code of the parent.\<close>

lemma child_branch_Ret: "child_branch K this s = Ret r t \<longleftrightarrow> False"
  by (auto simp: child_branch_def ret_iffs)

lemma spawn_proc_Ret:
  assumes run: "spawn_proc K C this s = Ret r t" and o: "owns B this s"
  shows "if r
    then (\<exists>pid. pid \<noteq> 0 \<and> trace t = EFork pid # trace s \<and> px_proc_pid (objs t this) = pid \<and>
      (\<forall>n. pipe_of n this t = pipe_of n this s) \<and>
      px_type (objs t this) = px_type (objs s this) \<and>
      px_sa_prev (objs t this) = px_sa_prev (objs s this))
    else failed_run B this FORK_ERROR s t"
proof -
  from run obtain q u where q: "sys_fork K s = Ret q u"
    and rest: "(seq (this_upd this (\<lambda>x. x\<lparr>px_proc_pid := (case q of Inl _ \<Rightarrow> -1 | Inr pid \<Rightarrow> pid)\<rparr>))
     (case q of
        Inl _ \<Rightarrow> give_up K C this FORK_ERROR
      | Inr pid \<Rightarrow> if pid = 0 then child_branch K this else ret True)) u = Ret r t"
    by (auto simp: spawn_proc_def ret_iffs)
  have u: "world.more u = world.more s"
    "trace u = (case q of Inl e \<Rightarrow> trace s | Inr pid \<Rightarrow> EFork pid # trace s)"
    using q by (auto simp: sys_fork_def ret_iffs)
  note m = more_pexec [OF u(1)]
  show ?thesis
  proof (cases q)
    case (Inl e)
    let ?v = "u\<lparr>objs := (objs u)(this := (objs u this)\<lparr>px_proc_pid := -1\<rparr>)\<rparr>"
    have v: "give_up K C this FORK_ERROR ?v = Ret r t"
      using rest Inl by (auto simp: this_upd_def ret_iffs)
    have "pipe_of n this ?v = pipe_of n this s" for n using m by (cases n) auto
    then have "owns B this ?v"
      using o m u(2) Inl by (simp add: owns_def own_fds_def)
    from give_up_Ret [OF v this] show ?thesis
      using m u(2) Inl by (auto intro: failed_run_after [of _ _ _ ?v _ "[]"])
  next
    case (Inr pid)
    then have t: "pid \<noteq> 0" "r" "t = u\<lparr>objs := (objs u)(this := (objs u this)\<lparr>px_proc_pid := pid\<rparr>)\<rparr>"
      using rest by (auto simp: this_upd_def ret_iffs child_branch_Ret split: if_splits)
    have "pipe_of n this t = pipe_of n this s" for n using m t by (cases n) auto
    with t m u(2) Inr show ?thesis by auto
  qed
qed

end

subsection \<open>The event loop\<close>

definition run_trace :: "int \<Rightarrow> int \<Rightarrow> event list \<Rightarrow> bool" where
  "run_trace a b es \<longleftrightarrow>
     (\<exists>n. states_of es = replicate n SIGNALED) \<and> out_of es = read_from a es \<and>
     err_of es = read_from b es \<and> forks_of es = [] \<and> handlers_of es = []"

lemma run_trace_append: "run_trace a b es \<Longrightarrow> run_trace a b fs \<Longrightarrow> run_trace a b (fs @ es)"
  by (auto simp: run_trace_def replicate_add [symmetric])

lemma run_trace_plumbing: "\<forall>e \<in> set es. plumbing e \<Longrightarrow> run_trace a b es"
  using plumbing_projections [of es] by (simp add: run_trace_def)

lemma run_trace_io: "io_trace a b es \<Longrightarrow> run_trace a b es"
  using quiet_projections [of es] by (simp add: run_trace_def io_trace_def)

context px_io begin

text \<open>Registering the four descriptors.\<close>

lemma watch_member_Ret:
  "watch_member K this n c s = Ret r t \<Longrightarrow>
   se_control_pipe (sel t) = se_control_pipe (sel s) \<and> trace t = trace s \<and> objs t = objs s \<and>
   sigchld_blocking_pipe_signal t = sigchld_blocking_pipe_signal s \<and>
   (\<forall>fd. (fd, None) \<in> set (se_cbs (sel t)) \<longrightarrow> (fd, None) \<in> set (se_cbs (sel s)))"
  by (auto simp: watch_member_def se_add_read_event_def upd_sel_def insert_node_set ret_iffs)

lemma se_construct_Ret:
  assumes "se_construct K s = Ret r t"
  shows "\<exists>c d. se_control_pipe (sel t) = (c, d) \<and> trace t = EPipe c d # trace s \<and> objs t = objs s \<and>
   sigchld_blocking_pipe_signal t = sigchld_blocking_pipe_signal s \<and>
   (\<forall>fd. (fd, None) \<in> set (se_cbs (sel t)) \<longrightarrow> fd = c)"
proof -
  from assms obtain q u where q: "sys_pipe2 K (O_CLOEXEC OR O_NONBLOCK)
      (s\<lparr>sel := init_select_event\<rparr>) = Ret q u"
    and rest: "(case q of Inl _ \<Rightarrow> assertion False
      | Inr p \<Rightarrow> block [upd_sel (\<lambda>e. e\<lparr>se_control_pipe := p\<rparr>), se_add_read_event K (fst p) None]) u =
      Ret r t"
    unfolding se_construct_def ret_iffs upd_sel_def by auto
  note u = sys_pipe2_Ret [OF q] more_pexec [of u "s\<lparr>sel := init_select_event\<rparr>"]
  show ?thesis
    using rest u
    by (cases q) (auto simp: se_add_read_event_def upd_sel_def insert_node_set ret_iffs
        init_select_event_def)
qed

lemma se_destruct_Ret:
  assumes "se_destruct K s = Ret r t"
  shows "trace t = close_events (se_control_pipe (sel s)) @ trace s \<and> objs t = objs s \<and>
   sigchld_blocking_pipe_signal t = sigchld_blocking_pipe_signal s"
proof -
  from assms obtain p u where c: "close_pipe K (se_control_pipe (sel s)) s = Ret p u"
    and t: "t = u\<lparr>sel := (sel u)\<lparr>se_control_pipe := p\<rparr>\<rparr>"
    by (auto simp: se_destruct_def upd_sel_def ret_iffs)
  with close_pipe_Ret [OF c] more_pexec [of u s] show ?thesis by auto
qed

lemma loop_io_Ret:
  assumes run: "loop_io N K C this s = Ret r t" and rd: "ready B this s"
    and ty: "px_type (objs s this) = BLOCKING" and fresh: "fresh_pipes (trace t)"
  shows "ready B this t \<and> (\<forall>n. pipe_of n this t = pipe_of n this s) \<and>
    px_type (objs t this) = BLOCKING \<and> px_sa_prev (objs t this) = px_sa_prev (objs s this) \<and>
    (\<exists>es. trace t = es @ trace s \<and>
       run_trace (fst (pipe_of PStdout this s)) (fst (pipe_of PStderr this s)) es)"
proof -
  let ?L = "io_callbacks N K C this"
  let ?watch = "\<lambda>n c. watch_member K this n c :: ('k, 'z) pexec_world_scheme \<Rightarrow> _"
  let ?a = "fst (pipe_of PStdout this s)" and ?b = "fst (pipe_of PStderr this s)"
  from run obtain u v w1 w2 w3 w x where
    u: "u = s\<lparr>objs := (objs s)(this := (objs s this)\<lparr>px_proc_killed := False,
        px_user_stopped := False, px_status := 0\<rparr>)\<rparr>"
    and v: "se_construct K u = Ret () v"
    and w: "?watch PWatch OnCloseWatch v = Ret () w1" "?watch PStdout OnStdout w1 = Ret () w2"
      "?watch PStderr OnStderr w2 = Ret () w3" "?watch PSignal OnSignalPipe w3 = Ret () w"
    and x: "se_loop N K ?L w = Ret () x" and t: "se_destruct K x = Ret () t"
    by (auto simp: loop_io_def this_upd_def ret_iffs)
  from se_construct_Ret [OF v] obtain c d where
    cd: "se_control_pipe (sel v) = (c, d)" "trace v = EPipe c d # trace s" "objs v = objs u"
      "sigchld_blocking_pipe_signal v = sigchld_blocking_pipe_signal s"
      "\<And>fd. (fd, None) \<in> set (se_cbs (sel v)) \<Longrightarrow> fd = c"
    using u by auto
  note wr = watch_member_Ret [OF w(1)] watch_member_Ret [OF w(2)] watch_member_Ret [OF w(3)]
    watch_member_Ret [OF w(4)]
  have w': "se_control_pipe (sel w) = (c, d)" "trace w = EPipe c d # trace s" "objs w = objs u"
    "sigchld_blocking_pipe_signal w = sigchld_blocking_pipe_signal s"
    "\<And>fd. map_of (se_cbs (sel w)) fd = Some None \<Longrightarrow> fd = c"
    using wr cd by (auto dest!: map_of_SomeD)
  have pipes: "pipe_of n this w = pipe_of n this s" for n
    using w' u by (cases n) auto
  have kept: "kept_object (objs s this) (objs w this)" using w' u by (simp add: kept_object_def)
  have "extends w x" "extends x t"
    using presD [OF ext.R_se_loop x] presD [OF ext.R_select(2) t] by auto
  then have "fresh_pipes (trace w)" using fresh by (blast intro: extends_fresh)
  with w'(2) have new: "0 \<le> c" "0 \<le> d" "c \<noteq> d" "c \<notin> open_fds (trace s)" "d \<notin> open_fds (trace s)"
    by auto
  have "fst (pipe_of n this s) \<in> open_fds (trace s)" for n
    using rd ty by (auto simp: ready_def owns_def own_fds_def fds_of_def owned_names_def)
  with new have "c \<noteq> ?a" "c \<noteq> ?b" by metis+
  moreover have "apart this s" using ready_apart [OF rd ty] .
  ultimately have "loop_apart this w"
    using w' pipes kept unfolding loop_apart_def apart_def Let_def by (simp add: kept_object_def)
  from holdD [OF hold_se_loop this x] have wx: "busy this w x" .
  from wx obtain es where es: "trace x = es @ trace w" "io_trace ?a ?b es"
    and ctl: "se_control_pipe (sel x) = (c, d)"
    using pipes w'(1) by (auto simp: busy_def)
  from es(2) have q: "\<forall>e \<in> set es. quiet_event e" by (simp add: io_trace_def)
  note t' = se_destruct_Ret [OF t]
  have tr: "trace t = (close_events (c, d) @ es @ [EPipe c d]) @ trace s"
    using t' ctl es(1) w'(2) by simp
  have "run_trace ?a ?b (close_events (c, d) @ es @ [EPipe c d])"
    by (intro run_trace_append run_trace_plumbing plumbing_close_events run_trace_io es(2)) simp
  with tr have rt: "\<exists>es. trace t = es @ trace s \<and> run_trace ?a ?b es" by blast
  have opn: "open_fds (trace t) = open_fds (trace s)" "closes_own (trace t) = closes_own (trace s)"
    unfolding tr using new quiet_projections(1-2) [OF q]
    by (auto simp: close_events_def)
  have pt: "pipe_of n this t = pipe_of n this s" for n
    using busy_pipes [OF wx, of n] t' pipes [of n] by (cases n) auto
  have k: "kept_object (objs s this) (objs t this)"
    using kept wx t' by (auto simp: busy_def kept_object_def)
  have "owns B this t"
    using rd opn pt k by (simp add: ready_def owns_def own_fds_def kept_object_def)
  with rd k pt have "ready B this t" by (simp add: ready_def kept_object_def)
  with pt k ty rt show ?thesis by (simp add: kept_object_def)
qed

lemma reset_handler_Ret:
  assumes run: "reset_sigchld_signal_handler K C this s = Ret r t" and rd: "ready B this s"
  shows "ready B this t \<and> (\<forall>n. pipe_of n this t = pipe_of n this s) \<and>
    px_type (objs t this) = px_type (objs s this) \<and>
    (\<exists>es. trace t = es @ trace s \<and> states_of es = [] \<and> out_of es = [] \<and> err_of es = [] \<and>
       forks_of es = [] \<and> (\<forall>fd. read_from fd es = []) \<and>
       (handlers_of es = [px_sa_prev (objs s this)] \<and> errors_of es = [] \<or>
        handlers_of es = [] \<and> errors_of es = [SIGACTION_RESET_ERROR]))"
proof -
  from run obtain q u where q: "sys_sigaction K (px_sa_prev (objs s this)) s = Ret q u"
    and rest: "(case q of Inl _ \<Rightarrow> seq (process_error C this SIGACTION_RESET_ERROR) (ret False)
     | Inr _ \<Rightarrow> ret True) u = Ret r t"
    by (auto simp: reset_sigchld_signal_handler_def this_gets_def ret_iffs)
  note u = sys_sigaction_Ret [OF q]
  have m: "objs u = objs s" "sigchld_blocking_pipe_signal u = sigchld_blocking_pipe_signal s"
    using u more_pexec [of u s] by auto
  have ku: "kept_object (objs s this) (objs u this)" using m by (simp add: kept_object_def)
  have o: "owns B this s" using rd by (simp add: ready_def)
  have step: "ready B this t \<and> (\<forall>n. pipe_of n this t = pipe_of n this s) \<and>
      px_type (objs t this) = px_type (objs s this)"
    if "owns B this t" "kept_object (objs s this) (objs t this)"
      "sigchld_blocking_pipe_signal t = sigchld_blocking_pipe_signal s"
  proof -
    have "pipe_of n this t = pipe_of n this s" for n
      using that by (cases n) (simp_all add: kept_object_def)
    with that rd show ?thesis by (simp add: ready_def kept_object_def)
  qed
  show ?thesis
  proof (cases q)
    case (Inr old)
    with rest have tu: "t = u" by (simp add: ret_iffs)
    have tr: "trace t = [ESigaction (px_sa_prev (objs s this))] @ trace s" using u Inr tu by simp
    have "owns B this t" using tu tr by (intro owns_quiet [OF o ku [folded tu]]) (simp_all add: m)
    with step ku m tu tr show ?thesis by (intro conjI exI [of _ "[ESigaction (px_sa_prev (objs s this))]"]) auto
  next
    case (Inl e)
    with rest have p: "process_error C this SIGACTION_RESET_ERROR u = Ret () t" by (auto simp: ret_iffs)
    have "owns B this u" using u Inl by (intro owns_quiet [OF o ku]) (simp_all add: m)
    then have ot: "owns B this t" by (rule process_error_owns [OF p])
    from process_error_Ret [OF p] obtain es where
      es: "trace t = es @ EError SIGACTION_RESET_ERROR # trace u" "\<forall>x \<in> set es. client_event x"
      and k: "kept_object (objs u this) (objs t this)"
        "sigchld_blocking_pipe_signal t = sigchld_blocking_pipe_signal u" by blast
    have es': "\<forall>x \<in> set es. plumbing x" using es(2) by simp
    have "kept_object (objs s this) (objs t this)" using k m by simp
    with step [OF ot] k m es(1) u Inl plumbing_projections [OF es'] show ?thesis
      by (intro conjI exI [of _ "es @ [EError SIGACTION_RESET_ERROR]"]) auto
  qed
qed

lemma stopped_Ret:
  assumes run: "stopped N K C this s = Ret r t" and o: "owns B this s" and ap: "apart this s"
  shows "idle this t \<and> open_fds (trace t) = B \<and> closes_own (trace t) \<and>
    (\<exists>es n. trace t = es @ trace s \<and> states_of es = replicate n SIGNALED @ [STOPPED] \<and>
       out_of es = read_from (fst (pipe_of PStdout this s)) es \<and>
       err_of es = read_from (fst (pipe_of PStderr this s)) es \<and> forks_of es = [] \<and>
       handlers_of es = [])"
proof -
  from run obtain u where l: "loop_rest_io N K C this s = Ret () u"
    and c: "block [close_fork_pipes K this, call_state C this STOPPED] u = Ret () t"
    by (auto simp: stopped_def ret_iffs)
  from holdD [OF loop_rest_io_busy [OF fit] ap l] have b: "busy this s u" .
  then obtain es where es: "trace u = es @ trace s"
    "io_trace (fst (pipe_of PStdout this s)) (fst (pipe_of PStderr this s)) es"
    by (auto simp: busy_def)
  then have q: "\<forall>e \<in> set es. quiet_event e" by (simp add: io_trace_def)
  have "owns B this u"
    using b es(1) quiet_projections(1-2) [OF q] by (intro owns_quiet [OF o]) (auto simp: busy_def)
  note cr = close_and_report [OF c this]
  from cr(6) obtain fs where fs: "trace t = fs @ trace u" "states_of fs = [STOPPED]"
    "forks_of fs = []" "handlers_of fs = []" "out_of fs = []" "err_of fs = []"
    "\<And>fd. read_from fd fs = []" by blast
  from run_trace_io [OF es(2)] obtain n where n: "states_of es = replicate n SIGNALED"
    "out_of es = read_from (fst (pipe_of PStdout this s)) es"
    "err_of es = read_from (fst (pipe_of PStderr this s)) es" "forks_of es = []"
    "handlers_of es = []" by (auto simp: run_trace_def)
  from cr fs es(1) n show ?thesis
    by (intro conjI exI [of _ "fs @ es"] exI [of _ n]) (simp_all del: pipe_of.simps)
qed

lemma user_stopped_Ret:
  assumes run: "user_stopped K C this s = Ret r t" and o: "owns B this s"
  shows "idle this t \<and> open_fds (trace t) = B \<and> closes_own (trace t) \<and>
    (\<exists>es. trace t = es @ trace s \<and> states_of es = [USER_STOPPED] \<and>
       out_of es = [] \<and> err_of es = [] \<and> (\<forall>fd. read_from fd es = []) \<and> forks_of es = [] \<and>
       handlers_of es = [])"
proof -
  let ?o = "(objs s this)\<lparr>px_user_stopped := True,
      px_proc := (px_proc (objs s this))\<lparr>ps_user_stop_fd := -1\<rparr>\<rparr>"
  let ?u = "s\<lparr>objs := (objs s)(this := ?o)\<rparr>"
  have c: "block [close_fork_pipes K this, call_state C this USER_STOPPED] ?u = Ret r t"
    using run by (auto simp: user_stopped_def this_upd_def ret_iffs)
  have "owns B this ?u" by (rule owns_quiet [OF o]) (simp_all add: kept_object_def)
  from close_and_report [OF c this] show ?thesis by auto
qed

text \<open>From the fork to the end.\<close>

lemma exec_started_Ret:
  assumes run: "exec_started N K C this s = Ret r t" and rd: "ready B this s"
    and ty: "px_type (objs s this) = BLOCKING" and fresh: "fresh_pipes (trace t)"
  shows "idle this t \<and> open_fds (trace t) = B \<and> closes_own (trace t) \<and>
    (\<exists>es n fin. trace t = es @ trace s \<and>
       states_of es = STARTED # replicate n SIGNALED @ [fin] \<and> fin \<in> {STOPPED, USER_STOPPED} \<and>
       out_of es = read_from (fst (pipe_of PStdout this s)) es \<and>
       err_of es = read_from (fst (pipe_of PStderr this s)) es \<and> forks_of es = [] \<and>
       (handlers_of es = [px_sa_prev (objs s this)] \<or>
        handlers_of es = [] \<and> SIGACTION_RESET_ERROR \<in> set (errors_of es)))"
proof -
  let ?a = "fst (pipe_of PStdout this s)" and ?b = "fst (pipe_of PStderr this s)"
  define p where "p = (px_proc (objs s this))\<lparr>ps_pid := px_proc_pid (objs s this),
      ps_stdin_fd := snd (px_pipe_stdin (objs s this)), ps_running := True,
      ps_user_stop_fd := snd (px_pipe_close_watch (objs s this))\<rparr>"
  let ?s = "s\<lparr>objs := (objs s)(this := (objs s this)\<lparr>px_proc := p\<rparr>)\<rparr>"
  from run obtain u where st: "call_state C this STARTED ?s = Ret () u"
    and rest: "onlyif (px_type (objs u this) = BLOCKING)
        (block [loop_io N K C this,
                bind (reset_sigchld_signal_handler K C this) (\<lambda>_. skip),
                bind (this_gets this px_user_stopped) (\<lambda>user.
                  if user then user_stopped K C this else stopped N K C this)]) u = Ret () t"
    by (auto simp: exec_started_def this_upd_def this_gets_def ret_iffs p_def)
  from call_state_Ret [OF st] obtain es0 where
    es0: "trace u = es0 @ EState STARTED p # trace s" "\<forall>x \<in> set es0. client_event x"
    and k0: "kept_object (objs s this) (objs u this)"
      "sigchld_blocking_pipe_signal u = sigchld_blocking_pipe_signal s"
    by (auto simp: kept_object_def)
  have es0': "\<forall>x \<in> set es0. plumbing x" using es0(2) by simp
  have p0: "pipe_of n this u = pipe_of n this s" for n
    using k0 by (cases n) (simp_all add: kept_object_def)
  have "owns B this ?s"
    using rd by (auto simp: ready_def intro: owns_quiet [where s = s])
  from call_state_owns [OF st this] rd p0 k0(1) have ru: "ready B this u"
    by (simp add: ready_def kept_object_def)
  have tyu: "px_type (objs u this) = BLOCKING" using k0 ty by (simp add: kept_object_def)
  with rest obtain v q w where v: "loop_io N K C this u = Ret () v"
    and w: "reset_sigchld_signal_handler K C this v = Ret q w"
    and fin: "(if px_user_stopped (objs w this) then user_stopped K C this
        else stopped N K C this) w = Ret () t"
    by (auto simp: this_gets_def ret_iffs)
  have "extends w t" using fin presD [OF ext.R_stops(2)] presD [OF ext.R_stopped] by (auto split: if_splits)
  moreover have "extends v w" by (rule presD [OF ext.R_handler(2) w])
  ultimately have "fresh_pipes (trace v)" using fresh by (blast intro: extends_fresh)
  from loop_io_Ret [OF v ru tyu this] obtain es1 n where rv: "ready B this v"
    and pv: "\<And>n. pipe_of n this v = pipe_of n this s" and tyv: "px_type (objs v this) = BLOCKING"
    and sa: "px_sa_prev (objs v this) = px_sa_prev (objs s this)"
    and es1: "trace v = es1 @ trace u" "states_of es1 = replicate n SIGNALED"
      "out_of es1 = read_from ?a es1" "err_of es1 = read_from ?b es1" "forks_of es1 = []"
      "handlers_of es1 = []"
    using p0 k0(1) by (auto simp: run_trace_def kept_object_def simp del: pipe_of.simps)
  note rh = reset_handler_Ret [OF w rv]
  have rw: "ready B this w" and tyw: "px_type (objs w this) = BLOCKING"
    and pw: "\<And>n. pipe_of n this w = pipe_of n this s"
    using rh pv tyv by simp_all
  from rh obtain es2 where es2: "trace w = es2 @ trace v" "states_of es2 = []" "out_of es2 = []"
      "err_of es2 = []" "forks_of es2 = []" "\<forall>fd. read_from fd es2 = []"
    and hs: "handlers_of es2 = [px_sa_prev (objs v this)] \<and> errors_of es2 = [] \<or>
        handlers_of es2 = [] \<and> errors_of es2 = [SIGACTION_RESET_ERROR]"
    by blast
  then have hs: "handlers_of es2 = [px_sa_prev (objs s this)] \<or>
       handlers_of es2 = [] \<and> SIGACTION_RESET_ERROR \<in> set (errors_of es2)"
    using sa by auto
  have ow: "owns B this w" using rw by (simp add: ready_def)
  have aw: "apart this w" by (rule ready_apart [OF rw tyw])
  have "idle this t \<and> open_fds (trace t) = B \<and> closes_own (trace t) \<and>
    (\<exists>es3 m fin. trace t = es3 @ trace w \<and> states_of es3 = replicate m SIGNALED @ [fin] \<and>
       fin \<in> {STOPPED, USER_STOPPED} \<and> out_of es3 = read_from ?a es3 \<and>
       err_of es3 = read_from ?b es3 \<and> forks_of es3 = [] \<and> handlers_of es3 = [])"
  proof (cases "px_user_stopped (objs w this)")
    case True
    with fin have "user_stopped K C this w = Ret () t" by simp
    from user_stopped_Ret [OF this ow] obtain es3 where
      "idle this t" "open_fds (trace t) = B" "closes_own (trace t)"
      "trace t = es3 @ trace w" "states_of es3 = [USER_STOPPED]" "out_of es3 = []"
      "err_of es3 = []" "\<And>fd. read_from fd es3 = []" "forks_of es3 = []" "handlers_of es3 = []"
      by blast
    then show ?thesis
      by (intro conjI exI [of _ es3] exI [of _ 0] exI [of _ USER_STOPPED]) simp_all
  next
    case False
    with fin have "stopped N K C this w = Ret () t" by simp
    from stopped_Ret [OF this ow aw] show ?thesis unfolding pw by blast
  qed
  then obtain es3 m fin where d: "idle this t" "open_fds (trace t) = B" "closes_own (trace t)"
    and es3: "trace t = es3 @ trace w" "states_of es3 = replicate m SIGNALED @ [fin]"
      "fin \<in> {STOPPED, USER_STOPPED}" "out_of es3 = read_from ?a es3"
      "err_of es3 = read_from ?b es3" "forks_of es3 = []" "handlers_of es3 = []" by blast
  let ?es = "es3 @ es2 @ es1 @ es0 @ [EState STARTED p]"
  have "trace t = ?es @ trace s" using es0 es1 es2 es3 by simp
  moreover have "states_of ?es = STARTED # replicate (n + m) SIGNALED @ [fin]"
    using es1 es2 es3 plumbing_projections [OF es0'] by (simp add: replicate_add)
  moreover have "out_of ?es = read_from ?a ?es" "err_of ?es = read_from ?b ?es" "forks_of ?es = []"
    using es1 es2 es3 plumbing_projections [OF es0'] by (simp_all del: pipe_of.simps)
  moreover have "handlers_of ?es = [px_sa_prev (objs s this)] \<or>
        handlers_of ?es = [] \<and> SIGACTION_RESET_ERROR \<in> set (errors_of ?es)"
    using es1 es3 hs plumbing_projections [OF es0'] by auto
  ultimately show ?thesis using d es3(3) by blast
qed

end


subsection \<open>The whole of exec\<close>

text \<open>How a run ended: the three cases the properties speak about.\<close>

definition run_ok :: "nat \<Rightarrow> pstate \<Rightarrow> sig_handler \<Rightarrow> event list \<Rightarrow> bool" where
  "run_ok n fin prev es \<longleftrightarrow>
     states_of es = STARTED # replicate n SIGNALED @ [fin] \<and> fin \<in> {STOPPED, USER_STOPPED} \<and>
     (\<exists>pid. pid \<noteq> 0 \<and> forks_of es = [pid]) \<and>
     out_of es = read_from (fst (pipes_of es ! 1)) es \<and>
     err_of es = read_from (fst (pipes_of es ! 2)) es \<and>
     fst (pipes_of es ! 1) \<noteq> fst (pipes_of es ! 2) \<and>
     (handlers_of es = [BLOCKING_HANDLER, prev] \<or>
      handlers_of es = [BLOCKING_HANDLER] \<and> SIGACTION_RESET_ERROR \<in> set (errors_of es))"

definition run_failed :: "event list \<Rightarrow> bool" where
  "run_failed es \<longleftrightarrow>
     states_of es = [FAIL_STOPPED] \<and> forks_of es = [] \<and> out_of es = [] \<and> err_of es = [] \<and>
     (\<exists>err. errors_of es = [err] \<and>
        handlers_of es = (if err = FORK_ERROR then [BLOCKING_HANDLER] else []))"

lemma failed_run_trace:
  assumes "failed_run B this err u t" and "trace u = pl @ trace s"
    and "states_of pl = []" "errors_of pl = []" "out_of pl = []" "err_of pl = []" "forks_of pl = []"
    and "handlers_of pl = (if err = FORK_ERROR then [BLOCKING_HANDLER] else [])"
  shows "idle this t \<and> open_fds (trace t) = B \<and> closes_own (trace t) \<and>
    (\<exists>es. trace t = es @ trace s \<and> run_failed es)"
proof -
  from assms(1) obtain es where es: "trace t = es @ trace u" "states_of es = [FAIL_STOPPED]"
    "errors_of es = [err]" "forks_of es = []" "handlers_of es = []" "out_of es = []" "err_of es = []"
    and d: "idle this t" "open_fds (trace t) = B" "closes_own (trace t)"
    by (auto simp: failed_run_def)
  have "run_failed (es @ pl)" using es assms by (simp add: run_failed_def)
  then show ?thesis using d es(1) assms(2) by (metis append.assoc)
qed

text \<open>
  The run of a blocking \<open>exec\<close>: everything is closed again, and the events it adds are
  those of a failed run or of a complete one.
\<close>

context px_io begin

text \<open>The steps of \<open>exec\<close> and the states between them.\<close>

lemma exec_steps:
  assumes run: "pexec_exec N K C this arg s = Ret r t" and ty: "px_type (objs s this) = BLOCKING"
    and idle: "idle this s" and cl: "closes_own (trace s)"
  shows "(\<exists>v. failed_run (open_fds (trace s)) this ARG_PARSE_ERROR v t \<and> trace v = trace s) \<or>
    (\<exists>v ok u. trace v = trace s \<and> kst v = kst s \<and> owns (open_fds (trace s)) this v \<and> idle this v \<and>
       px_type (objs v this) = BLOCKING \<and> prepare_fork_pipes K C this v = Ret ok u \<and>
       onlyif ok (bind (this_gets this px_type) (\<lambda>ty.
         bind (if ty = BLOCKING then set_sigchld_signal_handler K C this else ret True) (\<lambda>ok. onlyif ok
         (bind (spawn_proc K C this) (\<lambda>spawned. onlyif spawned
         (exec_started N K C this)))))) u = Ret () t)"
proof -
  let ?B = "open_fds (trace s)"
  let ?s = "s\<lparr>objs := (objs s)(this := (objs s this)\<lparr>px_spawn_process_arg := arg, px_state := NO_ERROR\<rparr>)\<rparr>"
  have same: "pipe_of n this ?s = pipe_of n this s" for n by (cases n) simp_all
  have os: "owns ?B this ?s" "idle this ?s"
    using idle idle_owns [OF idle cl] same by (simp_all add: owns_def own_fds_def idle_def)
  from run obtain ok v where v: "prepare_args K C this ?s = Ret ok v"
    and rest: "onlyif ok (seq (prepare_signal_set this)
     (bind (prepare_fork_pipes K C this) (\<lambda>ok. onlyif ok
     (bind (this_gets this px_type) (\<lambda>ty.
      bind (if ty = BLOCKING then set_sigchld_signal_handler K C this else ret True) (\<lambda>ok. onlyif ok
     (bind (spawn_proc K C this) (\<lambda>spawned. onlyif spawned
     (exec_started N K C this))))))))) v = Ret r t"
    by (auto simp: pexec_exec_def this_upd_def ret_iffs)
  note pa = prepare_args_Ret [OF v os(1)]
  show ?thesis
  proof (cases ok)
    case False
    with pa have "failed_run ?B this ARG_PARSE_ERROR ?s v" by simp
    with False rest show ?thesis by (auto simp: ret_iffs)
  next
    case True
    let ?v = "v\<lparr>objs := (objs v)(this := (objs v this)\<lparr>px_signal_set := {SIGCHLD}\<rparr>)\<rparr>"
    have k: "trace v = trace s" "kept_object (objs ?s this) (objs v this)"
      "sigchld_blocking_pipe_signal v = sigchld_blocking_pipe_signal s"
      using pa True by auto
    have "pipe_of n this ?v = pipe_of n this ?s" for n
      using k by (cases n) (simp_all add: kept_object_def)
    then have "owns ?B this ?v" "idle this ?v" "px_type (objs ?v this) = BLOCKING" "trace ?v = trace s"
      using os k ty by (simp_all add: owns_def own_fds_def idle_def kept_object_def)
    moreover have "kst ?v = kst s" using prepare_args_kernel v True by fastforce
    moreover from rest True obtain ok' u where "prepare_fork_pipes K C this ?v = Ret ok' u"
      and "onlyif ok' (bind (this_gets this px_type) (\<lambda>ty.
         bind (if ty = BLOCKING then set_sigchld_signal_handler K C this else ret True) (\<lambda>ok. onlyif ok
         (bind (spawn_proc K C this) (\<lambda>spawned. onlyif spawned
         (exec_started N K C this)))))) u = Ret () t"
      unfolding prepare_signal_set_def by (auto simp: this_upd_def ret_iffs)
    ultimately show ?thesis by blast
  qed
qed

lemma ext_after_pipes:
  "pres extends (onlyif ok (bind (this_gets this px_type) (\<lambda>ty.
     bind (if ty = BLOCKING then set_sigchld_signal_handler K C this else ret True) (\<lambda>ok. onlyif ok
     (bind (spawn_proc K C this) (\<lambda>spawned. onlyif spawned (exec_started N K C this)))))))"
  by (intro ext.step_intros ext.R_handler ext.R_spawn_proc ext.R_exec_started)

text \<open>From the pipes on.\<close>

lemma exec_after_pipes:
  assumes rd: "ready B this u" and ty: "px_type (objs u this) = BLOCKING"
    and tr: "trace u = pl @ trace s" "\<forall>e \<in> set pl. plumbing e"
    and pp: "take 3 (pipes_of pl) =
      [pipe_of PStdin this u, pipe_of PStdout this u, pipe_of PStderr this u]"
    and fresh: "fresh_pipes (trace t)"
    and run: "bind (set_sigchld_signal_handler K C this) (\<lambda>ok. onlyif ok
         (bind (spawn_proc K C this) (\<lambda>spawned. onlyif spawned (exec_started N K C this)))) u = Ret () t"
  shows "idle this t \<and> open_fds (trace t) = B \<and> closes_own (trace t) \<and>
    (\<exists>es. trace t = es @ trace s \<and>
       (run_failed es \<or>
        (\<exists>n fin prev k'. k_sigaction K BLOCKING_HANDLER (kst u) = (Inr prev, k') \<and>
           run_ok n fin prev es)))"
proof -
  note pl = plumbing_projections [OF tr(2)]
  from run obtain ok v where v: "set_sigchld_signal_handler K C this u = Ret ok v"
    and rest: "onlyif ok (bind (spawn_proc K C this) (\<lambda>spawned. onlyif spawned
        (exec_started N K C this))) v = Ret () t"
    by (auto simp: ret_iffs)
  have ou: "owns B this u" using rd by (simp add: ready_def)
  note sh = set_handler_Ret [OF v ou]
  show ?thesis
  proof (cases ok)
    case False
    with sh rest have "failed_run B this SIGACTION_SET_ERROR u t" by (simp add: ret_iffs)
    from failed_run_trace [OF this tr(1)] pl show ?thesis by auto
  next
    case True
    with sh have tv: "trace v = (ESigaction BLOCKING_HANDLER # pl) @ trace s"
      and prev: "k_sigaction K BLOCKING_HANDLER (kst u) = (Inr (px_sa_prev (objs v this)), kst v)"
      and pv: "\<And>n. pipe_of n this v = pipe_of n this u" and tyv: "px_type (objs v this) = BLOCKING"
      using tr ty by auto
    from tv tr have "open_fds (trace v) = open_fds (trace u)" "closes_own (trace v) = closes_own (trace u)"
      by simp_all
    with ou pv ty tyv have ov: "owns B this v" by (simp add: owns_def own_fds_def)
    from True rest obtain sp w where w: "spawn_proc K C this v = Ret sp w"
      and fin: "onlyif sp (exec_started N K C this) w = Ret () t" by (auto simp: ret_iffs)
    note spw = spawn_proc_Ret [OF w ov]
    show ?thesis
    proof (cases sp)
      case False
      with spw fin have "failed_run B this FORK_ERROR v t" by (simp add: ret_iffs)
      from failed_run_trace [OF this tv] pl show ?thesis by auto
    next
      case True
      with spw obtain pid where pid: "pid \<noteq> 0" "trace w = EFork pid # trace v"
        and pw: "\<And>n. pipe_of n this w = pipe_of n this u" and tyw: "px_type (objs w this) = BLOCKING"
        and sa: "px_sa_prev (objs w this) = px_sa_prev (objs v this)"
        using pv tyv by auto
      have "open_fds (trace w) = open_fds (trace v)" "closes_own (trace w) = closes_own (trace v)"
        using pid by simp_all
      with ov pv pw tyv tyw have "owns B this w" by (simp add: owns_def own_fds_def)
      with rd pw ty tyw have rw: "ready B this w" by (simp add: ready_def)
      from fin True have st: "exec_started N K C this w = Ret () t" by (simp add: ret_iffs)
      from exec_started_Ret [OF st rw tyw fresh] obtain es n f where
        d: "idle this t" "open_fds (trace t) = B" "closes_own (trace t)"
        and es: "trace t = es @ trace w" "states_of es = STARTED # replicate n SIGNALED @ [f]"
          "f \<in> {STOPPED, USER_STOPPED}" "out_of es = read_from (fst (pipe_of PStdout this w)) es"
          "err_of es = read_from (fst (pipe_of PStderr this w)) es" "forks_of es = []"
        and hs: "handlers_of es = [px_sa_prev (objs w this)] \<or>
          handlers_of es = [] \<and> SIGACTION_RESET_ERROR \<in> set (errors_of es)" by blast
      let ?es = "es @ EFork pid # ESigaction BLOCKING_HANDLER # pl"
      have "trace t = ?es @ trace s" using es(1) pid(2) tv by simp
      moreover have "run_ok n f (px_sa_prev (objs v this)) ?es"
      proof -
        have len: "3 \<le> length (pipes_of pl)" using arg_cong [OF pp, of length] by simp
        have at: "pipes_of ?es ! k = take 3 (pipes_of pl) ! k" if "k < 3" for k
          using that len by (simp add: nth_append)
        have "pipes_of ?es ! 1 = pipe_of PStdout this w"
          using at [of 1] unfolding pp pw by (simp del: pipe_of.simps)
        moreover have "pipes_of ?es ! 2 = pipe_of PStderr this w"
          using at [of 2] unfolding pp pw by (simp del: pipe_of.simps)
        ultimately have p1: "pipes_of ?es ! 1 = pipe_of PStdout this w"
          "pipes_of ?es ! 2 = pipe_of PStderr this w" by blast+
        have "fst (pipe_of PStdout this w) \<noteq> fst (pipe_of PStderr this w)"
          using ready_apart [OF rw tyw] unfolding apart_def Let_def by blast
        then show ?thesis
          unfolding run_ok_def p1 using es hs sa pid(1) pl by (auto simp del: pipe_of.simps)
      qed
      ultimately show ?thesis using d prev by blast
    qed
  qed
qed

lemma exec_blocking_io:
  assumes run: "pexec_exec N K C this arg s = Ret r t" and ty: "px_type (objs s this) = BLOCKING"
    and idle: "idle this s" and cl: "closes_own (trace s)" and fresh: "fresh_pipes (trace t)"
  shows "idle this t \<and> open_fds (trace t) = open_fds (trace s) \<and> closes_own (trace t) \<and>
    (\<exists>es. trace t = es @ trace s \<and>
       (run_failed es \<or>
        (\<exists>n fin prev k'. k_sigaction K BLOCKING_HANDLER (pipes_made K (kst s)) = (Inr prev, k') \<and>
           run_ok n fin prev es)))"
  using exec_steps [OF run ty idle cl]
proof (elim disjE exE conjE)
  fix v assume f: "failed_run (open_fds (trace s)) this ARG_PARSE_ERROR v t" and "trace v = trace s"
  then show ?thesis using failed_run_trace [OF f, of "[]" s] by auto
next
  fix v ok u
  assume v: "trace v = trace s" and kv: "kst v = kst s" and ov: "owns (open_fds (trace s)) this v" and iv: "idle this v"
    and tyv: "px_type (objs v this) = BLOCKING" and u: "prepare_fork_pipes K C this v = Ret ok u"
    and rest: "onlyif ok (bind (this_gets this px_type) (\<lambda>ty.
         bind (if ty = BLOCKING then set_sigchld_signal_handler K C this else ret True) (\<lambda>ok. onlyif ok
         (bind (spawn_proc K C this) (\<lambda>spawned. onlyif spawned
         (exec_started N K C this)))))) u = Ret () t"
  have fu: "fresh_pipes (trace u)"
    using extends_fresh [OF presD [OF ext_after_pipes rest] fresh] .
  note pf = prepare_fork_pipes_Ret [OF u ov iv fu]
  show ?thesis
  proof (cases ok)
    case False
    with rest have "t = u" by (simp add: ret_iffs)
    with False pf obtain err where "err \<noteq> FORK_ERROR"
      and f: "failed_run (open_fds (trace s)) this err v t" by auto
    then show ?thesis using failed_run_trace [OF f, of "[]" s] v by auto
  next
    case True
    with pf v obtain pl where rd: "ready (open_fds (trace s)) this u" and kr: "kept_rest this v u"
      and pl: "trace u = pl @ trace s" "\<forall>e \<in> set pl. plumbing e" "take 3 (pipes_of pl) =
        [pipe_of PStdin this u, pipe_of PStdout this u, pipe_of PStderr this u]"
      by (auto simp del: pipe_of.simps)
    from kr tyv have tyu: "px_type (objs u this) = BLOCKING" by (simp add: kept_rest_def)
    then have run': "bind (set_sigchld_signal_handler K C this) (\<lambda>ok. onlyif ok
         (bind (spawn_proc K C this) (\<lambda>spawned. onlyif spawned (exec_started N K C this)))) u = Ret () t"
      using rest True tyu by (simp add: this_gets_def prog_simps)
    from u True have "prepare_fork_pipes K C this v = Ret True u" by simp
    from prepare_fork_pipes_kernel [OF this tyv] kv have "kst u = pipes_made K (kst s)" by simp
    with exec_after_pipes [OF rd tyu pl fresh run'] show ?thesis by simp
  qed
qed

end

lemmas exec_blocking = px_io.exec_blocking_io [OF px_io.intro [OF _ px_io_axioms.intro]]

text \<open>The run of the example.\<close>

lemma demo_exec_run:
  "\<exists>t. pexec_exec fuel script_platform default_callbacks 0 ''true''
       (demo_pexec_world demo_script BLOCKING) = Ret () t \<and>
     fresh_pipes (trace t) \<and> states_of (trace t) = [STARTED, SIGNALED, STOPPED] \<and>
     out_of (trace t) = ''hi'' \<and> errors_of (trace t) = []"
  by (simp add: demo_run del: lazy)

lemma demo_world:
  "px_type (objs (demo_pexec_world sc BLOCKING) 0) = BLOCKING"
  "idle 0 (demo_pexec_world sc BLOCKING)" "trace (demo_pexec_world sc BLOCKING) = []"
proof -
  have "fds_of (pipe_of n 0 (demo_pexec_world sc BLOCKING)) = {}" for n
    by (cases n) (auto simp: demo_pexec_world_def fds_of_def init_pexec_def)
  then show "idle 0 (demo_pexec_world sc BLOCKING)" by (simp add: idle_def)
qed (simp_all add: demo_pexec_world_def)

lemmas demo_hyps =
  df.px_local_client_axioms reads_fit_script demo_world(1) demo_world(2)

subsection \<open>Properties\<close>

text \<open>
  Property C3. What a user of the blocking mode sees of a child. Whatever the platform does
  and whatever fails, a call of \<open>exec\<close> that returns has called the state callback either
  once, with FAIL_STOPPED, after exactly one error was reported and without a child; or with
  STARTED, any number of SIGNALED, and then once STOPPED or USER_STOPPED, for exactly one child.
\<close>

theorem exec_protocol:
  assumes "px_local_client C this" and "reads_fit K" and "px_type (objs s this) = BLOCKING"
    and "idle this s" and "closes_own (trace s)" and "fresh_pipes (trace t)"
    and "pexec_exec N K C this arg s = Ret r t"
  shows "\<exists>es. trace t = es @ trace s \<and>
     ((states_of es = [FAIL_STOPPED] \<and> (\<exists>e. errors_of es = [e]) \<and> forks_of es = []) \<or>
      (\<exists>n fin pid. states_of es = STARTED # replicate n SIGNALED @ [fin] \<and>
         fin \<in> {STOPPED, USER_STOPPED} \<and> forks_of es = [pid] \<and> pid \<noteq> 0))"
  using exec_blocking [OF assms(1,2,7,3-6)] unfolding run_failed_def run_ok_def by blast

theorem exec_protocol_witness:
  "\<exists>t es. pexec_exec fuel script_platform default_callbacks 0 ''true''
       (demo_pexec_world demo_script BLOCKING) = Ret () t \<and>
     trace t = es @ [] \<and> states_of es = [STARTED, SIGNALED, STOPPED] \<and>
     (\<exists>pid. forks_of es = [pid] \<and> pid \<noteq> 0)"
proof -
  obtain t where t: "pexec_exec fuel script_platform default_callbacks 0 ''true''
       (demo_pexec_world demo_script BLOCKING) = Ret () t" "fresh_pipes (trace t)"
    "states_of (trace t) = [STARTED, SIGNALED, STOPPED]"
    using demo_exec_run by blast
  from exec_protocol [OF demo_hyps _ t(2,1)] t(1,3) show ?thesis
    by (auto simp: demo_world(3))
qed

text \<open>
  Property C4. No descriptor is leaked and none is closed twice: after a blocking \<open>exec\<close>,
  also one that failed at any of its steps, the library has exactly the descriptors open that
  it had before, every \<open>close\<close> was of a descriptor it had open, and all the pipes of the
  object are closed, so that it can be used again.
\<close>

theorem exec_closes_all:
  assumes "px_local_client C this" and "reads_fit K" and "px_type (objs s this) = BLOCKING"
    and "idle this s" and "closes_own (trace s)" and "fresh_pipes (trace t)"
    and "pexec_exec N K C this arg s = Ret r t"
  shows "open_fds (trace t) = open_fds (trace s) \<and> closes_own (trace t) \<and> idle this t"
  using exec_blocking [OF assms(1,2,7,3-6)] by blast

theorem exec_closes_all_witness:
  "\<exists>t. pexec_exec fuel script_platform default_callbacks 0 ''true''
       (demo_pexec_world demo_script BLOCKING) = Ret () t \<and>
     states_of (trace t) = [STARTED, SIGNALED, STOPPED] \<and> open_fds (trace t) = {} \<and> idle 0 t"
proof -
  obtain t where t: "pexec_exec fuel script_platform default_callbacks 0 ''true''
       (demo_pexec_world demo_script BLOCKING) = Ret () t" "fresh_pipes (trace t)"
    "states_of (trace t) = [STARTED, SIGNALED, STOPPED]"
    using demo_exec_run by blast
  from exec_closes_all [OF demo_hyps _ t(2,1)] t(1,3) show ?thesis
    by (auto simp: demo_world(3))
qed

text \<open>
  Property C14. The output callbacks get the child's output: in a run that started a child,
  the bytes given to the stdout callback are, in order and without a gap, the bytes that
  \<open>read\<close> returned on the read end of the second pipe made, those given to the stderr callback
  are the bytes of the third, and the two are different descriptors; a failed run gives none.
\<close>

theorem exec_output:
  assumes "px_local_client C this" and "reads_fit K" and "px_type (objs s this) = BLOCKING"
    and "idle this s" and "closes_own (trace s)" and "fresh_pipes (trace t)"
    and "pexec_exec N K C this arg s = Ret r t"
  shows "\<exists>es. trace t = es @ trace s \<and>
     (if FAIL_STOPPED \<in> set (states_of es) then out_of es = [] \<and> err_of es = []
      else out_of es = read_from (fst (pipes_of es ! 1)) es \<and>
        err_of es = read_from (fst (pipes_of es ! 2)) es \<and>
        fst (pipes_of es ! 1) \<noteq> fst (pipes_of es ! 2))"
proof -
  from exec_blocking [OF assms(1,2,7,3-6)] obtain es where
    es: "trace t = es @ trace s" "run_failed es \<or> (\<exists>n fin prev. run_ok n fin prev es)" by blast
  from es(2) show ?thesis
  proof
    assume "run_failed es"
    with es(1) show ?thesis by (intro exI [of _ es]) (auto simp: run_failed_def)
  next
    assume "\<exists>n fin prev. run_ok n fin prev es"
    with es(1) show ?thesis by (intro exI [of _ es]) (auto simp: run_ok_def)
  qed
qed

theorem exec_output_witness:
  "\<exists>t. pexec_exec fuel script_platform default_callbacks 0 ''true''
       (demo_pexec_world demo_script BLOCKING) = Ret () t \<and>
     out_of (trace t) = ''hi'' \<and> out_of (trace t) = read_from (fst (pipes_of (trace t) ! 1)) (trace t)"
proof -
  obtain t where t: "pexec_exec fuel script_platform default_callbacks 0 ''true''
       (demo_pexec_world demo_script BLOCKING) = Ret () t" "fresh_pipes (trace t)"
    "states_of (trace t) = [STARTED, SIGNALED, STOPPED]" "out_of (trace t) = ''hi''"
    using demo_exec_run by blast
  from exec_output [OF demo_hyps _ t(2,1)] t(1,3,4) show ?thesis
    by (auto simp: demo_world(3))
qed

text \<open>
  Property C17. The disposition of SIGCHLD, in the blocking mode: a run that started a child installed the library's
  handler once, right after the five pipes were made and no other system call, and
  afterwards installed exactly the disposition that this \<open>sigaction\<close> answered with as the
  previous one, unless the second call failed, which was then reported. A run that
  failed has touched the disposition only when \<open>fork\<close> is what failed: in that case the
  handler stays installed.
\<close>

theorem exec_handler:
  assumes "px_local_client C this" and "reads_fit K" and "px_type (objs s this) = BLOCKING"
    and "idle this s" and "closes_own (trace s)" and "fresh_pipes (trace t)"
    and "pexec_exec N K C this arg s = Ret r t"
  shows "\<exists>es. trace t = es @ trace s \<and>
     (if FAIL_STOPPED \<in> set (states_of es)
      then handlers_of es = (if errors_of es = [FORK_ERROR] then [BLOCKING_HANDLER] else [])
      else \<exists>prev k'. k_sigaction K BLOCKING_HANDLER (pipes_made K (kst s)) = (Inr prev, k') \<and>
        (handlers_of es = [BLOCKING_HANDLER, prev] \<or>
         handlers_of es = [BLOCKING_HANDLER] \<and> SIGACTION_RESET_ERROR \<in> set (errors_of es)))"
proof -
  from exec_blocking [OF assms(1,2,7,3-6)] obtain es where
    es: "trace t = es @ trace s" "run_failed es \<or> (\<exists>n fin prev k'.
      k_sigaction K BLOCKING_HANDLER (pipes_made K (kst s)) = (Inr prev, k') \<and> run_ok n fin prev es)" by blast
  from es(2) show ?thesis
  proof
    assume "run_failed es"
    with es(1) show ?thesis by (intro exI [of _ es]) (auto simp: run_failed_def)
  next
    assume "\<exists>n fin prev k'. k_sigaction K BLOCKING_HANDLER (pipes_made K (kst s)) = (Inr prev, k') \<and>
      run_ok n fin prev es"
    then obtain n fin prev k' where
      "k_sigaction K BLOCKING_HANDLER (pipes_made K (kst s)) = (Inr prev, k')" "run_ok n fin prev es" by blast
    with es(1) show ?thesis by (intro exI [of _ es]) (auto simp: run_ok_def)
  qed
qed

theorem exec_handler_witness:
  "\<exists>t. pexec_exec fuel script_platform default_callbacks 0 ''true''
       (demo_pexec_world demo_script BLOCKING) = Ret () t \<and>
     (\<exists>prev k'. k_sigaction script_platform BLOCKING_HANDLER (pipes_made script_platform demo_script) =
         (Inr prev, k') \<and>
        handlers_of (trace t) = [BLOCKING_HANDLER, prev])"
proof -
  obtain t where t: "pexec_exec fuel script_platform default_callbacks 0 ''true''
       (demo_pexec_world demo_script BLOCKING) = Ret () t" "fresh_pipes (trace t)"
    "states_of (trace t) = [STARTED, SIGNALED, STOPPED]" "errors_of (trace t) = []"
    using demo_exec_run by blast
  have "kst (demo_pexec_world demo_script BLOCKING) = demo_script" by (simp add: demo_pexec_world_def)
  with exec_handler [OF demo_hyps _ t(2,1)] t(1,3,4) show ?thesis
    by (simp add: demo_world(3))
qed

end
