(* ===== verification/Pexec_Behaviour.thy ===== *)
theory Pexec_Behaviour
  imports Pexec_Single_Props
begin

section \<open>The steps of an object one by one\<close>

text \<open>
  What the child does between fork and exec, what the parent makes of its exit code, and what
  the readers do with each answer of \<open>read\<close>, errors included.
\<close>

subsection \<open>The child\<close>

text \<open>
  The outcome of a part of the child's code: it returns, or it ends the process with one of
  the given codes.
\<close>

definition ends_or_returns :: "int set \<Rightarrow> ('s, 'a) prog \<Rightarrow> bool" where
  "ends_or_returns codes m \<longleftrightarrow>
     (\<forall>s. (\<exists>a t. m s = Ret a t) \<or> (\<exists>c t. c \<in> codes \<and> m s = End (Exited c) t))"

lemma eor_bind:
  assumes "ends_or_returns codes m" and "\<And>a. ends_or_returns codes (f a)"
  shows "ends_or_returns codes (bind m f)"
  unfolding ends_or_returns_def
proof
  fix s
  from assms(1) consider a t where "m s = Ret a t" | c t where "c \<in> codes" "m s = End (Exited c) t"
    unfolding ends_or_returns_def by blast
  then show "(\<exists>b t. bind m f s = Ret b t) \<or> (\<exists>c t. c \<in> codes \<and> bind m f s = End (Exited c) t)"
  proof cases
    case (1 a t)
    then show ?thesis using assms(2) [of a] by (simp add: prog_simps ends_or_returns_def)
  next
    case 2
    then show ?thesis by (simp add: prog_simps)
  qed
qed

lemma eor_simple:
  "ends_or_returns codes (ret a)" "ends_or_returns codes skip" "ends_or_returns codes (gets f)"
  "ends_or_returns codes (upd h)" "c \<in> codes \<Longrightarrow> ends_or_returns codes (finish (Exited c))"
  "ends_or_returns codes (syscall call ev)"
  by (auto simp: ends_or_returns_def prog_simps syscall_returns)

lemma eor_seq:
  "ends_or_returns codes m \<Longrightarrow> ends_or_returns codes k \<Longrightarrow> ends_or_returns codes (seq m k)"
  by (simp add: seq_def eor_bind)

lemma eor_if:
  "ends_or_returns codes m \<Longrightarrow> ends_or_returns codes k \<Longrightarrow> ends_or_returns codes (if b then m else k)"
  by simp

lemma eor_close_pipe: "ends_or_returns codes (close_pipe K p)"
  unfolding ends_or_returns_def using close_pipe_returns by blast

lemma eor_set_pipe: "ends_or_returns codes (set_pipe n this p)"
  by (cases n) (simp_all add: this_upd_def eor_simple)

lemmas eor_intros = eor_bind eor_seq eor_if eor_simple eor_close_pipe eor_set_pipe

lemma child_steps_end_or_return:
  "ends_or_returns {100..106} (child_prepare K this)"
  unfolding child_prepare_def block.simps child_unset_def child_dup_def close_member_def fd_unset_nonblock_def
    sys_getfl_def sys_setfl_def sys_dup2_def
  by (intro eor_intros) simp_all

text \<open>They leave the arguments alone.\<close>

definition same_args :: "nat \<Rightarrow> ('k, 'z) pexec_world_scheme \<Rightarrow> ('k, 'z) pexec_world_scheme \<Rightarrow> bool" where
  "same_args this s t \<longleftrightarrow> px_args_c (objs t this) = px_args_c (objs s this)"

interpretation sa: step_rel "same_args this :: ('k, 'z) pexec_world_scheme \<Rightarrow> _"
  by unfold_locales (simp_all add: same_args_def)

lemma adds_same_args: "pres (adds (\<lambda>_. True)) m \<Longrightarrow> pres (same_args this) m"
  unfolding pres_def same_args_def using adds_more more_pexec by metis

lemma child_steps_args:
  "pres (same_args this) (child_prepare K this)"
proof -
  have unset: "pres (same_args this) (child_unset K this n end c)" for n "end" c
    unfolding child_unset_def
    by (intro sa.pres_bind sa.pres_gets sa.pres_finish sa.pres_skip pres_if adds_same_args
        pres_adds_flags) simp
  have dup: "pres (same_args this) (child_dup K this n end m c)" for n "end" m c
    unfolding child_dup_def
    by (intro sa.pres_bind sa.pres_gets sa.pres_finish sa.pres_skip pres_if adds_same_args
        pres_adds_sys) simp
  have close: "pres (same_args this) (close_member K this n)" for n
    by (rule presI) (auto simp: same_args_def kept_rest_def dest: close_member_Ret(4))
  show ?thesis unfolding child_prepare_def by (intro sa.pres_intros unset dup close)
qed

subsection \<open>The end of the child\<close>

lemma chan_cb_default: "chan_cb default_callbacks ch = (\<lambda>data len. skip)"
  by (cases ch) (simp_all add: default_callbacks_def)

context px_client begin

text \<open>The parts of \<open>update_status\<close> for a child that has exited.\<close>

lemma update_status_exited:
  assumes run: "update_status N K C this (exit_status code) s = Ret r t" and code: "code < 256"
  shows "\<exists>w. errors_of (trace w) = errors_of (trace s) @
       (case fork_error (int code) of None \<Rightarrow> [] | Some err \<Rightarrow> [err]) \<and>
     px_proc_killed (objs w this) \<and>
     (\<forall>err. fork_error (int code) = Some err \<longrightarrow> px_state (objs w this) = err) \<and>
     (if px_type (objs s this) = BLOCKING then t = w else stopped N K C this w = Ret () t)"
proof -
  let ?st = "exit_status code"
  let ?p = "update_proc_status ?st (px_proc (objs s this))"
  let ?s = "s\<lparr>objs := (objs s)(this := (objs s this)\<lparr>px_status := ?st, px_proc := ?p\<rparr>)\<rparr>"
  have p: "\<not> ps_running ?p" "ps_return_code ?p = int code"
    using exit_status_macros [OF code] by (simp_all add: update_proc_status_fields)
  from run obtain u where u: "call_state C this SIGNALED ?s = Ret () u"
    and rest: "onlyif (\<not> ps_running (px_proc (objs u this)))
          (block [this_upd this (\<lambda>x. x\<lparr>px_proc := (px_proc x)\<lparr>ps_stdin_fd := -1\<rparr>\<rparr>),
                  this_upd this (\<lambda>x. x\<lparr>px_proc_killed := True\<rparr>),
                  handle_proc_return_code C this,
                  bind (this_gets this px_type) (\<lambda>ty.
                    onlyif (ty = NONBLOCKING) (stopped N K C this))]) u = Ret () t"
    by (auto simp: update_status_def this_upd_def this_gets_def ret_iffs)
  from call_state_Ret [OF u] obtain es where
    es: "trace u = es @ EState SIGNALED ?p # trace s" "\<forall>x \<in> set es. client_event x"
    and k: "kept_object (objs s this) (objs u this)" "ps_running (px_proc (objs u this)) = ps_running ?p"
      "ps_return_code (px_proc (objs u this)) = ps_return_code ?p"
    by (auto simp: kept_object_def)
  have esp: "\<forall>x \<in> set es. plumbing x" using es(2) by simp
  have eu: "errors_of (trace u) = errors_of (trace s)"
    using es(1) plumbing_projections [OF esp] by simp
  let ?v = "u\<lparr>objs := (objs u)(this := (objs u this)\<lparr>px_proc := (px_proc (objs u this))
      \<lparr>ps_stdin_fd := -1\<rparr>, px_proc_killed := True\<rparr>)\<rparr>"
  have tyu: "px_type (objs u this) = px_type (objs s this)" using k by (simp add: kept_object_def)
  have end_run: "if px_type (objs s this) = BLOCKING then t = w else stopped N K C this w = Ret () t"
    if "onlyif (px_type (objs w this) = NONBLOCKING) (stopped N K C this) w = Ret () t"
      and "px_type (objs w this) = px_type (objs s this)" for w
    using that by (cases "px_type (objs s this)") (auto simp: ret_iffs)
  have rest': "seq (handle_proc_return_code C this) (bind (this_gets this px_type) (\<lambda>ty.
      onlyif (ty = NONBLOCKING) (stopped N K C this))) ?v = Ret () t"
    using rest k p by (auto simp: this_upd_def ret_iffs)
  then obtain w where w: "(case fork_error (int code) of None \<Rightarrow> skip
      | Some err \<Rightarrow> process_error C this err) ?v = Ret () w"
    and wt: "onlyif (px_type (objs w this) = NONBLOCKING) (stopped N K C this) w = Ret () t"
    using k p by (auto simp: handle_proc_return_code_def this_gets_def ret_iffs)
  show ?thesis
  proof (cases "fork_error (int code)")
    case None
    with w have "w = ?v" by (simp add: ret_iffs)
    with None tyu eu end_run [OF wt] show ?thesis by (intro exI [of _ w]) simp
  next
    case (Some err)
    with w have e: "process_error C this err ?v = Ret () w" by simp
    have killed: "px_proc_killed (objs w this)"
    proof -
      let ?x = "?v\<lparr>trace := EError err # trace u\<rparr>"
      from e obtain x where "pc_error C err ?x = Ret () x"
        and "w = x\<lparr>objs := (objs x)(this := (objs x this)\<lparr>px_state := err\<rparr>)\<rparr>"
        by (auto simp: process_error_def note_event_def this_upd_def ret_iffs)
      with presD [OF error_ok this(1)] show ?thesis by (simp add: client_def)
    qed
    from process_error_Ret [OF e] obtain fs where
      fs: "trace w = fs @ EError err # trace u" "\<forall>x \<in> set fs. client_event x"
      and kw: "kept_object (objs ?v this) (objs w this)" "px_state (objs w this) = err" by auto
    have fsp: "\<forall>x \<in> set fs. plumbing x" using fs(2) by simp
    have "px_type (objs w this) = px_type (objs s this)" using kw tyu by (simp add: kept_object_def)
    with fs(1) kw killed eu plumbing_projections [OF fsp] Some end_run [OF wt] show ?thesis
      by (intro exI [of _ w]) simp
  qed
qed

end

subsection \<open>Properties\<close>

text \<open>
  Property C20. The code of the child never comes back into the code of the parent and never
  loops: it ends by being replaced by the program, with the arguments that were prepared, or
  with one of the exit codes that the parent translates into an error.
\<close>

theorem child_branch_ends:
  "\<exists>e t. child_branch K this s = End e t \<and>
     (e = Replaced (px_args_c (objs s this)) \<or> (\<exists>c. e = Exited c \<and> fork_error c \<noteq> None))"
proof -
  consider t where "child_prepare K this s = Ret () t" | c t where "c \<in> {100..106}" "child_prepare K this s = End (Exited c) t"
    using spec [OF child_steps_end_or_return [where K = K and this = this,
          unfolded ends_or_returns_def], of s] by auto
  then show ?thesis
  proof cases
    case (1 t)
    let ?argv = "px_args_c (objs s this)"
    have "px_args_c (objs t this) = ?argv"
      using presD [OF child_steps_args 1] by (simp add: same_args_def)
    with 1 have run: "child_branch K this s = bind (sys_execvp K ?argv) (\<lambda>r. case r of
        Inl _ \<Rightarrow> finish (Exited 100) | Inr _ \<Rightarrow> finish (Replaced ?argv)) t"
      unfolding child_branch_def by (simp add: seq_eval bind_eval this_gets_def prog_eval)
    obtain q u where "sys_execvp K ?argv t = Ret q u"
      using syscall_returns unfolding sys_execvp_def by blast
    then show ?thesis unfolding run by (cases q) (simp_all add: prog_simps fork_error_def)
  next
    case (2 c t)
    then have "child_branch K this s = End (Exited c) t"
      unfolding child_branch_def by (simp add: seq_eval)
    moreover have "fork_error c \<noteq> None" using 2(1) by (auto simp: fork_error_def)
    ultimately show ?thesis by blast
  qed
qed

text \<open>
  Property C21. The parent reports what the child failed at: when the child ended with one of
  the codes 100 to 106, \<open>update_status\<close> calls the error callback exactly once, with the
  error of the call that failed, marks the process as ended and records the error; other codes
  report nothing. In the blocking mode that is all; in the nonblocking mode \<open>stopped\<close> runs
  from the state reached then.
\<close>

theorem exit_code_reported:
  assumes "px_client C this" and "code < 256"
    and "update_status N K C this (exit_status code) s = Ret r t"
  shows "let reported = map snd (filter (\<lambda>(c, err). c = code)
       [(100, FORK_EXEC_ERROR), (101, FORK_STDIN_NONBLOCK_ERROR),
        (102, FORK_STDOUT_NONBLOCK_ERROR), (103, FORK_STDERR_NONBLOCK_ERROR),
        (104, FORK_DUP2_STDIN_ERROR), (105, FORK_DUP2_STDOUT_ERROR),
        (106, FORK_DUP2_STDERR_ERROR)])
     in \<exists>u. errors_of (trace u) = errors_of (trace s) @ reported \<and> px_proc_killed (objs u this) \<and>
        (reported \<noteq> [] \<longrightarrow> px_state (objs u this) = hd reported) \<and>
        (if px_type (objs s this) = BLOCKING then t = u else stopped N K C this u = Ret () t)"
proof -
  from px_client.update_status_exited [OF assms(1,3,2)] obtain u where
    "errors_of (trace u) = errors_of (trace s) @ (case fork_error (int code) of None \<Rightarrow> [] | Some err \<Rightarrow> [err])"
    "px_proc_killed (objs u this)" "\<forall>err. fork_error (int code) = Some err \<longrightarrow> px_state (objs u this) = err"
    "if px_type (objs s this) = BLOCKING then t = u else stopped N K C this u = Ret () t" by blast
  then show ?thesis
    unfolding Let_def by (intro exI [of _ u]) (auto simp: fork_error_def split: if_splits)
qed

theorem exit_code_reported_witness:
  "\<exists>t. update_status fuel script_platform default_callbacks 0 (exit_status 104)
       (demo_pexec_world demo_script BLOCKING) = Ret () t \<and>
     errors_of (trace t) = [FORK_DUP2_STDIN_ERROR] \<and> px_proc_killed (objs t 0)"
proof -
  obtain t where t: "update_status fuel script_platform default_callbacks 0 (exit_status 104)
       (demo_pexec_world demo_script BLOCKING) = Ret () t"
    using exit_status_macros [of 104] by (simp add: demo_run del: lazy)
  have "px_client default_callbacks 0" by (rule df.px_client_axioms)
  from exit_code_reported [OF this _ t] t show ?thesis
    by (auto simp: demo_world(1,3))
qed

text \<open>
  Property C22. A reader never leaves its buffer and gives the callback what was read: for an
  answer of at most the requested size, the bytes are stored from the start of the buffer, the
  byte after them is NUL and inside the buffer, and the callback gets that buffer and the number
  of bytes, before anything else happens.
\<close>

theorem read_std_delivers:
  assumes "k_read K fd (length (px_read_buffer (objs s this)) - 1) (kst s) = (Inr d, k')"
    and "d \<noteq> []" and "length d \<le> length (px_read_buffer (objs s this)) - 1"
  shows "\<exists>buf u. read_std (Suc m) K C this fd ch err s =
       seq (chan_cb C ch buf (length d)) (ret NOTHING) u \<and>
     px_read_buffer (objs u this) = buf \<and> trace u = chan_event ch d # ERead fd d # trace s \<and>
     length buf = length (px_read_buffer (objs s this)) \<and> length d < length buf \<and>
     take (length d) buf = d \<and> buf ! length d = NUL"
proof -
  let ?b = "px_read_buffer (objs s this)"
  let ?buf = "(fill_buffer d ?b)[length d := NUL]"
  let ?u = "s\<lparr>errno := 0, kst := k', objs := (objs s)(this := (objs s this)
      \<lparr>px_read_buffer := ?buf\<rparr>), trace := chan_event ch d # ERead fd d # trace s\<rparr>"
  have len: "length d < length ?b" using assms(2,3) by (cases ?b) auto
  have "read_std (Suc m) K C this fd ch err s = seq (chan_cb C ch ?buf (length d)) (ret NOTHING) ?u"
    using assms(1,2)
    by (simp add: read_std_def buffer_room_def this_gets_def this_upd_def store_read_def
        terminate_buffer_def deliver_def note_event_def sys_read_def syscall_def set_errno_def
        prog_simps take_fill split: outcome.split)
  moreover have "length ?buf = length ?b" using len by (simp add: length_fill)
  moreover have "?buf ! length d = NUL" using len by (simp add: length_fill)
  moreover have "take (length d) ?buf = d" by (rule take_fill)
  ultimately show ?thesis using len by (intro exI [of _ ?buf] exI [of _ ?u]) simp
qed

theorem read_std_delivers_witness:
  "\<exists>buf u. read_std 1 script_platform default_callbacks 0 5 Stdout STDOUT_PIPE_READ_ERROR
       (demo_pexec_world demo_script BLOCKING) =
     seq (chan_cb default_callbacks Stdout buf 2) (ret NOTHING) u \<and> buf ! 2 = NUL"
proof -
  let ?s = "demo_pexec_world demo_script BLOCKING"
  have "k_read script_platform 5 (length (px_read_buffer (objs ?s 0)) - 1) (kst ?s) =
      (Inr ''hi'', demo_script\<lparr>sc_read := [Inr [CHR 0x11, NUL, NUL, NUL]]\<rparr>)"
    and "length ''hi'' \<le> length (px_read_buffer (objs ?s 0)) - 1"
    by (simp_all add: demo_pexec_world_def demo_script_def empty_script_def init_pexec_def)
  from read_std_delivers [OF this(1) _ this(2), where m = 0 and C = default_callbacks
      and ch = Stdout and err = STDOUT_PIPE_READ_ERROR]
  show ?thesis by (auto simp: numeral_2_eq_2)
qed

text \<open>
  Property C34. The end of \<open>read_std_rest\<close> loses data: although the comment at its caller says
  that the pipe is read until EAGAIN, it returns after one non-empty answer; it has then called
  \<open>read\<close> exactly once, and what is still in the pipe is thrown away with it.
\<close>

theorem read_std_rest_one_read:
  assumes "k_read K fd (length (px_read_buffer (objs s this)) - 1) (kst s) = (Inr d, k')"
    and "d \<noteq> []"
  shows "\<exists>t. read_std_rest (Suc m) K default_callbacks this fd ch err s = Ret () t \<and>
     kst t = k' \<and> trace t = chan_event ch d # ERead fd d # trace s"
  using assms
  by (simp add: buffer_room_def this_gets_def this_upd_def store_read_def terminate_buffer_def
      deliver_def note_event_def sys_read_def syscall_def set_errno_def prog_simps take_fill
      chan_cb_default)

theorem read_std_rest_one_read_witness:
  "\<exists>t. read_std_rest 5 script_platform default_callbacks 0 5 Stdout STDOUT_PIPE_READ_REST_ERROR
       (demo_pexec_world (empty_script\<lparr>sc_read := [Inr ''0123456789'']\<rparr>) BLOCKING) = Ret () t \<and>
     sc_read (kst t) = [Inr ''789''] \<and> out_of (trace t) = ''0123456''"
proof -
  let ?s = "demo_pexec_world (empty_script\<lparr>sc_read := [Inr ''0123456789'']\<rparr>) BLOCKING"
  have "k_read script_platform 5 (length (px_read_buffer (objs ?s 0)) - 1) (kst ?s) =
      (Inr ''0123456'', empty_script\<lparr>sc_read := [Inr ''789'']\<rparr>)"
    by (simp add: demo_pexec_world_def empty_script_def init_pexec_def script_read_def)
  from read_std_rest_one_read [OF this, of 4 Stdout STDOUT_PIPE_READ_REST_ERROR]
  show ?thesis by (auto simp: demo_world(3) eval_nat_numeral)
qed

text \<open>
  Property C33. A SIGCHLD for which the child has not ended takes the child for ended: when
  \<open>waitpid\<close> answers 0, \<open>handle_sigchld\<close> reports WAITPID_ERROR, decodes the status 0
  as a regular exit and sets the flag that ends the event loop, although nothing is known
  about the child.
\<close>

theorem spurious_sigchld_ends_child:
  assumes "k_sigprocmask K SIG_BLOCK (px_signal_set (objs s this)) (kst s) = (Inr (), k1)"
    and "k_waitpid K (px_proc_pid (objs s this)) k1 = (Inr (0, st), k2)"
    and "k_sigprocmask K SIG_UNBLOCK (px_signal_set (objs s this)) k2 = (Inr (), k3)"
    and "px_type (objs s this) = BLOCKING"
  shows "\<exists>t. handle_sigchld (Suc m) K default_callbacks this s = Ret () t \<and>
     px_proc_killed (objs t this) \<and> ps_exited (px_proc (objs t this)) \<and>
     ps_return_code (px_proc (objs t this)) = 0 \<and>
     errors_of (trace t) = errors_of (trace s) @ [WAITPID_ERROR]"
proof -
  have st: "WIFEXITED 0" "\<not> WIFSIGNALED 0" "uint (WEXITSTATUS 0) = 0"
    using exit_status_macros [of 0] by (simp_all add: exit_status_def)
  show ?thesis
    using assms
    by (simp add: pexec_run update_proc_status_fields st fork_error_def del: lazy)
qed

theorem spurious_sigchld_ends_child_witness:
  "\<exists>t. handle_sigchld 1 script_platform default_callbacks 0
       (demo_pexec_world (empty_script\<lparr>sc_waitpid := [Inr (0, 0)]\<rparr>) BLOCKING) = Ret () t \<and>
     px_proc_killed (objs t 0)"
  using spurious_sigchld_ends_child [of script_platform
      "demo_pexec_world (empty_script\<lparr>sc_waitpid := [Inr (0, 0)]\<rparr>) BLOCKING" 0
      "empty_script\<lparr>sc_waitpid := [Inr (0, 0)]\<rparr>" 0 empty_script empty_script 0]
  by (auto simp: demo_world(1)) (auto simp: demo_pexec_world_def empty_script_def)

end
