(* ===== verification/Pexec_Status.thy ===== *)
theory Pexec_Status
  imports Posix
begin

section \<open>The result record (pexec_status.h, pexec_status.cpp)\<close>

text \<open>
  \<open>pexec_status\<close> collects what one run reported: the output, the last state and process
  record, and the errors with the \<open>errno\<close> of the moment. Output reaches it through
  \<open>oss << data\<close>, which appends a C string: the bytes before the first NUL. The projections
  of a trace say what such a record should hold after the events of the trace.
\<close>

record pexec_status =
  st_proc_out :: string
  st_proc_err :: string
  st_args :: string
  st_state :: pstate
  st_proc :: proc_status
  st_err :: "perror list"

definition init_pexec_status :: pexec_status where
  "init_pexec_status =
     \<lparr>st_proc_out = [], st_proc_err = [], st_args = [], st_state = STARTED,
      st_proc = init_proc_status, st_err = []\<rparr>"

definition valid :: "pexec_status \<Rightarrow> bool" where
  "valid st \<longleftrightarrow> st_err st = []"

text \<open>What \<open>oss << data\<close> appends for a \<open>const char*\<close>.\<close>

definition c_string :: "string \<Rightarrow> string" where
  "c_string data = takeWhile (\<lambda>c. c \<noteq> NUL) data"

lemma c_string_terminated: "n < length buf \<Longrightarrow> buf ! n = NUL \<Longrightarrow> c_string buf = c_string (take n buf)"
proof (induction buf arbitrary: n)
  case Nil
  then show ?case by simp
next
  case (Cons c buf)
  then show ?case by (cases n) (auto simp: c_string_def)
qed

lemma c_string_id: "NUL \<notin> set d \<Longrightarrow> c_string d = d"
  unfolding c_string_def by (induction d) auto

subsection \<open>What a trace says about the record\<close>

text \<open>The text of the output callbacks, cut at NUL.\<close>

fun texts_of :: "(event \<Rightarrow> string option) \<Rightarrow> event list \<Rightarrow> string" where
  "texts_of f [] = []"
| "texts_of f (e # t) = texts_of f t @ (case f e of None \<Rightarrow> [] | Some d \<Rightarrow> c_string d)"

definition out_data :: "event \<Rightarrow> string option" where
  "out_data e = (case e of EOut d \<Rightarrow> Some d | _ \<Rightarrow> None)"

definition err_data :: "event \<Rightarrow> string option" where
  "err_data e = (case e of EErr d \<Rightarrow> Some d | _ \<Rightarrow> None)"

lemma data_simps [simp]:
  "out_data (EOut d) = Some d" "err_data (EErr d) = Some d"
  "out_data (EErr d) = None" "err_data (EOut d) = None"
  "out_data (EState ps q) = None" "err_data (EState ps q) = None"
  "out_data (EError er) = None" "err_data (EError er) = None"
  by (simp_all add: out_data_def err_data_def)

text \<open>The last report to the state callback.\<close>

fun last_report :: "pstate \<times> proc_status \<Rightarrow> event list \<Rightarrow> pstate \<times> proc_status" where
  "last_report d [] = d"
| "last_report d (e # t) = (case e of EState st p \<Rightarrow> (st, p) | _ \<Rightarrow> last_report d t)"

lemma texts_of_append: "texts_of f (es @ t) = texts_of f t @ texts_of f es"
  by (induction es) auto

lemma last_report_append: "last_report d (es @ t) = last_report (last_report d t) es"
  by (induction es) (auto split: event.splits)

lemma last_report_state:
  "states_of es \<noteq> [] \<Longrightarrow> fst (last_report d es) = last (states_of es)"
  by (induction es) (auto split: event.splits)

lemma texts_of_out: "NUL \<notin> set (out_of es) \<Longrightarrow> texts_of out_data es = out_of es"
  by (induction es) (auto simp: out_data_def c_string_id split: event.splits)

lemma texts_of_err: "NUL \<notin> set (err_of es) \<Longrightarrow> texts_of err_data es = err_of es"
  by (induction es) (auto simp: err_data_def c_string_id split: event.splits)

lemma texts_of_none: "(\<And>e. e \<in> set es \<Longrightarrow> f e = None) \<Longrightarrow> texts_of f es = []"
  by (induction es) auto

subsection \<open>Recording\<close>

text \<open>
  The owner of a record keeps it next to two output streams; \<open>acc\<close> finds the three in the
  state. \<open>records\<close> says that they have followed the trace.
\<close>

definition records ::
  "(('k, 'z) world_scheme \<Rightarrow> pexec_status \<times> string \<times> string) \<Rightarrow>
   ('k, 'z) world_scheme \<Rightarrow> ('k, 'z) world_scheme \<Rightarrow> bool" where
  "records acc s t \<longleftrightarrow>
     (\<exists>es. trace t = es @ trace s \<and>
        map pexec_error (st_err (fst (acc t))) = map pexec_error (st_err (fst (acc s))) @ errors_of es \<and>
        fst (snd (acc t)) = fst (snd (acc s)) @ texts_of out_data es \<and>
        snd (snd (acc t)) = snd (snd (acc s)) @ texts_of err_data es \<and>
        (st_state (fst (acc t)), st_proc (fst (acc t))) =
          last_report (st_state (fst (acc s)), st_proc (fst (acc s))) es \<and>
        st_args (fst (acc t)) = st_args (fst (acc s)))"

interpretation rec: step_rel "records acc :: ('k, 'z) world_scheme \<Rightarrow> _"
proof
  fix s t u :: "('k, 'z) world_scheme"
  show "records acc s s" by (auto simp: records_def intro!: exI [of _ "[]"])
  assume "records acc s t" and "records acc t u"
  then obtain es fs where "trace t = es @ trace s" "trace u = fs @ trace t"
    and "map pexec_error (st_err (fst (acc t))) =
      map pexec_error (st_err (fst (acc s))) @ errors_of es"
    "map pexec_error (st_err (fst (acc u))) =
      map pexec_error (st_err (fst (acc t))) @ errors_of fs"
    "fst (snd (acc t)) = fst (snd (acc s)) @ texts_of out_data es"
    "fst (snd (acc u)) = fst (snd (acc t)) @ texts_of out_data fs"
    "snd (snd (acc t)) = snd (snd (acc s)) @ texts_of err_data es"
    "snd (snd (acc u)) = snd (snd (acc t)) @ texts_of err_data fs"
    "(st_state (fst (acc t)), st_proc (fst (acc t))) =
      last_report (st_state (fst (acc s)), st_proc (fst (acc s))) es"
    "(st_state (fst (acc u)), st_proc (fst (acc u))) =
      last_report (st_state (fst (acc t)), st_proc (fst (acc t))) fs"
    "st_args (fst (acc t)) = st_args (fst (acc s))" "st_args (fst (acc u)) = st_args (fst (acc t))"
    unfolding records_def by blast
  then show "records acc s u"
    unfolding records_def
    by (intro exI [of _ "fs @ es"]) (simp add: texts_of_append last_report_append)
qed

text \<open>Events without a report leave the record alone.\<close>

lemma records_quiet:
  assumes "trace t = es @ trace s" and "acc t = acc s"
    and "\<forall>e \<in> set es. case e of EState st p \<Rightarrow> False | EError er \<Rightarrow> False | EOut d \<Rightarrow> False
      | EErr d \<Rightarrow> False | _ \<Rightarrow> True"
  shows "records acc s t"
proof -
  have "errors_of es = [] \<and> texts_of out_data es = [] \<and> texts_of err_data es = [] \<and>
      last_report d es = d" for d
    using assms(3) by (induction es) (auto simp: out_data_def err_data_def split: event.splits)
  then show ?thesis unfolding records_def using assms(1,2) by auto
qed

end
