(* ===== verification/Exec.thy ===== *)
theory Exec
  imports Pexec_Status Pexec_Single_Props
begin

section \<open>The convenience function (exec.h, exec.cpp)\<close>

text \<open>
  \<open>exec\<close> runs one program with a local \<open>pexec<>\<close> object in the blocking mode and returns a
  \<open>pexec_status\<close>. Its local variables are fields of the state here: the result \<open>ret\<close> and
  the two string streams; the object is number \<open>this\<close> of the store. The user's state callback
  \<open>cb\<close> may be empty.
  The locale \<open>exec_client\<close> is the contract of that callback; under it the four lambdas are a
  client of the class \<open>pexec\<close>, and the record follows the trace of the run.
\<close>

record 'k exec_world = "'k pexec_world" +
  exec_ret :: pexec_status
  stdout_oss :: string
  stderr_oss :: string

type_synonym ('k, 'z) state_cb =
  "(pstate \<Rightarrow> proc_status \<Rightarrow> (('k, 'z) exec_world_scheme, proc_status) prog) option"

text \<open>The lambdas given to the object.\<close>

definition exec_callbacks ::
  "('k, 'z) state_cb \<Rightarrow> ('k, 'z) exec_world_scheme pexec_callbacks" where
  "exec_callbacks cb =
     set_state_cb (\<lambda>state proc.
       seq (upd (\<lambda>s. s\<lparr>exec_ret := (exec_ret s)\<lparr>st_proc := proc\<rparr>\<rparr>))
       (seq (upd (\<lambda>s. s\<lparr>exec_ret := (exec_ret s)\<lparr>st_state := state\<rparr>\<rparr>))
       (case cb of None \<Rightarrow> ret proc | Some f \<Rightarrow> f state proc)))
     (set_stderr_cb (\<lambda>data len. upd (\<lambda>s. s\<lparr>stderr_oss := stderr_oss s @ c_string data\<rparr>))
     (set_stdout_cb (\<lambda>data len. upd (\<lambda>s. s\<lparr>stdout_oss := stdout_oss s @ c_string data\<rparr>))
     (set_error_cb (\<lambda>err. upd (\<lambda>s. s\<lparr>exec_ret := (exec_ret s)
       \<lparr>st_err := st_err (exec_ret s) @ [mk_perror err (errno s)]\<rparr>\<rparr>))
     default_callbacks)))"

lemma exec_callbacks_fields [simp]:
  "pc_stdout (exec_callbacks cb) data len = upd (\<lambda>s. s\<lparr>stdout_oss := stdout_oss s @ c_string data\<rparr>)"
  "pc_stderr (exec_callbacks cb) data len = upd (\<lambda>s. s\<lparr>stderr_oss := stderr_oss s @ c_string data\<rparr>)"
  "pc_state (exec_callbacks cb) state proc =
     seq (upd (\<lambda>s. s\<lparr>exec_ret := (exec_ret s)\<lparr>st_proc := proc\<rparr>\<rparr>))
     (seq (upd (\<lambda>s. s\<lparr>exec_ret := (exec_ret s)\<lparr>st_state := state\<rparr>\<rparr>))
     (case cb of None \<Rightarrow> ret proc | Some f \<Rightarrow> f state proc))"
  "pc_error (exec_callbacks cb) err = upd (\<lambda>s. s\<lparr>exec_ret := (exec_ret s)
     \<lparr>st_err := st_err (exec_ret s) @ [mk_perror err (errno s)]\<rparr>\<rparr>)"
  by (simp_all add: exec_callbacks_def setters)

definition exec_locals :: "nat \<Rightarrow> string \<Rightarrow> (('k, 'z) exec_world_scheme, unit) prog" where
  "exec_locals this arg =
     upd (\<lambda>s. s\<lparr>objs := (objs s)(this := init_pexec 1024),
       exec_ret := init_pexec_status\<lparr>st_args := arg\<rparr>, stdout_oss := [], stderr_oss := []\<rparr>)"

definition exec ::
  "nat \<Rightarrow> 'k platform \<Rightarrow> ('k, 'z) state_cb \<Rightarrow> nat \<Rightarrow> string \<Rightarrow>
   (('k, 'z) exec_world_scheme, pexec_status) prog" where
  "exec N K cb this arg =
     seq (block [exec_locals this arg,
                 pexec_exec N K (exec_callbacks cb) this arg,
                 upd (\<lambda>s. s\<lparr>exec_ret := (exec_ret s)\<lparr>st_proc_out := stdout_oss s\<rparr>\<rparr>),
                 upd (\<lambda>s. s\<lparr>exec_ret := (exec_ret s)\<lparr>st_proc_err := stderr_oss s\<rparr>\<rparr>)])
         (gets exec_ret)"

subsection \<open>The contract of the user's callback\<close>

definition exec_acc :: "('k, 'z) exec_world_scheme \<Rightarrow> pexec_status \<times> string \<times> string" where
  "exec_acc s = (exec_ret s, stdout_oss s, stderr_oss s)"

locale exec_client =
  fixes cb :: "('k, 'z) state_cb" and this :: nat
  assumes cb_ok: "cb = Some f \<Longrightarrow> f st p s = Ret p' t \<Longrightarrow>
    client this s t \<and> sel t = sel s \<and> exec_acc t = exec_acc s \<and>
    ps_running p' = ps_running p \<and> ps_return_code p' = ps_return_code p"

lemma client_locals:
  "client this s (s\<lparr>exec_ret := r\<rparr>)" "client this s (s\<lparr>stdout_oss := d\<rparr>)"
  "client this s (s\<lparr>stderr_oss := d\<rparr>)"
  by (simp_all add: client_def)

context exec_client begin

lemma state_cb_Ret:
  assumes "pc_state (exec_callbacks cb) st p s = Ret p' t"
  shows "client this s t \<and> sel t = sel s \<and>
    exec_acc t = ((exec_ret s)\<lparr>st_proc := p, st_state := st\<rparr>, stdout_oss s, stderr_oss s) \<and>
    ps_running p' = ps_running p \<and> ps_return_code p' = ps_return_code p"
proof -
  let ?u = "s\<lparr>exec_ret := (exec_ret s)\<lparr>st_proc := p, st_state := st\<rparr>\<rparr>"
  have u: "client this s ?u" "sel ?u = sel s"
    "exec_acc ?u = ((exec_ret s)\<lparr>st_proc := p, st_state := st\<rparr>, stdout_oss s, stderr_oss s)"
    by (simp_all add: client_locals exec_acc_def)
  show ?thesis
  proof (cases cb)
    case None
    with assms u show ?thesis by (auto simp: ret_iffs)
  next
    case (Some f)
    then have "f st p ?u = Ret p' t"
      using assms by (auto simp: ret_iffs)
    from cb_ok [OF Some this] u show ?thesis by (auto intro: cl.R_trans)
  qed
qed

end

sublocale exec_client \<subseteq> px_local_client "exec_callbacks cb" this
proof
  show "pc_state (exec_callbacks cb) st p s = Ret p' t \<Longrightarrow>
    client this s t \<and> ps_running p' = ps_running p \<and> ps_return_code p' = ps_return_code p"
    for st p s p' t using state_cb_Ret by blast
  show "pres (\<lambda>s t. sel t = sel s) (pc_state (exec_callbacks cb) st p)" for st p
    using state_cb_Ret by (auto intro: presI)
qed (auto simp: intro!: pres_upd client_locals)

text \<open>An empty callback keeps the contract.\<close>

interpretation ec: exec_client None this
  by unfold_locales simp

subsection \<open>The record follows the trace\<close>

locale exec_io = exec_client cb this
  for cb :: "('k, 'z) state_cb" and this :: nat +
  fixes K :: "'k platform"
  assumes fit: "reads_fit K"

sublocale exec_io \<subseteq> px_io "exec_callbacks cb" this N K
  for N :: nat
  by unfold_locales (rule fit)

lemma more_exec:
  fixes s t :: "('k, 'z) exec_world_scheme"
  shows "pexec_world.more t = pexec_world.more s \<Longrightarrow> exec_acc t = exec_acc s"
  by (cases s; cases t) (simp add: exec_acc_def)

sublocale exec_io \<subseteq> rc: px_frame "records exec_acc" "exec_callbacks cb" this K
proof
  fix s t :: "('k, 'z) exec_world_scheme"
  show "records exec_acc s t" if "adds unreported s t"
  proof -
    from that obtain es where "trace t = es @ trace s" "\<forall>e \<in> set es. unreported e"
      and "world.more t = world.more s" by (auto simp: adds_def)
    moreover from this(3) have "exec_acc t = exec_acc s" using more_pexec [of t s] more_exec [of t s] by simp
    ultimately show ?thesis
      by (intro records_quiet [of t es s]) (auto simp: unreported_def split: event.splits)
  qed
next
  fix e
  show "pres (records exec_acc) (process_error (exec_callbacks cb) this e)"
    by (auto simp: process_error_def note_event_def this_upd_def ret_iffs
        records_def exec_acc_def mk_perror_def out_data_def err_data_def
        intro!: presI exI [of _ "[EError e]"])
next
  fix st
  show "pres (records exec_acc) (call_state (exec_callbacks cb) this st)"
  proof (rule presI)
    fix s t :: "('k, 'z) exec_world_scheme" and r
    let ?p = "px_proc (objs s this)"
    let ?v = "s\<lparr>trace := EState st ?p # trace s\<rparr>"
    assume "call_state (exec_callbacks cb) this st s = Ret r t"
    then obtain p' u where u: "pc_state (exec_callbacks cb) st ?p ?v = Ret p' u"
      and t: "t = u\<lparr>objs := (objs u)(this := (objs u this)\<lparr>px_proc := p'\<rparr>)\<rparr>"
      by (auto simp: call_state_def this_gets_def this_upd_def note_event_def ret_iffs)
    from state_cb_Ret [OF u] obtain es where
      es: "trace u = es @ trace ?v" "\<forall>e \<in> set es. client_event e"
      and acc: "exec_acc u = ((exec_ret s)\<lparr>st_proc := ?p, st_state := st\<rparr>, stdout_oss s, stderr_oss s)"
      by (auto simp: client_def)
    have "records exec_acc s (?v\<lparr>exec_ret := (exec_ret s)\<lparr>st_proc := ?p, st_state := st\<rparr>\<rparr>)"
      by (auto simp: records_def exec_acc_def out_data_def err_data_def
          intro!: exI [of _ "[EState st ?p]"])
    moreover have "records exec_acc (?v\<lparr>exec_ret := (exec_ret s)\<lparr>st_proc := ?p, st_state := st\<rparr>\<rparr>) u"
      using es acc
      by (intro records_quiet [of _ es]) (auto simp: exec_acc_def client_event_def split: event.splits)
    moreover have "records exec_acc u t"
      unfolding t by (intro records_quiet [of _ "[]"]) (simp_all add: exec_acc_def)
    ultimately show "records exec_acc s t" by (blast intro: rec.R_trans)
  qed
next
  fix n ch r and s t :: "('k, 'z) exec_world_scheme"
  let ?buf = "(px_read_buffer (objs s this))[n := NUL]"
  assume n: "n < length (px_read_buffer (objs s this))"
    and run: "seq (terminate_buffer this n) (deliver (exec_callbacks cb) this ch n) s = Ret r t"
  have "c_string ?buf = c_string (take n ?buf)"
    using n by (intro c_string_terminated) simp_all
  with run show "records exec_acc s t"
    by (cases ch)
       (auto simp: terminate_buffer_def deliver_def this_gets_def this_upd_def note_event_def
        ret_iffs records_def exec_acc_def out_data_def err_data_def
        intro!: exI [of _ "[chan_event ch (take n ?buf)]"])
qed (auto simp: exec_acc_def fit intro!: records_quiet [of _ "[]"])

subsection \<open>A whole call\<close>

context exec_io begin

text \<open>The state in which the object starts, and what is known when the call returns.\<close>

lemma exec_Ret:
  assumes run: "exec N K cb this arg s = Ret st t"
    and pipe: "fds_of (sigchld_blocking_pipe_signal s) = {}" and cl: "closes_own (trace s)"
    and fresh: "fresh_pipes (trace t)"
  shows "\<exists>es. trace t = es @ trace s \<and> open_fds (trace t) = open_fds (trace s) \<and>
    fds_of (sigchld_blocking_pipe_signal t) = {} \<and>
    (run_failed es \<or> (\<exists>n fin prev. run_ok n fin prev es)) \<and>
    map pexec_error (st_err st) = errors_of es \<and> st_args st = arg \<and>
    st_proc_out st = texts_of out_data es \<and> st_proc_err st = texts_of err_data es \<and>
    (st_state st, st_proc st) = last_report (STARTED, init_proc_status) es"
proof -
  let ?s = "s\<lparr>objs := (objs s)(this := init_pexec 1024),
       exec_ret := init_pexec_status\<lparr>st_args := arg\<rparr>, stdout_oss := [], stderr_oss := []\<rparr>"
  from run obtain u where u: "pexec_exec N K (exec_callbacks cb) this arg ?s = Ret () u"
    and t: "trace t = trace u" "sigchld_blocking_pipe_signal t = sigchld_blocking_pipe_signal u"
    and st: "st = (exec_ret u)\<lparr>st_proc_out := stdout_oss u, st_proc_err := stderr_oss u\<rparr>"
    by (auto simp: exec_def exec_locals_def ret_iffs)
  have "fds_of (pipe_of n this ?s) = {}" for n
    using pipe by (cases n) (auto simp: init_pexec_def fds_of_def)
  then have "idle this ?s" by (simp add: idle_def)
  moreover have "px_type (objs ?s this) = BLOCKING" by (simp add: init_pexec_def)
  ultimately have "idle this u \<and> open_fds (trace u) = open_fds (trace s) \<and>
      (\<exists>es. trace u = es @ trace s \<and> (run_failed es \<or> (\<exists>n fin prev. run_ok n fin prev es)))"
    using exec_blocking_io [OF u _ _ _ fresh [unfolded t(1)]] cl by fastforce
  then obtain es where es: "trace u = es @ trace s"
    "run_failed es \<or> (\<exists>n fin prev. run_ok n fin prev es)"
    and d: "idle this u" "open_fds (trace u) = open_fds (trace s)" by blast
  have "px_type (objs u this) = BLOCKING"
    using presD [OF sm.R_exec u] by (simp add: same_mode_def init_pexec_def)
  with d(1) have "fds_of (pipe_of PSignal this u) = {}"
    unfolding idle_def by (auto simp: owned_names_def simp del: pipe_of.simps)
  then have "fds_of (sigchld_blocking_pipe_signal u) = {}" by simp
  moreover from presD [OF rc.R_exec u] obtain fs where fs: "trace u = fs @ trace s"
    "map pexec_error (st_err (exec_ret u)) = errors_of fs"
    "stdout_oss u = texts_of out_data fs" "stderr_oss u = texts_of err_data fs"
    "(st_state (exec_ret u), st_proc (exec_ret u)) = last_report (STARTED, init_proc_status) fs"
    "st_args (exec_ret u) = arg"
    by (auto simp: records_def exec_acc_def init_pexec_status_def)
  moreover from fs(1) es(1) have "fs = es" by simp
  ultimately show ?thesis
    using es d t st by (intro exI [of _ es]) auto
qed

end

lemmas exec_facts = exec_io.exec_Ret [OF exec_io.intro [OF _ exec_io_axioms.intro]]

lemma last_run_ok: "states_of es = STARTED # replicate n SIGNALED @ [fin] \<Longrightarrow> last (states_of es) = fin"
  by simp

text \<open>The example of the class, run through this function; its buffer is the default one.\<close>

definition demo_exec_world :: "script \<Rightarrow> script exec_world" where
  "demo_exec_world sc =
     \<lparr>kst = sc, errno = 0, trace = [], sigchld_blocking_pipe_signal = (-1, -1),
      sel = init_select_event, sigchld_sa_prev = SIG_DFL, sigchld_pipe_signal = (-1, -1),
      sigchld_active = False, sh_err = NO_ERROR, sh_signal_set = {},
      objs = (\<lambda>_. init_pexec 8), exec_ret = init_pexec_status, stdout_oss = [], stderr_oss = []\<rparr>"

lemmas demo_exec_run =
  pexec_run demo_script_def demo_exec_world_def demo_arg demo_status update_proc_status_fields
  fork_error_def exec_def [THEN fun_cong] exec_locals_def [THEN fun_cong]
  init_pexec_status_def c_string_def mk_perror_def replicate_update

lemma demo_exec:
  "\<exists>st t. exec fuel script_platform None 0 ''true'' (demo_exec_world demo_script) = Ret st t \<and>
     fresh_pipes (trace t) \<and> st_proc_out st = ''hi'' \<and> st_state st = STOPPED \<and>
     ps_return_code (st_proc st) = 3"
  by (simp add: demo_exec_run del: lazy)

lemmas demo_exec_hyps = ec.exec_client_axioms reads_fit_script

lemma demo_exec_start:
  "fds_of (sigchld_blocking_pipe_signal (demo_exec_world sc)) = {}"
  "trace (demo_exec_world sc) = []"
  by (simp_all add: demo_exec_world_def fds_of_def)

subsection \<open>Properties\<close>

text \<open>
  Property C5. The record that \<open>exec\<close> returns tells the truth about the run, whatever the
  platform does: its arguments are those of the call, its errors are exactly the errors
  reported, in order, so it is valid when there was none, its state is the last one reported
  and says that the run is over, FAIL_STOPPED exactly when no child was started, which a
  valid record excludes; and nothing is left open, so that \<open>exec\<close> can be called again.
\<close>

theorem exec_result:
  assumes "exec_client cb this" and "reads_fit K"
    and "fds_of (sigchld_blocking_pipe_signal s) = {}" and "closes_own (trace s)"
    and "fresh_pipes (trace t)" and "exec N K cb this arg s = Ret st t"
  shows "\<exists>es. trace t = es @ trace s \<and> st_args st = arg \<and>
     map pexec_error (st_err st) = errors_of es \<and> valid st = (errors_of es = []) \<and>
     st_state st = last (states_of es) \<and>
     st_state st \<in> {STOPPED, USER_STOPPED, FAIL_STOPPED} \<and>
     (st_state st = FAIL_STOPPED) = (forks_of es = []) \<and>
     \<not> (valid st \<and> st_state st = FAIL_STOPPED) \<and>
     open_fds (trace t) = open_fds (trace s) \<and> fds_of (sigchld_blocking_pipe_signal t) = {}"
proof -
  from exec_facts [OF assms(1,2,6,3,4,5)] obtain es where es: "trace t = es @ trace s"
    "open_fds (trace t) = open_fds (trace s)" "fds_of (sigchld_blocking_pipe_signal t) = {}"
    "run_failed es \<or> (\<exists>n fin prev. run_ok n fin prev es)"
    "map pexec_error (st_err st) = errors_of es" "st_args st = arg"
    "(st_state st, st_proc st) = last_report (STARTED, init_proc_status) es" by blast
  have v: "valid st = (errors_of es = [])"
    unfolding valid_def es(5) [symmetric] by simp
  have "states_of es \<noteq> []" using es(4) by (auto simp: run_failed_def run_ok_def)
  from last_report_state [OF this, of "(STARTED, init_proc_status)"]
  have last: "st_state st = last (states_of es)" using es(7) by (metis fst_conv)
  from es(4) show ?thesis
  proof
    assume "run_failed es"
    with es v last show ?thesis by (intro exI [of _ es]) (auto simp: run_failed_def)
  next
    assume "\<exists>n fin prev. run_ok n fin prev es"
    then obtain n fin prev where ok: "run_ok n fin prev es" by blast
    then have "last (states_of es) = fin" by (intro last_run_ok) (simp add: run_ok_def)
    with ok es v last show ?thesis by (intro exI [of _ es]) (auto simp: run_ok_def)
  qed
qed

theorem exec_result_witness:
  "\<exists>st t. exec fuel script_platform None 0 ''true'' (demo_exec_world demo_script) = Ret st t \<and>
     st_args st = ''true'' \<and> map pexec_error (st_err st) = errors_of (trace t) \<and>
     st_state st = STOPPED \<and> forks_of (trace t) \<noteq> [] \<and> open_fds (trace t) = {}"
proof -
  obtain st t where t: "exec fuel script_platform None 0 ''true'' (demo_exec_world demo_script) =
      Ret st t" "fresh_pipes (trace t)" "st_state st = STOPPED"
    using demo_exec by blast
  from exec_result [OF demo_exec_hyps demo_exec_start(1) _ t(2,1)] t(1,3) show ?thesis
    by (auto simp: demo_exec_start(2))
qed

text \<open>
  Property C16. The output in the record: when no NUL byte was read, it is, in order and
  without a gap, what \<open>read\<close> returned on the two output pipes of the child; a run without a
  child has none.
\<close>

theorem exec_collects_output:
  assumes "exec_client cb this" and "reads_fit K"
    and "fds_of (sigchld_blocking_pipe_signal s) = {}" and "closes_own (trace s)"
    and "fresh_pipes (trace t)" and "exec N K cb this arg s = Ret st t"
  shows "\<exists>es. trace t = es @ trace s \<and>
     (let out = read_from (fst (pipes_of es ! 1)) es; err = read_from (fst (pipes_of es ! 2)) es in
      if forks_of es = [] then st_proc_out st = [] \<and> st_proc_err st = []
      else (NUL \<in> set out \<or> st_proc_out st = out) \<and> (NUL \<in> set err \<or> st_proc_err st = err))"
proof -
  from exec_facts [OF assms(1,2,6,3,4,5)] obtain es where es: "trace t = es @ trace s"
    "run_failed es \<or> (\<exists>n fin prev. run_ok n fin prev es)"
    "st_proc_out st = texts_of out_data es" "st_proc_err st = texts_of err_data es" by blast
  from es(2) show ?thesis
  proof
    assume "run_failed es"
    with es texts_of_out [of es] texts_of_err [of es] show ?thesis
      by (intro exI [of _ es]) (simp add: run_failed_def)
  next
    assume "\<exists>n fin prev. run_ok n fin prev es"
    then have "out_of es = read_from (fst (pipes_of es ! 1)) es" "forks_of es \<noteq> []"
      "err_of es = read_from (fst (pipes_of es ! 2)) es" by (auto simp: run_ok_def)
    with es texts_of_out [of es] texts_of_err [of es] show ?thesis
      by (intro exI [of _ es]) (simp add: Let_def, blast)
  qed
qed

theorem exec_collects_output_witness:
  "\<exists>st t. exec fuel script_platform None 0 ''true'' (demo_exec_world demo_script) = Ret st t \<and>
     st_proc_out st = ''hi'' \<and>
     (NUL \<in> set (read_from (fst (pipes_of (trace t) ! 1)) (trace t)) \<or>
      read_from (fst (pipes_of (trace t) ! 1)) (trace t) = ''hi'')"
proof -
  obtain st t where t: "exec fuel script_platform None 0 ''true'' (demo_exec_world demo_script) =
      Ret st t" "fresh_pipes (trace t)" "st_proc_out st = ''hi''"
    using demo_exec by blast
  from exec_collects_output [OF demo_exec_hyps demo_exec_start(1) _ t(2,1)] t(1,3) show ?thesis
    by (auto simp: demo_exec_start(2) Let_def split: if_splits)
qed

text \<open>
  The restriction to output without NUL is needed: a child that writes the
  three bytes a, NUL, b leaves a record with only the first of them, although the class has
  passed all three, with their number, to the output callback, and reports no error.
\<close>

theorem exec_cuts_output_at_NUL:
  "\<exists>st t. exec fuel script_platform None 0 ''true''
       (demo_exec_world (demo_script\<lparr>sc_read :=
          [Inr [CHR ''a'', NUL, CHR ''b''], Inr [CHR 0x11, NUL, NUL, NUL]]\<rparr>)) = Ret st t \<and>
     valid st \<and> st_state st = STOPPED \<and> st_proc_out st = ''a'' \<and>
     out_of (trace t) = [CHR ''a'', NUL, CHR ''b'']"
  by (simp add: demo_exec_run valid_def del: lazy)

end
