(* ===== verification/Pexec_Multi.thy ===== *)
theory Pexec_Multi
  imports Pexec_Status Pexec_Single Queue_Buffer "HOL-Library.AList"
begin

section \<open>Many child processes (pexec_multi.h, pexec_multi.cpp)\<close>

text \<open>
  \<open>pexec_multi\<close> runs any number of programs on one event loop. Users add jobs to a queue,
  from any thread; the loop takes them off when the control pipe becomes readable, starts the
  programs with nonblocking \<open>pexec\<close> objects, watches their descriptors, gives each ended
  child to its object, and ends itself after a stop job, when the last program has ended.
  A handle (\<open>pexec_multi_handle\<close>) is a number; its \<open>proc_\<close> is the \<open>pexec\<close> object with that
  number. Functions that user code supplies are the argument \<open>U\<close>: the callbacks of each
  handle, the error callback, and the function given to \<open>register_event\<close>; an empty
  \<open>std::function\<close> is \<open>None\<close>. The lambdas of the library are constructors.
  \<open>std::unordered_map\<close> \<open>active_procs_\<close> is iterated, so it is an association list whose
  order the platform chooses; \<open>registered_fd_\<close> is not.
\<close>

datatype loop_type = DEFAULT | EXTERNAL

datatype fd_action = ADD_EVENT | REMOVE_EVENT

datatype fd_what = READ | WRITE

datatype stop_flag = STOP_WAIT | STOP_USER | STOP_KILL

text \<open>A job: \<open>pexec_stop\<close> with its flag and signal, or the handle of a process to spawn.\<close>

datatype pexec_job = Stop stop_flag int | Spawn nat

record multi_handle =
  mh_fds :: pexec_fds
  mh_ret :: pexec_status
  mh_stdout_oss :: string
  mh_stderr_oss :: string
  mh_proc_stopped :: "int option" \<comment> \<open>\<open>on_proc_stopped_cb_\<close>: the process id it captured\<close>

text \<open>The functions in \<open>registered_fd_\<close>.\<close>

datatype reg_cb = RSignal | RControl | RClose nat | RStdout nat | RStderr nat

text \<open>What \<open>register_function_cb_\<close> holds: nothing, the lambda of \<open>run\<close>, or the user's.\<close>

datatype register_cb = NoRegister | LoopRegister | UserRegister

text \<open>The pointer \<open>sigchld\<close>, and whether its object has got its callbacks.\<close>

datatype sigchld_ptr = NoSigchld | BareSigchld | WiredSigchld

record 'k multi_world = "'k pexec_world" +
  mu_handles :: "nat \<Rightarrow> multi_handle"
  mu_control_pipe :: "int \<times> int"
  mu_type :: loop_type
  mu_sigchld :: sigchld_ptr
  mu_loop :: bool
  mu_buffer :: "pexec_job option queue_buffer"
  mu_active :: "(int \<times> nat) list"
  mu_err :: error
  mu_registered :: "(int \<times> reg_cb) list"
  mu_register :: register_cb
  mu_stop_flag :: stop_flag
  mu_stop_signum :: int
  mu_stopping :: bool

record 's handle_user =
  hu_stdout :: "(string \<Rightarrow> nat \<Rightarrow> ('s, unit) prog) option"
  hu_stderr :: "(string \<Rightarrow> nat \<Rightarrow> ('s, unit) prog) option"
  hu_state :: "(pstate \<Rightarrow> proc_status \<Rightarrow> ('s, proc_status) prog) option"
  hu_error :: "(error \<Rightarrow> ('s, unit) prog) option"
  hu_on_stop :: "(pexec_status \<Rightarrow> ('s, unit) prog) option"

record 's multi_user =
  us_handle :: "nat \<Rightarrow> 's handle_user"
  us_error :: "(error \<Rightarrow> ('s, unit) prog) option"
  us_register :: "int \<Rightarrow> fd_action \<Rightarrow> fd_what \<Rightarrow> ('s, unit) prog"

type_synonym ('k, 'z) user = "('k, 'z) multi_world_scheme multi_user"

text \<open>The setters of a handle's callbacks and of the manager's; an empty function unsets one.\<close>

definition handle_set_stdout_cb ::
  "(string \<Rightarrow> nat \<Rightarrow> ('s, unit) prog) option \<Rightarrow> 's handle_user \<Rightarrow> 's handle_user" where
  "handle_set_stdout_cb cb u = u\<lparr>hu_stdout := cb\<rparr>"

definition handle_set_stderr_cb ::
  "(string \<Rightarrow> nat \<Rightarrow> ('s, unit) prog) option \<Rightarrow> 's handle_user \<Rightarrow> 's handle_user" where
  "handle_set_stderr_cb cb u = u\<lparr>hu_stderr := cb\<rparr>"

definition handle_set_state_cb ::
  "(pstate \<Rightarrow> proc_status \<Rightarrow> ('s, proc_status) prog) option \<Rightarrow> 's handle_user \<Rightarrow> 's handle_user" where
  "handle_set_state_cb cb u = u\<lparr>hu_state := cb\<rparr>"

definition handle_set_error_cb ::
  "(error \<Rightarrow> ('s, unit) prog) option \<Rightarrow> 's handle_user \<Rightarrow> 's handle_user" where
  "handle_set_error_cb cb u = u\<lparr>hu_error := cb\<rparr>"

definition on_stop ::
  "(pexec_status \<Rightarrow> ('s, unit) prog) option \<Rightarrow> 's handle_user \<Rightarrow> 's handle_user" where
  "on_stop cb u = u\<lparr>hu_on_stop := cb\<rparr>"

definition mu_on_error :: "(error \<Rightarrow> ('s, unit) prog) option \<Rightarrow> 's multi_user \<Rightarrow> 's multi_user" where
  "mu_on_error cb U = U\<lparr>us_error := cb\<rparr>"

lemmas handle_setters =
  handle_set_stdout_cb_def handle_set_stderr_cb_def handle_set_state_cb_def handle_set_error_cb_def
  on_stop_def mu_on_error_def

definition handle_upd ::
  "nat \<Rightarrow> (multi_handle \<Rightarrow> multi_handle) \<Rightarrow> (('k, 'z) multi_world_scheme, unit) prog" where
  "handle_upd h f = upd (\<lambda>s. s\<lparr>mu_handles := (mu_handles s)(h := f (mu_handles s h))\<rparr>)"

definition handle_gets ::
  "nat \<Rightarrow> (multi_handle \<Rightarrow> 'a) \<Rightarrow> (('k, 'z) multi_world_scheme, 'a) prog" where
  "handle_gets h f = gets (\<lambda>s. f (mu_handles s h))"

subsection \<open>Jobs and registration\<close>

definition mu_process_error :: "('k, 'z) user \<Rightarrow> error \<Rightarrow> (('k, 'z) multi_world_scheme, unit) prog" where
  "mu_process_error U err =
     seq (upd (\<lambda>s. s\<lparr>mu_err := err\<rparr>)) (case us_error U of None \<Rightarrow> skip | Some f \<Rightarrow> f err)"

definition mu_interrupt :: "'k platform \<Rightarrow> (('k, 'z) multi_world_scheme, unit) prog" where
  "mu_interrupt K =
     bind (gets (\<lambda>s. snd (mu_control_pipe s))) (\<lambda>fd.
     bind (sys_write K fd [NUL]) (\<lambda>_. skip))"

text \<open>\<open>buffer.add\<close> blocks while the queue is full.\<close>

definition send_job ::
  "'k platform \<Rightarrow> pexec_job option \<Rightarrow> (('k, 'z) multi_world_scheme, unit) prog" where
  "send_job K ptr =
     seq (bind (gets (\<lambda>s. qb_add ptr (mu_buffer s))) (\<lambda>q. case q of
            None \<Rightarrow> spin
          | Some q \<Rightarrow> upd (\<lambda>s. s\<lparr>mu_buffer := q\<rparr>)))
         (mu_interrupt K)"

definition send_job_nullptr_stop :: "'k platform \<Rightarrow> (('k, 'z) multi_world_scheme, unit) prog" where
  "send_job_nullptr_stop K = send_job K None"

text \<open>
  A call of \<open>register_function_cb_\<close>. The lambda of \<open>run\<close> uses the event loop, which must
  exist.
\<close>

definition register_call ::
  "'k platform \<Rightarrow> ('k, 'z) user \<Rightarrow> int \<Rightarrow> fd_action \<Rightarrow> fd_what \<Rightarrow>
   (('k, 'z) multi_world_scheme, unit) prog" where
  "register_call K U fd act what =
     bind (gets mu_register) (\<lambda>r. case r of
       NoRegister \<Rightarrow> skip
     | LoopRegister \<Rightarrow>
         bind (gets mu_loop) (\<lambda>loop.
         if \<not> loop then finish Aborted
         else (case act of
             ADD_EVENT \<Rightarrow> se_add_read_event K fd (Some DoAction)
           | REMOVE_EVENT \<Rightarrow> se_remove_read_event fd))
     | UserRegister \<Rightarrow> us_register U fd act what)"

definition mu_add_read_event ::
  "'k platform \<Rightarrow> ('k, 'z) user \<Rightarrow> int \<Rightarrow> reg_cb \<Rightarrow> (('k, 'z) multi_world_scheme, unit) prog" where
  "mu_add_read_event K U fd cb =
     seq (upd (\<lambda>s. s\<lparr>mu_registered := AList.update fd cb (mu_registered s)\<rparr>))
         (register_call K U fd ADD_EVENT READ)"

definition mu_remove_read_event ::
  "'k platform \<Rightarrow> ('k, 'z) user \<Rightarrow> int \<Rightarrow> (('k, 'z) multi_world_scheme, unit) prog" where
  "mu_remove_read_event K U fd =
     seq (upd (\<lambda>s. s\<lparr>mu_registered := AList.delete fd (mu_registered s)\<rparr>))
         (register_call K U fd REMOVE_EVENT READ)"

definition register_event :: "(('k, 'z) multi_world_scheme, unit) prog" where
  "register_event = upd (\<lambda>s. s\<lparr>mu_register := UserRegister\<rparr>)"

definition mu_last_error :: "(('k, 'z) multi_world_scheme, error) prog" where
  "mu_last_error = gets mu_err"

definition set_loop_type :: "loop_type \<Rightarrow> (('k, 'z) multi_world_scheme, unit) prog" where
  "set_loop_type lt = upd (\<lambda>s. s\<lparr>mu_type := lt\<rparr>)"

subsection \<open>Active processes\<close>

text \<open>\<open>active_procs_[pid] = proc\<close>: a new key goes where the platform puts it.\<close>

definition put_active :: "'k platform \<Rightarrow> int \<Rightarrow> nat \<Rightarrow> (int \<times> nat) list \<Rightarrow> (int \<times> nat) list" where
  "put_active K pid h ps =
     (if map_of ps pid = None
      then (let i = map_place K (map fst ps) pid in take i ps @ (pid, h) # drop i ps)
      else AList.update pid h ps)"

text \<open>Some shared pointer to the handle exists: \<open>weak_proc.lock()\<close> is not null.\<close>

fun refers :: "nat \<Rightarrow> reg_cb \<Rightarrow> bool" where
  "refers h (RClose h') = (h = h')"
| "refers h (RStdout h') = (h = h')"
| "refers h (RStderr h') = (h = h')"
| "refers h RSignal = False"
| "refers h RControl = False"

definition alive :: "nat \<Rightarrow> ('k, 'z) multi_world_scheme \<Rightarrow> bool" where
  "alive h s \<longleftrightarrow> h \<in> snd ` set (mu_active s) \<or> (\<exists>c \<in> snd ` set (mu_registered s). refers h c)"

text \<open>The lambda given to \<open>on_proc_stopped\<close>.\<close>

definition proc_stopped ::
  "'k platform \<Rightarrow> ('k, 'z) user \<Rightarrow> nat \<Rightarrow> int \<Rightarrow> (('k, 'z) multi_world_scheme, unit) prog" where
  "proc_stopped K U h pid =
     seq (bind (gets (alive h)) assertion)
     (bind (handle_gets h mh_fds) (\<lambda>fds.
      block [mu_remove_read_event K U (watch_close_write_fd fds),
             mu_remove_read_event K U (stdout_read_fd fds),
             mu_remove_read_event K U (stderr_read_fd fds),
             upd (\<lambda>s. s\<lparr>mu_active := AList.delete pid (mu_active s)\<rparr>),
             bind (gets (\<lambda>s. mu_stopping s \<and> mu_active s = [])) (\<lambda>last.
               onlyif last (send_job_nullptr_stop K))]))"

subsection \<open>Handles\<close>

definition final_state :: "pstate \<Rightarrow> bool" where
  "final_state st \<longleftrightarrow> st = STOPPED \<or> st = USER_STOPPED \<or> st = FAIL_STOPPED"

text \<open>The lambda for the state callback, up to \<open>ret_.state = state\<close>, and after it.\<close>

definition handle_state ::
  "('k, 'z) user \<Rightarrow> nat \<Rightarrow> pstate \<Rightarrow> proc_status \<Rightarrow>
   (('k, 'z) multi_world_scheme, proc_status) prog" where
  "handle_state U h state stat =
     bind (case hu_state (us_handle U h) of None \<Rightarrow> ret stat | Some f \<Rightarrow> f state stat) (\<lambda>stat.
     seq (handle_upd h (\<lambda>x. x\<lparr>mh_ret := (mh_ret x)\<lparr>st_proc := stat\<rparr>\<rparr>))
     (seq (handle_upd h (\<lambda>x. x\<lparr>mh_ret := (mh_ret x)\<lparr>st_state := state\<rparr>\<rparr>))
     (ret stat)))"

definition handle_final ::
  "'k platform \<Rightarrow> ('k, 'z) user \<Rightarrow> nat \<Rightarrow> (('k, 'z) multi_world_scheme, unit) prog" where
  "handle_final K U h =
     block [handle_upd h (\<lambda>x. x\<lparr>mh_ret := (mh_ret x)\<lparr>st_proc_out := mh_stdout_oss x\<rparr>\<rparr>),
            handle_upd h (\<lambda>x. x\<lparr>mh_ret := (mh_ret x)\<lparr>st_proc_err := mh_stderr_oss x\<rparr>\<rparr>),
            (case hu_on_stop (us_handle U h) of
               None \<Rightarrow> skip
             | Some f \<Rightarrow> bind (handle_gets h mh_ret) f),
            bind (handle_gets h mh_proc_stopped) (\<lambda>cb.
              case cb of None \<Rightarrow> skip | Some pid \<Rightarrow> proc_stopped K U h pid)]"

definition handle_callbacks ::
  "'k platform \<Rightarrow> ('k, 'z) user \<Rightarrow> nat \<Rightarrow> ('k, 'z) multi_world_scheme pexec_callbacks" where
  "handle_callbacks K U h =
     \<lparr>pc_stdout = (\<lambda>data len. case hu_stdout (us_handle U h) of
        Some f \<Rightarrow> f data len
      | None \<Rightarrow> handle_upd h (\<lambda>x. x\<lparr>mh_stdout_oss := mh_stdout_oss x @ c_string data\<rparr>)),
      pc_stderr = (\<lambda>data len. case hu_stderr (us_handle U h) of
        Some f \<Rightarrow> f data len
      | None \<Rightarrow> handle_upd h (\<lambda>x. x\<lparr>mh_stderr_oss := mh_stderr_oss x @ c_string data\<rparr>)),
      pc_state = (\<lambda>state stat.
        bind (handle_state U h state stat) (\<lambda>stat.
        seq (onlyif (final_state state) (handle_final K U h)) (ret stat))),
      pc_error = (\<lambda>err. case hu_error (us_handle U h) of
        Some f \<Rightarrow> f err
      | None \<Rightarrow> bind (gets errno) (\<lambda>code.
          handle_upd h (\<lambda>x. x\<lparr>mh_ret := (mh_ret x)\<lparr>st_err := st_err (mh_ret x) @ [mk_perror err code]\<rparr>\<rparr>)))\<rparr>"

text \<open>The constructor: \<open>std::make_shared<pexec_multi_handle>(args)\<close>.\<close>

definition make_handle :: "nat \<Rightarrow> string \<Rightarrow> (('k, 'z) multi_world_scheme, unit) prog" where
  "make_handle h args =
     block [upd (\<lambda>s. s\<lparr>mu_handles := (mu_handles s)(h :=
              \<lparr>mh_fds = \<lparr>stdout_read_fd = 0, stderr_read_fd = 0, stdin_write_fd = 0,
                 watch_close_write_fd = 0\<rparr>,
               mh_ret = init_pexec_status, mh_stdout_oss = [], mh_stderr_oss = [],
               mh_proc_stopped = None\<rparr>),
              objs := (objs s)(h := init_pexec 1024)\<rparr>),
            handle_upd h (\<lambda>x. x\<lparr>mh_ret := (mh_ret x)\<lparr>st_args := args\<rparr>\<rparr>),
            set_type h NONBLOCKING]"

definition handle_exec ::
  "nat \<Rightarrow> 'k platform \<Rightarrow> ('k, 'z) user \<Rightarrow> nat \<Rightarrow> (('k, 'z) multi_world_scheme, unit) prog" where
  "handle_exec N K U h =
     bind (handle_gets h (\<lambda>x. st_args (mh_ret x))) (\<lambda>args.
     seq (pexec_exec N K (handle_callbacks K U h) h args)
     (bind (get_fds h) (\<lambda>fds. handle_upd h (\<lambda>x. x\<lparr>mh_fds := fds\<rparr>))))"

definition handle_pid :: "nat \<Rightarrow> (('k, 'z) multi_world_scheme, int) prog" where
  "handle_pid h = handle_gets h (\<lambda>x. ps_pid (st_proc (mh_ret x)))"

definition on_proc_stopped :: "nat \<Rightarrow> int \<Rightarrow> (('k, 'z) multi_world_scheme, unit) prog" where
  "on_proc_stopped h pid = handle_upd h (\<lambda>x. x\<lparr>mh_proc_stopped := Some pid\<rparr>)"

subsection \<open>Handling jobs\<close>

definition cleanup :: "'k platform \<Rightarrow> (('k, 'z) multi_world_scheme, unit) prog" where
  "cleanup K =
     seq (upd (\<lambda>s. s\<lparr>mu_stopping := True\<rparr>))
     (bind (gets mu_stop_flag) (\<lambda>flag. case flag of
        STOP_USER \<Rightarrow>
          bind (gets mu_active) (\<lambda>ps. foreach ps (\<lambda>p.
            bind (handle_gets (snd p) (\<lambda>x. st_proc (mh_ret x))) (user_stop K)))
      | STOP_KILL \<Rightarrow>
          bind (gets mu_active) (\<lambda>ps. foreach ps (\<lambda>p.
            bind (gets mu_stop_signum) (\<lambda>sig. bind (sys_kill K (fst p) sig) (\<lambda>_. skip))))
      | STOP_WAIT \<Rightarrow> skip))"

definition job_nullptr_stop :: "'k platform \<Rightarrow> (('k, 'z) multi_world_scheme, event_return) prog" where
  "job_nullptr_stop K =
     bind (gets (\<lambda>s. \<not> mu_stopping s \<and> mu_active s \<noteq> [])) (\<lambda>first.
     if first then seq (cleanup K) (ret NOTHING)
     else bind (gets (\<lambda>s. mu_active s = [])) (\<lambda>empty.
       ret (if empty then STOP_LOOP else NOTHING)))"

definition job_stop ::
  "'k platform \<Rightarrow> stop_flag \<Rightarrow> int \<Rightarrow> (('k, 'z) multi_world_scheme, event_return) prog" where
  "job_stop K flag signum =
     bind (gets mu_stopping) (\<lambda>stopping.
     if stopping then ret NOTHING
     else seq (block [upd (\<lambda>s. s\<lparr>mu_stop_flag := flag\<rparr>), upd (\<lambda>s. s\<lparr>mu_stop_signum := signum\<rparr>)])
              (job_nullptr_stop K))"

definition job_spawn_proc ::
  "nat \<Rightarrow> 'k platform \<Rightarrow> ('k, 'z) user \<Rightarrow> nat \<Rightarrow>
   (('k, 'z) multi_world_scheme, event_return) prog" where
  "job_spawn_proc N K U h =
     bind (gets mu_stopping) (\<lambda>stopping.
     if stopping then ret NOTHING
     else
       seq (handle_exec N K U h)
       (bind (handle_pid h) (\<lambda>pid.
        seq (block [assertion (0 < pid),
                    upd (\<lambda>s. s\<lparr>mu_active := put_active K pid h (mu_active s)\<rparr>),
                    on_proc_stopped h pid])
        (bind (handle_gets h mh_fds) (\<lambda>fds.
         seq (block [mu_add_read_event K U (watch_close_write_fd fds) (RClose h),
                     mu_add_read_event K U (stdout_read_fd fds) (RStdout h),
                     mu_add_read_event K U (stderr_read_fd fds) (RStderr h)])
             (ret NOTHING))))))"

text \<open>\<open>buffer.remove\<close> blocks while the queue is empty.\<close>

definition dispatch_job ::
  "nat \<Rightarrow> 'k platform \<Rightarrow> ('k, 'z) user \<Rightarrow> (('k, 'z) multi_world_scheme, event_return) prog" where
  "dispatch_job N K U =
     bind (gets (\<lambda>s. qb_remove (mu_buffer s))) (\<lambda>r. case r of
       None \<Rightarrow> spin
     | Some (job, q) \<Rightarrow>
         seq (upd (\<lambda>s. s\<lparr>mu_buffer := q\<rparr>)) (case job of
           None \<Rightarrow> job_nullptr_stop K
         | Some (Stop flag signum) \<Rightarrow> job_stop K flag signum
         | Some (Spawn h) \<Rightarrow> job_spawn_proc N K U h))"

subsection \<open>The loop\<close>

text \<open>The end of the loop; \<open>loop->interrupt()\<close> needs the event loop to exist.\<close>

definition handle_stop :: "'k platform \<Rightarrow> ('k, 'z) user \<Rightarrow> (('k, 'z) multi_world_scheme, unit) prog" where
  "handle_stop K U =
     block [bind sh_get_read_fd (mu_remove_read_event K U),
            bind (gets (\<lambda>s. fst (mu_control_pipe s))) (mu_remove_read_event K U),
            upd (\<lambda>s. s\<lparr>mu_stop_flag := STOP_WAIT\<rparr>),
            upd (\<lambda>s. s\<lparr>mu_stop_signum := -1\<rparr>),
            upd (\<lambda>s. s\<lparr>mu_stopping := False\<rparr>),
            bind (gets mu_type) (\<lambda>ty. onlyif (ty = DEFAULT)
              (bind (gets mu_loop) (\<lambda>loop. if loop then se_interrupt K else finish Aborted)))]"

definition sigchld_cbs ::
  "nat \<Rightarrow> 'k platform \<Rightarrow> ('k, 'z) user \<Rightarrow> ('k, 'z) multi_world_scheme sigchld_callbacks" where
  "sigchld_cbs N K U =
     \<lparr>sc_signal = Some (\<lambda>pid status.
        bind (gets (\<lambda>s. map_of (mu_active s) pid)) (\<lambda>it. case it of
          None \<Rightarrow> skip
        | Some h \<Rightarrow> update_status N K (handle_callbacks K U h) h status)),
      sc_error = Some (mu_process_error U)\<rparr>"

fun run_registered ::
  "nat \<Rightarrow> 'k platform \<Rightarrow> ('k, 'z) user \<Rightarrow> reg_cb \<Rightarrow> int \<Rightarrow> (('k, 'z) multi_world_scheme, unit) prog"
where
  "run_registered N K U RSignal fd =
     bind (sh_read_signal N K (sigchld_cbs N K U)) (\<lambda>r.
       onlyif (r = STOP_LOOP) (handle_stop K U))"
| "run_registered N K U RControl fd =
     bind (read_retry N K fd 1) (\<lambda>r.
     seq (assertion (case r of Inl _ \<Rightarrow> False | Inr _ \<Rightarrow> True))
     (bind (dispatch_job N K U) (\<lambda>r.
       onlyif (r = STOP_LOOP) (handle_stop K U))))"
| "run_registered N K U (RClose h) fd =
     bind (read_close N K (handle_callbacks K U h) h) (\<lambda>_. skip)"
| "run_registered N K U (RStdout h) fd =
     bind (read_stdout N K (handle_callbacks K U h) h) (\<lambda>_. skip)"
| "run_registered N K U (RStderr h) fd =
     bind (read_stderr N K (handle_callbacks K U h) h) (\<lambda>_. skip)"

text \<open>
  \<open>registered_fd_[fd](fd)\<close>: for a descriptor that is not registered this calls an empty
  function, which throws an exception that nothing in the library catches.
\<close>

definition do_action ::
  "nat \<Rightarrow> 'k platform \<Rightarrow> ('k, 'z) user \<Rightarrow> int \<Rightarrow> (('k, 'z) multi_world_scheme, unit) prog" where
  "do_action N K U fd =
     bind (gets (\<lambda>s. map_of (mu_registered s) fd)) (\<lambda>it. case it of
       None \<Rightarrow> finish Aborted
     | Some cb \<Rightarrow> run_registered N K U cb fd)"

definition multi_callbacks ::
  "nat \<Rightarrow> 'k platform \<Rightarrow> ('k, 'z) user \<Rightarrow>
   (('k, 'z) multi_world_scheme, closure) loop_callbacks" where
  "multi_callbacks N K U =
     \<lparr>lc_run = (\<lambda>c fd. if c = DoAction then seq (do_action N K U fd) (ret NOTHING)
        else finish Aborted),
      lc_interrupt = Some (ret STOP_LOOP),
      lc_error = Some (mu_process_error U SELECT_ERROR)\<rparr>"

subsection \<open>Construction, run, destruction\<close>

text \<open>
  \<open>loop = unique_ptr(new select_event())\<close>: the new object is made before an old one, which a
  run that failed may have left, is destroyed. The same for \<open>sigchld\<close>, of which
  an external loop leaves one.
\<close>

definition new_loop :: "'k platform \<Rightarrow> (('k, 'z) multi_world_scheme, unit) prog" where
  "new_loop K =
     bind (gets (\<lambda>s. (mu_loop s, se_control_pipe (sel s)))) (\<lambda>(had, old).
     block [se_construct K,
            onlyif had (bind (close_pipe K old) (\<lambda>_. skip)),
            upd (\<lambda>s. s\<lparr>mu_loop := True\<rparr>)])"

definition drop_loop :: "'k platform \<Rightarrow> (('k, 'z) multi_world_scheme, unit) prog" where
  "drop_loop K =
     bind (gets mu_loop) (\<lambda>had. onlyif had
       (block [se_destruct K, upd (\<lambda>s. s\<lparr>mu_loop := False\<rparr>)]))"

definition destroy_sigchld ::
  "nat \<Rightarrow> 'k platform \<Rightarrow> ('k, 'z) user \<Rightarrow> sigchld_ptr \<Rightarrow>
   (('k, 'z) multi_world_scheme, unit) prog" where
  "destroy_sigchld N K U ptr = (case ptr of
       NoSigchld \<Rightarrow> skip
     | BareSigchld \<Rightarrow> sh_destruct K no_callbacks
     | WiredSigchld \<Rightarrow> sh_destruct K (sigchld_cbs N K U))"

definition new_sigchld ::
  "nat \<Rightarrow> 'k platform \<Rightarrow> ('k, 'z) user \<Rightarrow> (('k, 'z) multi_world_scheme, unit) prog" where
  "new_sigchld N K U =
     bind (gets mu_sigchld) (\<lambda>old.
     seq (sh_construct K)
     (bind (gets (\<lambda>s. (sh_err s, sh_signal_set s))) (\<lambda>(err, signals).
      block [destroy_sigchld N K U old,
             upd (\<lambda>s. s\<lparr>sh_err := err, sh_signal_set := signals, mu_sigchld := BareSigchld\<rparr>)])))"

definition drop_sigchld ::
  "nat \<Rightarrow> 'k platform \<Rightarrow> ('k, 'z) user \<Rightarrow> (('k, 'z) multi_world_scheme, unit) prog" where
  "drop_sigchld N K U =
     bind (gets mu_sigchld) (\<lambda>old.
     block [destroy_sigchld N K U old, upd (\<lambda>s. s\<lparr>mu_sigchld := NoSigchld\<rparr>)])"

definition run ::
  "nat \<Rightarrow> 'k platform \<Rightarrow> ('k, 'z) user \<Rightarrow> (('k, 'z) multi_world_scheme, unit) prog" where
  "run N K U =
     bind (gets mu_type) (\<lambda>ty.
     block [onlyif (ty = DEFAULT)
              (block [new_loop K, upd (\<lambda>s. s\<lparr>mu_register := LoopRegister\<rparr>)]),
            new_sigchld N K U,
            bind (gets sh_valid) (\<lambda>valid.
            if \<not> valid then bind (gets sh_last_error) (mu_process_error U)
            else
              block [upd (\<lambda>s. s\<lparr>mu_sigchld := WiredSigchld\<rparr>),
                     bind sh_get_read_fd (\<lambda>fd. mu_add_read_event K U fd RSignal),
                     bind (gets (\<lambda>s. fst (mu_control_pipe s)))
                       (\<lambda>fd. mu_add_read_event K U fd RControl),
                     bind (gets mu_type) (\<lambda>ty. onlyif (ty = DEFAULT)
                       (block [se_loop N K (multi_callbacks N K U),
                               drop_loop K,
                               drop_sigchld N K U]))])])"

text \<open>
  The object's members as it is made; the destructor's body and then its members, of which
  only the two pointers do anything. They are destroyed after \<open>error_cb_\<close>, which is declared
  below them: a handler that fails in its destructor calls a function that is gone
  (\<open>dead_user\<close>), which is undefined and ends the program here.
\<close>

definition mu_construct :: "'k platform \<Rightarrow> (('k, 'z) multi_world_scheme, unit) prog" where
  "mu_construct K =
     seq (upd (\<lambda>s. s\<lparr>mu_control_pipe := (-1, -1), mu_type := DEFAULT, mu_sigchld := NoSigchld,
            mu_loop := False, mu_buffer := empty_queue, mu_active := [], mu_err := NO_ERROR,
            mu_registered := [], mu_register := NoRegister, mu_stop_flag := STOP_WAIT,
            mu_stop_signum := 0, mu_stopping := False\<rparr>))
     (bind (sys_pipe2 K (O_CLOEXEC OR O_NONBLOCK)) (\<lambda>r. case r of
        Inl _ \<Rightarrow> assertion False
      | Inr p \<Rightarrow> upd (\<lambda>s. s\<lparr>mu_control_pipe := p\<rparr>)))"

definition dead_user :: "('k, 'z) user \<Rightarrow> ('k, 'z) user" where
  "dead_user U = U\<lparr>us_error := Some (\<lambda>e. finish Aborted)\<rparr>"

definition mu_destruct ::
  "nat \<Rightarrow> 'k platform \<Rightarrow> ('k, 'z) user \<Rightarrow> (('k, 'z) multi_world_scheme, unit) prog" where
  "mu_destruct N K U =
     block [bind (gets mu_control_pipe) (\<lambda>p.
              bind (close_pipe K p) (\<lambda>p. upd (\<lambda>s. s\<lparr>mu_control_pipe := p\<rparr>))),
            drop_loop K,
            drop_sigchld N K (dead_user U)]"

subsection \<open>The user's side\<close>

text \<open>
  The two overloads of \<open>exec\<close> and \<open>stop\<close>. \<open>make_shared\<close> does not return a null pointer,
  so EXEC_ALLOCATION_ERROR is not reached. \<open>h\<close> is the new handle.
\<close>

definition multi_exec ::
  "'k platform \<Rightarrow> nat \<Rightarrow> string \<Rightarrow> (('k, 'z) multi_world_scheme, unit) prog" where
  "multi_exec K h args = block [make_handle h args, send_job K (Some (Spawn h))]"

definition multi_exec_proc ::
  "'k platform \<Rightarrow> nat \<Rightarrow> string \<Rightarrow> (nat \<Rightarrow> (('k, 'z) multi_world_scheme, unit) prog) \<Rightarrow>
   (('k, 'z) multi_world_scheme, unit) prog" where
  "multi_exec_proc K h args cb =
     block [make_handle h args, cb h, send_job K (Some (Spawn h))]"

definition multi_stop ::
  "'k platform \<Rightarrow> stop_flag \<Rightarrow> int \<Rightarrow> (('k, 'z) multi_world_scheme, unit) prog" where
  "multi_stop K sf killnum = send_job K (Some (Stop sf killnum))"

end
