(* ===== verification/Multi_Run.thy ===== *)
theory Multi_Run
  imports Pexec_Multi Pexec_Run
begin

section \<open>Running the process manager step by step\<close>

text \<open>
  The equations of the operations of \<open>pexec_multi\<close> applied to a state, as in \<open>Pexec_Run\<close>, and
  an example: one program and a stop job are queued, then the loop runs until it has ended.
\<close>

lemmas multi_defs =
  handle_upd_def [THEN fun_cong] handle_gets_def [THEN fun_cong]
  mu_process_error_def [THEN fun_cong] mu_interrupt_def [THEN fun_cong]
  send_job_def [THEN fun_cong] send_job_nullptr_stop_def [THEN fun_cong]
  register_call_def [THEN fun_cong] mu_add_read_event_def [THEN fun_cong]
  mu_remove_read_event_def [THEN fun_cong] proc_stopped_def [THEN fun_cong]
  handle_state_def [THEN fun_cong] handle_final_def [THEN fun_cong]
  make_handle_def [THEN fun_cong] handle_exec_def [THEN fun_cong] handle_pid_def [THEN fun_cong]
  on_proc_stopped_def [THEN fun_cong] cleanup_def [THEN fun_cong]
  job_nullptr_stop_def [THEN fun_cong] job_stop_def [THEN fun_cong]
  job_spawn_proc_def [THEN fun_cong] dispatch_job_def [THEN fun_cong]
  handle_stop_def [THEN fun_cong] do_action_def [THEN fun_cong] new_loop_def [THEN fun_cong]
  drop_loop_def [THEN fun_cong] destroy_sigchld_def [THEN fun_cong]
  new_sigchld_def [THEN fun_cong] drop_sigchld_def [THEN fun_cong] run_def [THEN fun_cong]
  mu_construct_def [THEN fun_cong] mu_destruct_def [THEN fun_cong] multi_exec_def [THEN fun_cong]
  multi_stop_def [THEN fun_cong] set_type_def [THEN fun_cong]
  sh_construct_def [THEN fun_cong] sh_destruct_def [THEN fun_cong]
  sh_prepare_signal_set_def [THEN fun_cong] sigchld_set_signal_handler_def [THEN fun_cong]
  sigchld_reset_signal_handler_def [THEN fun_cong] sh_process_error_def [THEN fun_cong]
  sh_get_read_fd_def [THEN fun_cong] sigchld_get_signal_fd_def [THEN fun_cong]
  sh_read_signal_def [THEN fun_cong] sh_handle_sigchld_def [THEN fun_cong]
  sh_block_sigchld_def [THEN fun_cong] sh_unblock_sigchld_def [THEN fun_cong]
  user_stop_def [THEN fun_cong] sys_kill_def [THEN fun_cong]
  se_remove_read_event_def [THEN fun_cong]

lemmas multi_funs =
  run_registered.simps [THEN fun_cong] reap_loop.simps(2) [THEN fun_cong]
  read_signal_bytes.simps(2) [THEN fun_cong]

lemmas multi_lazy = lazy run_registered.simps reap_loop.simps read_signal_bytes.simps

lemmas multi_run =
  pexec_run multi_defs multi_funs handle_callbacks_def sigchld_cbs_def multi_callbacks_def
  final_state_def alive_def put_active_def init_pexec_status_def empty_queue_def qb_add_def
  qb_remove_def erase_event_def erase_node_def next_node.simps sh_valid_def c_string_def
  mk_perror_def no_callbacks_def

text \<open>A user without any callback.\<close>

definition silent_user :: "('k, 'z) user" where
  "silent_user =
     \<lparr>us_handle = (\<lambda>h. \<lparr>hu_stdout = None, hu_stderr = None, hu_state = None, hu_error = None,
        hu_on_stop = None\<rparr>),
      us_error = None, us_register = (\<lambda>fd act what. skip)\<rparr>"

definition blank_handle :: multi_handle where
  "blank_handle =
     \<lparr>mh_fds = \<lparr>stdout_read_fd = 0, stderr_read_fd = 0, stdin_write_fd = 0,
        watch_close_write_fd = 0\<rparr>,
      mh_ret = init_pexec_status, mh_stdout_oss = [], mh_stderr_oss = [], mh_proc_stopped = None\<rparr>"

definition demo_multi_world :: "script \<Rightarrow> script multi_world" where
  "demo_multi_world sc =
     \<lparr>kst = sc, errno = 0, trace = [], sigchld_blocking_pipe_signal = (-1, -1),
      sel = init_select_event, sigchld_sa_prev = SIG_DFL, sigchld_pipe_signal = (-1, -1),
      sigchld_active = False, sh_err = NO_ERROR, sh_signal_set = {},
      objs = (\<lambda>_. init_pexec 8), mu_handles = (\<lambda>_. blank_handle),
      mu_control_pipe = (-1, -1), mu_type = DEFAULT, mu_sigchld = NoSigchld, mu_loop = False,
      mu_buffer = empty_queue, mu_active = [], mu_err = NO_ERROR, mu_registered = [],
      mu_register = NoRegister, mu_stop_flag = STOP_WAIT, mu_stop_signum = 0,
      mu_stopping = False\<rparr>"

text \<open>
  The platform: the control pipe is (3, 4), the one of the event loop (5, 6), the signal pipe
  (7, 8), the child's pipes are (9, 10) to (15, 16). The child 42 writes "hi" and exits with
  code 3.
\<close>

definition demo_multi_script :: script where
  "demo_multi_script = empty_script\<lparr>sc_pipes := 7, sc_fork := [Inr 42],
     sc_sigaction := [Inr (FOREIGN_HANDLER 1), Inr MULTI_HANDLER],
     sc_select := [Inr {3}, Inr {3}, Inr {11}, Inr {7}, Inr {3}, Inr {5}],
     sc_read := [Inr [NUL], Inr [NUL], Inr ''hi'', Inr [CHR 0x11, NUL, NUL, NUL],
       Inl EAGAIN, Inl EAGAIN, Inr [NUL], Inr [NUL]],
     sc_waitpid := [Inr (42, 0x300), Inr (0, 0)]\<rparr>"

abbreviation multi_fuel :: nat where
  "multi_fuel \<equiv> Suc (Suc (Suc (Suc (Suc (Suc (Suc (Suc (Suc 0))))))))"

definition demo_multi :: "(script multi_world, unit) prog" where
  "demo_multi =
     block [mu_construct script_platform,
            multi_exec script_platform 0 ''true'',
            multi_stop script_platform STOP_WAIT (-1),
            run multi_fuel script_platform silent_user]"

lemmas demo_multi_run =
  multi_run demo_multi_def [THEN fun_cong] demo_multi_script_def demo_multi_world_def
  blank_handle_def silent_user_def demo_arg demo_status update_proc_status_fields fork_error_def
  replicate_update ULONG_MAX_def

lemma demo_multi_result:
  "\<exists>t. demo_multi (demo_multi_world demo_multi_script) = Ret () t \<and>
     states_of (trace t) = [STARTED, SIGNALED, STOPPED] \<and>
     st_proc_out (mh_ret (mu_handles t 0)) = ''hi'' \<and>
     st_state (mh_ret (mu_handles t 0)) = STOPPED \<and>
     ps_return_code (st_proc (mh_ret (mu_handles t 0))) = 3 \<and>
     open_fds (trace t) = {3, 4} \<and> fresh_pipes (trace t) \<and> closes_own (trace t) \<and>
     handlers_of (trace t) = [MULTI_HANDLER, FOREIGN_HANDLER 1] \<and>
     mu_registered t = [] \<and> mu_active t = [] \<and> \<not> mu_stopping t \<and> \<not> mu_loop t \<and>
     qb_buffer (mu_buffer t) = [] \<and> mu_err t = NO_ERROR"
  by (simp add: demo_multi_run del: multi_lazy) auto

end
