(* ===== verification/Bounds.thy ===== *)
theory Bounds
  imports Exec Multi_Run
begin

section \<open>The bounds do not matter\<close>

text \<open>
  The loops of the code are bounded by an argument \<open>N\<close> here, and a loop that uses it up is
  \<open>Spin\<close>. \<open>approx m m'\<close> says that \<open>m'\<close> does whatever \<open>m\<close> does, unless \<open>m\<close> spins. Every
  operation with a bound approximates itself with a larger one, so a result does not depend on
  the bound it was found with: the code, which has no bound, has the same result.
\<close>

definition approx :: "('s, 'a) prog \<Rightarrow> ('s, 'a) prog \<Rightarrow> bool" where
  "approx m m' \<longleftrightarrow> (\<forall>s. m s = Spin \<or> m s = m' s)"

named_theorems approx_intros \<open>approximation of a program by its parts\<close>

lemma approx_refl [approx_intros]: "approx m m"
  by (simp add: approx_def)

lemma approx_spin: "approx spin m"
  by (simp add: approx_def prog_simps)

lemma approx_bind [approx_intros]:
  "approx m m' \<Longrightarrow> (\<And>a. approx (f a) (f' a)) \<Longrightarrow> approx (bind m f) (bind m' f')"
  unfolding approx_def bind_eval
proof
  fix s
  assume m: "\<forall>s. m s = Spin \<or> m s = m' s" and f: "\<And>a. \<forall>s. f a s = Spin \<or> f a s = f' a s"
  show "(case m s of Ret a s' \<Rightarrow> f a s' | End e s' \<Rightarrow> End e s' | Spin \<Rightarrow> Spin) = Spin \<or>
    (case m s of Ret a s' \<Rightarrow> f a s' | End e s' \<Rightarrow> End e s' | Spin \<Rightarrow> Spin) =
    (case m' s of Ret a s' \<Rightarrow> f' a s' | End e s' \<Rightarrow> End e s' | Spin \<Rightarrow> Spin)"
  proof (cases "m s = Spin")
    case False
    with m have "m' s = m s" by metis
    with f show ?thesis by (simp split: outcome.split)
  qed simp
qed

lemma approx_seq [approx_intros]: "approx m m' \<Longrightarrow> approx k k' \<Longrightarrow> approx (seq m k) (seq m' k')"
  unfolding seq_def by (rule approx_bind)

lemma approx_onlyif [approx_intros]: "approx m m' \<Longrightarrow> approx (onlyif b m) (onlyif b m')"
  by (simp add: onlyif_def approx_refl)

lemma approx_block [approx_intros]:
  "approx m m' \<Longrightarrow> approx (block ms) (block ms') \<Longrightarrow> approx (block (m # ms)) (block (m' # ms'))"
  by (simp add: approx_seq)

lemma approx_if [approx_intros]:
  "approx m m' \<Longrightarrow> approx k k' \<Longrightarrow> approx (if b then m else k) (if b then m' else k')"
  by simp

lemma approx_option [approx_intros]:
  "approx m m' \<Longrightarrow> (\<And>y. approx (k y) (k' y)) \<Longrightarrow>
   approx (case x of None \<Rightarrow> m | Some y \<Rightarrow> k y) (case x of None \<Rightarrow> m' | Some y \<Rightarrow> k' y)"
  by (cases x) auto

lemma approx_sum [approx_intros]:
  "(\<And>a. approx (m a) (m' a)) \<Longrightarrow> (\<And>b. approx (k b) (k' b)) \<Longrightarrow>
   approx (case x of Inl a \<Rightarrow> m a | Inr b \<Rightarrow> k b) (case x of Inl a \<Rightarrow> m' a | Inr b \<Rightarrow> k' b)"
  by (cases x) auto

lemma approx_prod [approx_intros]:
  "(\<And>a b. approx (m a b) (m' a b)) \<Longrightarrow>
   approx (case x of (a, b) \<Rightarrow> m a b) (case x of (a, b) \<Rightarrow> m' a b)"
  by (cases x) auto

lemma approx_result: "approx m m' \<Longrightarrow> m s \<noteq> Spin \<Longrightarrow> m' s = m s"
  by (auto simp: approx_def)

subsection \<open>Loops around system calls\<close>

text \<open>A loop with its own bound: the step from one bound to the next larger one is enough.\<close>

lemma approx_loop:
  assumes "f 0 = spin" and "\<And>m m'. approx (f m) (f m') \<Longrightarrow> approx (f (Suc m)) (f (Suc m'))"
    and "m \<le> m'"
  shows "approx (f m) (f m')"
  using assms(3)
proof (induction m arbitrary: m')
  case 0
  then show ?case using assms(1) by (simp add: approx_spin)
next
  case (Suc m)
  then obtain k where "m' = Suc k" "m \<le> k" by (cases m') auto
  with Suc assms(2) show ?case by simp
qed

lemma approx_read_retry [approx_intros]:
  "m \<le> m' \<Longrightarrow> approx (read_retry m K fd n) (read_retry m' K fd n)"
  by (rule approx_loop) (auto intro!: approx_intros)

lemma approx_read_std_rest [approx_intros]:
  "m \<le> m' \<Longrightarrow> approx (read_std_rest m K C this fd ch e) (read_std_rest m' K C this fd ch e)"
  by (rule approx_loop) (auto intro!: approx_intros)

lemma approx_wait_loop [approx_intros]:
  "m \<le> m' \<Longrightarrow> approx (wait_loop m K C this) (wait_loop m' K C this)"
  by (rule approx_loop) (auto intro!: approx_intros)

lemma approx_read_signal_int [approx_intros]:
  "m \<le> m' \<Longrightarrow> approx (read_signal_int m K C this got) (read_signal_int m' K C this got)"
proof (induction m arbitrary: m' got)
  case 0
  show ?case by (simp add: approx_spin)
next
  case (Suc m)
  then obtain k where "m' = Suc k" "m \<le> k" by (cases m') auto
  with Suc.IH show ?case by (auto intro!: approx_intros)
qed

lemma approx_read_signal_bytes [approx_intros]:
  "m \<le> m' \<Longrightarrow> approx (read_signal_bytes m K fd got) (read_signal_bytes m' K fd got)"
proof (induction m arbitrary: m' got)
  case 0
  show ?case by (simp add: approx_spin)
next
  case (Suc m)
  then obtain k where "m' = Suc k" "m \<le> k" by (cases m') auto
  with Suc.IH show ?case by (auto intro!: approx_intros)
qed

subsection \<open>The event loop\<close>

definition approx_callbacks :: "('s, 'c) loop_callbacks \<Rightarrow> ('s, 'c) loop_callbacks \<Rightarrow> bool" where
  "approx_callbacks L L' \<longleftrightarrow>
     (\<forall>c fd. approx (lc_run L c fd) (lc_run L' c fd)) \<and>
     rel_option approx (lc_interrupt L) (lc_interrupt L') \<and> lc_error L = lc_error L'"

lemma approx_select_wait:
  assumes "m \<le> m'" and "lc_error L = lc_error L'"
  shows "approx (select_wait m K L) (select_wait m' K L')"
  using assms(1)
proof (induction m arbitrary: m')
  case 0
  show ?case by (simp add: approx_spin)
next
  case (Suc m)
  then obtain k where "m' = Suc k" "m \<le> k" by (cases m') auto
  with Suc.IH assms(2) show ?case by (auto intro!: approx_intros)
qed

lemma approx_call_node:
  assumes "N \<le> N'" and "approx_callbacks L L'"
  shows "approx (call_node N K L fd) (call_node N' K L' fd)"
proof -
  have "approx (case lc_interrupt L of None \<Rightarrow> ret NOTHING | Some f \<Rightarrow> f)
      (case lc_interrupt L' of None \<Rightarrow> ret NOTHING | Some f \<Rightarrow> f)"
    using assms(2) by (auto simp: approx_callbacks_def option_rel_Some1 approx_refl split: option.splits)
  with assms show ?thesis
    unfolding call_node_def control_callback_def
    by (auto simp: approx_callbacks_def intro!: approx_intros)
qed

lemma approx_dispatch:
  assumes "N \<le> N'" and "approx_callbacks L L'" and "m \<le> m'"
  shows "approx (dispatch N K L rd m) (dispatch N' K L' rd m')"
  using assms(3)
proof (induction m arbitrary: m')
  case 0
  show ?case by (simp add: approx_spin)
next
  case (Suc m)
  then obtain k where k: "m' = Suc k" "m \<le> k" by (cases m') auto
  have "approx (case r of STOP_LOOP \<Rightarrow> ret True | SKIP_OTHER_FD \<Rightarrow> ret False
      | NOTHING \<Rightarrow> seq (upd_sel advance_iterator) (dispatch N K L rd m))
    (case r of STOP_LOOP \<Rightarrow> ret True | SKIP_OTHER_FD \<Rightarrow> ret False
      | NOTHING \<Rightarrow> seq (upd_sel advance_iterator) (dispatch N' K L' rd k))" for r
    using Suc.IH [OF k(2)] by (cases r) (auto intro!: approx_intros)
  with k Suc.IH [OF k(2)] show ?case
    by (auto intro!: approx_intros approx_call_node [OF assms(1,2)])
qed

lemma approx_se_loop:
  assumes "N \<le> N'" and "approx_callbacks L L'"
  shows "approx (se_loop N K L) (se_loop N' K L')"
proof -
  have "approx (loop_rounds N K L m) (loop_rounds N' K L' m')" if "m \<le> m'" for m m'
    using that
  proof (induction m arbitrary: m')
    case 0
    show ?case by (simp add: approx_spin)
  next
    case (Suc m)
    then obtain k where k: "m' = Suc k" "m \<le> k" by (cases m') auto
    moreover have "lc_error L = lc_error L'" using assms(2) by (simp add: approx_callbacks_def)
    ultimately show ?case
      using Suc.IH [OF k(2)]
      by (auto intro!: approx_intros approx_select_wait approx_dispatch assms)
  qed
  then show ?thesis using assms(1) by (simp add: se_loop_def)
qed

subsection \<open>One process\<close>

lemma approx_readers [approx_intros]:
  assumes "N \<le> N'"
  shows "approx (read_close N K C this) (read_close N' K C this)"
    "approx (read_stdout N K C this) (read_stdout N' K C this)"
    "approx (read_stderr N K C this) (read_stderr N' K C this)"
  using assms unfolding read_close_def read_stdout_def read_stderr_def read_std_def
  by (auto intro!: approx_intros)

lemma approx_stopped [approx_intros]:
  "N \<le> N' \<Longrightarrow> approx (stopped N K C this) (stopped N' K C this)"
  unfolding stopped_def loop_rest_io_def by (auto intro!: approx_intros)

lemma approx_update_status [approx_intros]:
  "N \<le> N' \<Longrightarrow> approx (update_status N K C this st) (update_status N' K C this st)"
  unfolding update_status_def by (auto intro!: approx_intros)

lemma approx_io_callbacks:
  "N \<le> N' \<Longrightarrow> approx_callbacks (io_callbacks N K C this) (io_callbacks N' K C this)"
proof -
  assume N: "N \<le> N'"
  have "approx (run_closure N K C this c fd) (run_closure N' K C this c fd)" for c and fd :: int
    using N by (cases c) (auto simp: handle_sigchld_def intro!: approx_intros)
  then show ?thesis by (simp add: approx_callbacks_def io_callbacks_def approx_refl)
qed

lemma approx_exec_started [approx_intros]:
  "N \<le> N' \<Longrightarrow> approx (exec_started N K C this) (exec_started N' K C this)"
  unfolding exec_started_def loop_io_def
  by (intro approx_intros approx_se_loop approx_io_callbacks; assumption)

lemma approx_pexec_exec [approx_intros]:
  "N \<le> N' \<Longrightarrow> approx (pexec_exec N K C this arg) (pexec_exec N' K C this arg)"
  unfolding pexec_exec_def by (intro approx_intros; assumption)

lemma approx_exec: "N \<le> N' \<Longrightarrow> approx (exec N K cb this arg) (exec N' K cb this arg)"
  unfolding exec_def by (intro approx_intros; assumption)

subsection \<open>Many processes\<close>

definition approx_sigchld :: "'s sigchld_callbacks \<Rightarrow> 's sigchld_callbacks \<Rightarrow> bool" where
  "approx_sigchld C C' \<longleftrightarrow>
     rel_option (\<lambda>f f'. \<forall>pid st. approx (f pid st) (f' pid st)) (sc_signal C) (sc_signal C') \<and>
     sc_error C = sc_error C'"

lemma approx_sigchld_cbs: "N \<le> N' \<Longrightarrow> approx_sigchld (sigchld_cbs N K U) (sigchld_cbs N' K U)"
  unfolding approx_sigchld_def sigchld_cbs_def
  by (simp, intro allI approx_intros; assumption)

lemma same_error:
  assumes "approx_sigchld C C'"
  shows "sh_process_error C e = sh_process_error C' e"
  using assms by (simp add: approx_sigchld_def sh_process_error_def)

lemma approx_reap_loop:
  assumes "approx_sigchld C C'" and "m \<le> m'"
  shows "approx (reap_loop m K C) (reap_loop m' K C')"
  using assms(2)
proof (induction m arbitrary: m')
  case 0
  show ?case by (simp add: approx_spin)
next
  case (Suc m)
  then obtain k where k: "m' = Suc k" "m \<le> k" by (cases m') auto
  have "approx (case sc_signal C of None \<Rightarrow> skip | Some cb \<Rightarrow> cb pid st)
      (case sc_signal C' of None \<Rightarrow> skip | Some cb \<Rightarrow> cb pid st)" for pid st
    using assms(1) by (auto simp: approx_sigchld_def option_rel_Some1 approx_refl split: option.splits)
  with k Suc.IH [OF k(2)] same_error [OF assms(1)] show ?case by (auto intro!: approx_intros)
qed

lemma approx_sh_read_signal:
  "approx_sigchld C C' \<Longrightarrow> N \<le> N' \<Longrightarrow> approx (sh_read_signal N K C) (sh_read_signal N' K C')"
  unfolding sh_read_signal_def sh_handle_sigchld_def sh_block_sigchld_def sh_unblock_sigchld_def
  by (auto simp: same_error intro!: approx_intros approx_reap_loop)

lemma approx_job_spawn_proc [approx_intros]:
  "N \<le> N' \<Longrightarrow> approx (job_spawn_proc N K U h) (job_spawn_proc N' K U h)"
  unfolding job_spawn_proc_def handle_exec_def by (intro approx_intros; assumption)

lemma approx_job [approx_intros]:
  "(\<And>f n. approx (m f n) (m' f n)) \<Longrightarrow> (\<And>h. approx (k h) (k' h)) \<Longrightarrow>
   approx (case j of Stop f n \<Rightarrow> m f n | Spawn h \<Rightarrow> k h) (case j of Stop f n \<Rightarrow> m' f n | Spawn h \<Rightarrow> k' h)"
  by (cases j) auto

lemma approx_dispatch_job [approx_intros]:
  "N \<le> N' \<Longrightarrow> approx (dispatch_job N K U) (dispatch_job N' K U)"
  unfolding dispatch_job_def by (intro approx_intros; assumption)

lemma approx_multi_callbacks:
  assumes "N \<le> N'"
  shows "approx_callbacks (multi_callbacks N K U) (multi_callbacks N' K U)"
proof -
  have "approx (run_registered N K U cb fd) (run_registered N' K U cb fd)" for cb fd
    using assms
    by (cases cb; simp; intro approx_intros approx_sh_read_signal approx_sigchld_cbs; assumption)
  then have "approx (do_action N K U fd) (do_action N' K U fd)" for fd
    unfolding do_action_def by (intro approx_intros)
  then show ?thesis
    unfolding approx_callbacks_def multi_callbacks_def
    by (simp add: approx_refl) (intro allI impI approx_intros)
qed

lemma approx_destroy_sigchld [approx_intros]:
  assumes "N \<le> N'"
  shows "approx (destroy_sigchld N K U p) (destroy_sigchld N' K U p)"
proof -
  have "sh_process_error (sigchld_cbs N K U) = sh_process_error (sigchld_cbs N' K U)"
    using same_error [OF approx_sigchld_cbs [OF assms]] by blast
  then show ?thesis
    by (simp add: destroy_sigchld_def sh_destruct_def approx_refl split: sigchld_ptr.split)
qed

lemma approx_run: "N \<le> N' \<Longrightarrow> approx (run N K U) (run N' K U)"
  unfolding run_def new_sigchld_def drop_sigchld_def
  by (intro approx_intros approx_se_loop approx_multi_callbacks; assumption)

subsection \<open>Results\<close>

text \<open>A result found with one bound is the result with every larger one.\<close>

theorem exec_bound_irrelevant:
  assumes "exec N K cb this arg s \<noteq> Spin" and "N \<le> N'"
  shows "exec N' K cb this arg s = exec N K cb this arg s"
  by (rule approx_result [OF approx_exec [OF assms(2)] assms(1)])

theorem run_bound_irrelevant:
  assumes "run N K U s \<noteq> Spin" and "N \<le> N'"
  shows "run N' K U s = run N K U s"
  by (rule approx_result [OF approx_run [OF assms(2)] assms(1)])

end
