(* ===== verification/Multi_Jobs.thy ===== *)
theory Multi_Jobs
  imports Multi_Run Pexec_Frame
begin

section \<open>Jobs, stopping and registration of the process manager\<close>

text \<open>
  What single operations of \<open>pexec_multi\<close> do on every branch: a stop job and the empty job
  that ends the loop, the end of a process, the end of the loop; that \<open>registered_fd_\<close> is a
  registry in the sense of the event loop; and what happens in the two situations in which
  the code does not do what it means to, a program that cannot be started and a second run
  with an external loop.
\<close>

subsection \<open>Signals to the active processes\<close>

lemma more_multi:
  fixes s t :: "('k, 'z) multi_world_scheme"
  shows "world.more t = world.more s \<Longrightarrow>
    mu_handles t = mu_handles s \<and> mu_control_pipe t = mu_control_pipe s \<and> mu_type t = mu_type s \<and>
    mu_sigchld t = mu_sigchld s \<and> mu_loop t = mu_loop s \<and> mu_buffer t = mu_buffer s \<and>
    mu_active t = mu_active s \<and> mu_err t = mu_err s \<and> mu_registered t = mu_registered s \<and>
    mu_register t = mu_register s \<and> mu_stop_flag t = mu_stop_flag s \<and>
    mu_stop_signum t = mu_stop_signum s \<and> mu_stopping t = mu_stopping s \<and>
    multi_world.more t = multi_world.more s"
  by (cases s; cases t) simp

text \<open>The state after a \<open>write\<close> and after a \<open>kill\<close>, whatever the kernel answers.\<close>

definition wrote :: "'k platform \<Rightarrow> int \<Rightarrow> string \<Rightarrow> ('k, 'z) world_scheme \<Rightarrow> ('k, 'z) world_scheme" where
  "wrote K fd d s = (case k_write K fd d (kst s) of
       (Inl e, k) \<Rightarrow> s\<lparr>kst := k, errno := e\<rparr>
     | (Inr n, k) \<Rightarrow> s\<lparr>kst := k, trace := EWrite fd d # trace s\<rparr>)"

definition killed :: "'k platform \<Rightarrow> int \<Rightarrow> int \<Rightarrow> ('k, 'z) world_scheme \<Rightarrow> ('k, 'z) world_scheme" where
  "killed K pid sig s = (case k_kill K pid sig (kst s) of
       (Inl e, k) \<Rightarrow> s\<lparr>kst := k, errno := e, trace := EKill pid sig # trace s\<rparr>
     | (Inr _, k) \<Rightarrow> s\<lparr>kst := k, trace := EKill pid sig # trace s\<rparr>)"

lemma sys_write_eval: "sys_write K fd d s = Ret (fst (k_write K fd d (kst s))) (wrote K fd d s)"
  by (simp add: sys_write_def syscall_def wrote_def split: prod.split sum.split)

lemma sys_kill_eval: "sys_kill K pid sig s = Ret (fst (k_kill K pid sig (kst s))) (killed K pid sig s)"
  by (simp add: sys_kill_def note_event_def syscall_def killed_def prog_simps split: prod.split sum.split)

lemma wrote_more: "world.more (wrote K fd d s) = world.more s"
  by (simp add: wrote_def split: prod.split sum.split)

lemma killed_more: "world.more (killed K pid sig s) = world.more s"
  by (simp add: killed_def split: prod.split sum.split)

lemma wrote_trace: "trace (wrote K fd d s) = trace s \<or> trace (wrote K fd d s) = EWrite fd d # trace s"
  by (simp add: wrote_def split: prod.split sum.split)

lemma sys_write_effect:
  fixes K :: "'k platform"
  shows "\<exists>r t es. sys_write K fd d s = Ret r t \<and> trace t = es @ trace s \<and>
     world.more t = world.more s \<and> es \<in> {[], [EWrite fd d]}"
  using sys_write_eval [of K fd d s] wrote_more [of K fd d s] wrote_trace [of K fd d s] by fastforce

text \<open>A \<open>for\<close> loop whose body only makes system calls.\<close>

lemma foreach_fold:
  fixes s :: "('k, 'z) world_scheme"
  assumes "\<And>p s'. p \<in> set ps \<Longrightarrow> world.more s' = world.more s \<Longrightarrow>
    f p s' = Ret () (g p s') \<and> world.more (g p s') = world.more s'"
  shows "foreach ps f s = Ret () (fold g ps s)"
  using assms
proof (induction ps arbitrary: s)
  case Nil
  then show ?case by (simp add: prog_simps)
next
  case (Cons p ps)
  from Cons.prems [of p s] have "f p s = Ret () (g p s)" "world.more (g p s) = world.more s" by simp_all
  with Cons.prems Cons.IH [of "g p s"] show ?case by (simp add: prog_simps)
qed

text \<open>What \<open>cleanup\<close> does to one active process.\<close>

definition told ::
  "'k platform \<Rightarrow> int \<times> nat \<Rightarrow> ('k, 'z) multi_world_scheme \<Rightarrow> ('k, 'z) multi_world_scheme" where
  "told K p s = (case mu_stop_flag s of
       STOP_WAIT \<Rightarrow> s
     | STOP_KILL \<Rightarrow> killed K (fst p) (mu_stop_signum s) s
     | STOP_USER \<Rightarrow> wrote K (ps_user_stop_fd (st_proc (mh_ret (mu_handles s (snd p))))) [NUL] s)"

definition stoppable :: "('k, 'z) multi_world_scheme \<Rightarrow> bool" where
  "stoppable s \<longleftrightarrow>
     (\<forall>p \<in> set (mu_active s). ps_user_stop_fd (st_proc (mh_ret (mu_handles s (snd p)))) \<noteq> -1)"

lemma cleanup_eval:
  assumes "mu_stop_flag s = STOP_USER \<longrightarrow> stoppable s"
  shows "cleanup K s = Ret () (fold (told K) (mu_active s) (s\<lparr>mu_stopping := True\<rparr>))"
proof -
  let ?s = "s\<lparr>mu_stopping := True\<rparr>"
  let ?kill = "\<lambda>p. bind (gets mu_stop_signum) (\<lambda>sig. bind (sys_kill K (fst p) sig) (\<lambda>_. skip))"
  let ?user = "\<lambda>p. bind (handle_gets (snd p) (\<lambda>x. st_proc (mh_ret x))) (user_stop K)"
  have told: "told K p s' = (case mu_stop_flag s of STOP_WAIT \<Rightarrow> s'
      | STOP_KILL \<Rightarrow> killed K (fst p) (mu_stop_signum s) s'
      | STOP_USER \<Rightarrow> wrote K (ps_user_stop_fd (st_proc (mh_ret (mu_handles s (snd p))))) [NUL] s')"
    and same: "mu_stop_signum s' = mu_stop_signum s" "mu_handles s' = mu_handles s"
    if "world.more s' = world.more ?s" for p s'
    using more_multi [OF that] by (simp_all add: told_def split: stop_flag.split)
  show ?thesis
  proof (cases "mu_stop_flag s")
    case STOP_WAIT
    then have "foreach (mu_active s) (\<lambda>_. skip) ?s = Ret () (fold (told K) (mu_active s) ?s)"
      using told by (intro foreach_fold) (simp add: prog_simps)
    moreover have "foreach ps (\<lambda>_. skip) u = Ret () u" for ps :: "(int \<times> nat) list" and u :: "('a, 'b) multi_world_scheme"
      by (induction ps) (simp_all add: prog_simps)
    ultimately show ?thesis using STOP_WAIT by (simp add: cleanup_def prog_simps)
  next
    case STOP_KILL
    then have "foreach (mu_active s) ?kill ?s = Ret () (fold (told K) (mu_active s) ?s)"
      using told same by (intro foreach_fold) (simp add: prog_simps sys_kill_eval killed_more)
    with STOP_KILL show ?thesis by (simp add: cleanup_def prog_simps)
  next
    case STOP_USER
    then have "foreach (mu_active s) ?user ?s = Ret () (fold (told K) (mu_active s) ?s)"
      using told same assms
      by (intro foreach_fold)
         (auto simp: prog_simps handle_gets_def user_stop_def sys_write_eval wrote_more stoppable_def)
    with STOP_USER show ?thesis by (simp add: cleanup_def prog_simps)
  qed
qed

subsection \<open>A stop job and the empty job\<close>

lemma job_nullptr_stop_eval:
  assumes "mu_stop_flag s = STOP_USER \<longrightarrow> stoppable s"
  shows "job_nullptr_stop K s =
    (if mu_active s = [] then Ret STOP_LOOP s
     else if mu_stopping s then Ret NOTHING s
     else Ret NOTHING (fold (told K) (mu_active s) (s\<lparr>mu_stopping := True\<rparr>)))"
  using cleanup_eval [OF assms, of K] by (auto simp: job_nullptr_stop_def prog_simps)

lemma dispatch_job_eval:
  assumes "qb_buffer (mu_buffer s) = job # rest"
  shows "dispatch_job N K U s =
    (case job of
       None \<Rightarrow> job_nullptr_stop K
     | Some (Stop flag signum) \<Rightarrow> job_stop K flag signum
     | Some (Spawn h) \<Rightarrow> job_spawn_proc N K U h) (s\<lparr>mu_buffer := (mu_buffer s)\<lparr>qb_buffer := rest\<rparr>\<rparr>)"
  using assms by (simp add: dispatch_job_def prog_simps qb_remove_def)

text \<open>The flags after a job other than a new process, while the manager is not stopping.\<close>

definition note_flags ::
  "pexec_job option \<Rightarrow> ('k, 'z) multi_world_scheme \<Rightarrow> ('k, 'z) multi_world_scheme" where
  "note_flags job s = (case job of
       Some (Stop flag signum) \<Rightarrow> s\<lparr>mu_stop_flag := flag, mu_stop_signum := signum\<rparr>
     | _ \<Rightarrow> s)"

text \<open>
  Property C10. The stop protocol: what a stop job, or the empty job, does, on every branch
  and to the last field of the state. While the manager is not stopping, a stop job records
  its flag and signal. If no process is active, the job then ends the loop at once. Otherwise
  the manager is stopping from now on, and each active process in turn is told what the flag
  says: nothing, exactly one \<open>kill\<close> with the signal, or one \<open>write\<close> of a byte to its watch
  pipe, whatever these calls answer. While the manager is stopping, a stop job is ignored, and
  the empty job ends the loop exactly when no process is active any more. (A process whose
  record has no watch pipe, which \<open>user_stop\<close> asserts, is excluded.)
\<close>

theorem stop_protocol:
  assumes "qb_buffer (mu_buffer s) = job # rest" and "job = None \<or> (\<exists>fl sig. job = Some (Stop fl sig))"
    and "stoppable s"
  shows "dispatch_job N K U s =
    (let s1 = s\<lparr>mu_buffer := (mu_buffer s)\<lparr>qb_buffer := rest\<rparr>\<rparr>; s2 = note_flags job s1 in
     if mu_stopping s then Ret (if job = None \<and> mu_active s = [] then STOP_LOOP else NOTHING) s1
     else if mu_active s = [] then Ret STOP_LOOP s2
     else Ret NOTHING (fold (told K) (mu_active s) (s2\<lparr>mu_stopping := True\<rparr>)))"
proof -
  let ?s = "s\<lparr>mu_buffer := (mu_buffer s)\<lparr>qb_buffer := rest\<rparr>\<rparr>"
  have st: "stoppable (note_flags job ?s)"
    using assms(3) by (auto simp: stoppable_def note_flags_def split: option.split pexec_job.split)
  show ?thesis
  proof (cases job)
    case None
    with st job_nullptr_stop_eval [of ?s K] show ?thesis
      by (simp add: dispatch_job_eval [OF assms(1)] note_flags_def Let_def)
  next
    case (Some j)
    then obtain flag signum where j: "job = Some (Stop flag signum)" using assms(2) by auto
    show ?thesis
    proof (cases "mu_stopping s")
      case True
      with j show ?thesis
        by (simp add: dispatch_job_eval [OF assms(1)] job_stop_def prog_simps Let_def)
    next
      case False
      let ?u = "?s\<lparr>mu_stop_flag := flag, mu_stop_signum := signum\<rparr>"
      have u: "note_flags job ?s = ?u" using j by (simp add: note_flags_def)
      have "stoppable ?u" using st unfolding u .
      note run = job_nullptr_stop_eval [OF impI [OF this], of K]
      from j False u run show ?thesis
        by (simp add: dispatch_job_eval [OF assms(1)] job_stop_def prog_simps Let_def)
    qed
  qed
qed

subsection \<open>Registration\<close>

text \<open>\<open>registered_fd_\<close> is a registry like the map of the event loop.\<close>

interpretation rg: registry map_of AList.update AList.delete "\<lambda>_. True"
  by unfold_locales (simp_all add: update_conv' delete_conv')

text \<open>The manager uses its own event loop, which exists.\<close>

definition own_loop :: "('k, 'z) multi_world_scheme \<Rightarrow> bool" where
  "own_loop s \<longleftrightarrow> mu_register s = LoopRegister \<and> mu_loop s"

lemma mu_add_read_event_eval:
  assumes "own_loop s" and "se_lookup (sel s) fd = None"
  shows "mu_add_read_event K U fd cb s = Ret () (s\<lparr>mu_registered := AList.update fd cb (mu_registered s),
    sel := add_event K fd (Some DoAction) (sel s)\<rparr>)"
  using assms
  by (simp add: mu_add_read_event_def register_call_def own_loop_def se_add_read_event_def
      upd_sel_def add_event_def se_lookup_def prog_simps)

lemma mu_remove_read_event_eval:
  assumes "own_loop s" and "se_lookup (sel s) fd \<noteq> None"
  shows "mu_remove_read_event K U fd s = Ret () (s\<lparr>mu_registered := AList.delete fd (mu_registered s),
    sel := erase_event fd (sel s)\<rparr>)"
  using assms
  by (simp add: mu_remove_read_event_def register_call_def own_loop_def se_remove_read_event_def
      upd_sel_def se_lookup_def prog_simps)

lemma erase_event_lookup: "se_lookup (erase_event fd e) = (se_lookup e)(fd := None)"
  by (simp add: se_lookup_def erase_event_cbs erase_node_lookup fun_eq_iff)

text \<open>The descriptors of a handle that are watched, as the code removes them.\<close>

definition watched_fds :: "pexec_fds \<Rightarrow> int list" where
  "watched_fds fds = [watch_close_write_fd fds, stdout_read_fd fds, stderr_read_fd fds]"

lemma remove_all_eval:
  assumes "own_loop s" and "distinct fs" and "\<forall>fd \<in> set fs. se_lookup (sel s) fd \<noteq> None"
  shows "block (map (mu_remove_read_event K U) fs) s =
    Ret () (s\<lparr>mu_registered := fold AList.delete fs (mu_registered s),
      sel := fold erase_event fs (sel s)\<rparr>)"
  using assms
proof (induction fs arbitrary: s)
  case Nil
  then show ?case by (simp add: prog_simps)
next
  case (Cons fd fs)
  let ?s = "s\<lparr>mu_registered := AList.delete fd (mu_registered s), sel := erase_event fd (sel s)\<rparr>"
  have "own_loop ?s" using Cons.prems(1) by (simp add: own_loop_def)
  moreover have "\<forall>fd' \<in> set fs. se_lookup (sel ?s) fd' \<noteq> None"
    using Cons.prems by (auto simp: erase_event_lookup)
  ultimately show ?case
    using Cons.IH [of ?s] Cons.prems mu_remove_read_event_eval [of s fd K U]
    by (simp add: prog_simps)
qed

lemma block_append: "block (ms @ ks) s = seq (block ms) (block ks) s"
  by (induction ms arbitrary: s) (simp_all add: prog_simps split: outcome.split)

text \<open>Adding a job, while there is room, writes the byte that wakes the loop.\<close>

lemma send_job_eval:
  assumes "length (qb_buffer (mu_buffer s)) < qb_size (mu_buffer s)"
  shows "send_job K ptr s = Ret () (wrote K (snd (mu_control_pipe s)) [NUL]
    (s\<lparr>mu_buffer := (mu_buffer s)\<lparr>qb_buffer := qb_buffer (mu_buffer s) @ [ptr]\<rparr>\<rparr>))"
  using assms by (simp add: send_job_def mu_interrupt_def qb_add_def prog_simps sys_write_eval)

text \<open>The end of a process: what the manager forgets, and the job it may post.\<close>

lemma proc_stopped_run:
  fixes pid :: int
  assumes "own_loop s" and "alive h s" and "distinct (watched_fds (mh_fds (mu_handles s h)))"
    and "\<forall>fd \<in> set (watched_fds (mh_fds (mu_handles s h))). se_lookup (sel s) fd \<noteq> None"
  defines "fs \<equiv> watched_fds (mh_fds (mu_handles s h))"
  shows "proc_stopped K U h pid s =
    onlyif (mu_stopping s \<and> AList.delete pid (mu_active s) = []) (send_job_nullptr_stop K)
      (s\<lparr>mu_registered := fold AList.delete fs (mu_registered s),
         sel := fold erase_event fs (sel s), mu_active := AList.delete pid (mu_active s)\<rparr>)"
proof -
  let ?u = "s\<lparr>mu_registered := fold AList.delete fs (mu_registered s), sel := fold erase_event fs (sel s)\<rparr>"
  let ?rest = "[upd (\<lambda>s. s\<lparr>mu_active := AList.delete pid (mu_active s)\<rparr>),
    bind (gets (\<lambda>s. mu_stopping s \<and> mu_active s = [])) (\<lambda>last. onlyif last (send_job_nullptr_stop K))]"
  have rm: "block (map (mu_remove_read_event K U) fs) s = Ret () ?u"
    using remove_all_eval [OF assms(1,3,4)] by (simp add: fs_def)
  have "proc_stopped K U h pid s = block (map (mu_remove_read_event K U) fs @ ?rest) s"
    using assms(2) by (simp add: proc_stopped_def handle_gets_def fs_def watched_fds_def prog_simps)
  also have "\<dots> = block ?rest ?u" by (simp only: block_append seq_eval rm outcome.case)
  finally show ?thesis by (simp add: prog_simps split: outcome.split)
qed

text \<open>The end of the loop.\<close>

lemma handle_stop_eval:
  assumes "own_loop s" and "mu_type s = DEFAULT"
    and "fst (sigchld_pipe_signal s) \<noteq> fst (mu_control_pipe s)"
    and "se_lookup (sel s) (fst (sigchld_pipe_signal s)) \<noteq> None"
    and "se_lookup (sel s) (fst (mu_control_pipe s)) \<noteq> None"
  defines "a \<equiv> fst (sigchld_pipe_signal s)" and "b \<equiv> fst (mu_control_pipe s)"
  shows "handle_stop K U s = Ret () (wrote K (interrupt_write_fd (sel s)) [NUL]
    (s\<lparr>mu_registered := AList.delete b (AList.delete a (mu_registered s)),
       sel := erase_event b (erase_event a (sel s)), mu_stop_flag := STOP_WAIT, mu_stop_signum := -1,
       mu_stopping := False\<rparr>))"
proof -
  let ?u = "s\<lparr>mu_registered := AList.delete b (AList.delete a (mu_registered s)),
    sel := erase_event b (erase_event a (sel s)), mu_stop_flag := STOP_WAIT,
    mu_stop_signum := -1, mu_stopping := False\<rparr>"
  have one: "mu_remove_read_event K U a s = Ret () (s\<lparr>mu_registered := AList.delete a (mu_registered s),
      sel := erase_event a (sel s)\<rparr>)" (is "_ = Ret () ?v")
    using mu_remove_read_event_eval [OF assms(1,4)] by (simp add: a_def)
  have two: "mu_remove_read_event K U b ?v = Ret () (?v\<lparr>mu_registered := AList.delete b (mu_registered ?v),
      sel := erase_event b (sel ?v)\<rparr>)"
    using assms by (intro mu_remove_read_event_eval) (simp_all add: own_loop_def erase_event_lookup a_def b_def)
  have loop: "mu_loop s" using assms(1) by (simp add: own_loop_def)
  have "handle_stop K U s = se_interrupt K ?u"
    using assms(2) loop
    by (simp add: handle_stop_def sh_get_read_fd_def sigchld_get_signal_fd_def prog_simps one two flip: a_def b_def
        split: outcome.split)
  also have "\<dots> = Ret () (wrote K (interrupt_write_fd (sel s)) [NUL] ?u)"
    by (simp add: se_interrupt_def prog_simps sys_write_eval interrupt_write_fd_def erase_event_control)
  finally show ?thesis .
qed

subsection \<open>While stopping\<close>

lemma dispatch_job_stopping:
  assumes "qb_buffer (mu_buffer s) = job # rest" and "mu_stopping s"
  shows "dispatch_job N K U s =
    Ret (if job = None \<and> mu_active s = [] then STOP_LOOP else NOTHING)
      (s\<lparr>mu_buffer := (mu_buffer s)\<lparr>qb_buffer := rest\<rparr>\<rparr>)"
  using assms(2)
  by (cases job rule: option.exhaust [case_names None Some])
     (auto simp: dispatch_job_eval [OF assms(1)] job_nullptr_stop_def job_stop_def
       job_spawn_proc_def prog_simps split: pexec_job.split)

subsection \<open>An example\<close>

text \<open>A manager whose only process, 42, is active, with two jobs in its queue.\<close>

definition demo_busy_handle :: multi_handle where
  "demo_busy_handle = blank_handle
     \<lparr>mh_fds := \<lparr>stdout_read_fd = 11, stderr_read_fd = 13, stdin_write_fd = 10,
        watch_close_write_fd = 15\<rparr>,
      mh_ret := init_pexec_status\<lparr>st_proc := init_proc_status\<lparr>ps_user_stop_fd := 16\<rparr>\<rparr>,
      mh_proc_stopped := Some 42\<rparr>"

definition demo_busy_world :: "bool \<Rightarrow> script multi_world" where
  "demo_busy_world stopping = (demo_multi_world empty_script)
     \<lparr>mu_register := LoopRegister, mu_loop := True, mu_stopping := stopping,
      mu_control_pipe := (3, 4), sigchld_pipe_signal := (7, 8), mu_active := [(42, 0)],
      mu_registered := [(7, RSignal), (3, RControl), (15, RClose 0), (11, RStdout 0), (13, RStderr 0)],
      sel := init_select_event\<lparr>se_control_pipe := (5, 6),
        se_cbs := [(5, None), (7, Some DoAction), (3, Some DoAction), (15, Some DoAction),
          (11, Some DoAction), (13, Some DoAction)]\<rparr>,
      mu_handles := (\<lambda>_. demo_busy_handle),
      mu_buffer := empty_queue\<lparr>qb_buffer := [Some (Stop STOP_KILL 9), Some (Spawn 1)]\<rparr>\<rparr>"

lemma demo_busy:
  "own_loop (demo_busy_world b)" "alive 0 (demo_busy_world b)"
  "distinct (watched_fds (mh_fds (mu_handles (demo_busy_world b) 0)))"
  "\<forall>fd \<in> set (watched_fds (mh_fds (mu_handles (demo_busy_world b) 0))).
     se_lookup (sel (demo_busy_world b)) fd \<noteq> None"
  "length (qb_buffer (mu_buffer (demo_busy_world b))) < qb_size (mu_buffer (demo_busy_world b))"
  "mu_stopping (demo_busy_world b) = b" "mu_active (demo_busy_world b) = [(42, 0)]"
  "qb_buffer (mu_buffer (demo_busy_world b)) = [Some (Stop STOP_KILL 9), Some (Spawn 1)]"
  "stoppable (demo_busy_world b)" "mu_type (demo_busy_world b) = DEFAULT"
  "fst (sigchld_pipe_signal (demo_busy_world b)) = 7" "fst (mu_control_pipe (demo_busy_world b)) = 3"
  "se_lookup (sel (demo_busy_world b)) 7 \<noteq> None" "se_lookup (sel (demo_busy_world b)) 3 \<noteq> None"
  "mu_handles (demo_busy_world b) 0 = demo_busy_handle"
  "trace (demo_busy_world b) = []"
  by (auto simp: demo_busy_world_def demo_multi_world_def own_loop_def alive_def watched_fds_def
      se_lookup_def empty_queue_def ULONG_MAX_def stoppable_def demo_busy_handle_def)

subsection \<open>Properties\<close>

theorem stop_protocol_witness:
  "\<exists>t. dispatch_job multi_fuel script_platform silent_user (demo_busy_world False) = Ret NOTHING t \<and>
     trace t = [EKill 42 9] \<and> mu_stopping t \<and> mu_stop_flag t = STOP_KILL"
proof -
  have "Some (Stop STOP_KILL 9) = None \<or> (\<exists>fl sig. Some (Stop STOP_KILL 9) = Some (Stop fl sig))" by simp
  from stop_protocol [OF demo_busy(8) this demo_busy(9) [of False], of multi_fuel script_platform silent_user]
  show ?thesis
    using demo_busy(6,7,16) [of False]
    by (simp add: note_flags_def told_def killed_def Let_def script_platform_def)
qed

text \<open>
  Property C13. The end of a process: with the manager's own loop, for an active handle whose three
  descriptors are different and watched, and with room in the queue. The callback that a
  handle calls last takes exactly the three descriptors of the handle out of the registry and of the event loop, and the
  process out of the active ones. When the manager is stopping and this was the last process,
  it posts the empty job and writes one byte to the control pipe, which wakes the loop for it;
  else it makes no system call. It never fails, and every other field of the state is as before.
\<close>

theorem process_end:
  assumes "own_loop s" and "alive h s" and "distinct (watched_fds (mh_fds (mu_handles s h)))"
    and "\<forall>fd \<in> set (watched_fds (mh_fds (mu_handles s h))). se_lookup (sel s) fd \<noteq> None"
    and "length (qb_buffer (mu_buffer s)) < qb_size (mu_buffer s)"
  shows "\<exists>reg e. let fs = set (watched_fds (mh_fds (mu_handles s h))); ps = AList.delete pid (mu_active s);
       u = s\<lparr>mu_registered := reg, sel := e, mu_active := ps\<rparr> in
     proc_stopped K U h pid s = Ret ()
       (if mu_stopping s \<and> ps = []
        then wrote K (snd (mu_control_pipe s)) [NUL]
          (u\<lparr>mu_buffer := (mu_buffer s)\<lparr>qb_buffer := qb_buffer (mu_buffer s) @ [None]\<rparr>\<rparr>)
        else u) \<and>
     map_of reg = (map_of (mu_registered s)) |` (- fs) \<and>
     se_lookup e = (se_lookup (sel s)) |` (- fs) \<and> se_control_pipe e = se_control_pipe (sel s)"
proof -
  let ?fs = "watched_fds (mh_fds (mu_handles s h))"
  let ?u = "s\<lparr>mu_registered := fold AList.delete ?fs (mu_registered s),
    sel := fold erase_event ?fs (sel s), mu_active := AList.delete pid (mu_active s)\<rparr>"
  have "map_of (fold AList.delete ?fs (mu_registered s)) = (map_of (mu_registered s)) |` (- set ?fs)"
    using rg.del_all [where r = "mu_registered s" and fds = ?fs] by simp
  moreover have "se_lookup (fold erase_event ?fs (sel s)) = (se_lookup (sel s)) |` (- set ?fs)"
    by (auto simp: watched_fds_def erase_event_lookup restrict_map_def fun_eq_iff)
  moreover have "se_control_pipe (fold erase_event ?fs (sel s)) = se_control_pipe (sel s)"
    by (simp add: watched_fds_def erase_event_control)
  moreover have "proc_stopped K U h pid s = Ret ()
      (if mu_stopping s \<and> AList.delete pid (mu_active s) = []
       then wrote K (snd (mu_control_pipe s)) [NUL]
         (?u\<lparr>mu_buffer := (mu_buffer s)\<lparr>qb_buffer := qb_buffer (mu_buffer s) @ [None]\<rparr>\<rparr>)
       else ?u)"
  proof (cases "mu_stopping s \<and> AList.delete pid (mu_active s) = []")
    case True
    with proc_stopped_run [OF assms(1-4), of K U pid] send_job_eval [of ?u K None] assms(5)
    show ?thesis by (simp add: send_job_nullptr_stop_def prog_simps)
  next
    case False
    with proc_stopped_run [OF assms(1-4), of K U pid] show ?thesis by (auto simp: prog_simps)
  qed
  ultimately show ?thesis
    by (intro exI [of _ "fold AList.delete ?fs (mu_registered s)"] exI [of _ "fold erase_event ?fs (sel s)"])
       (simp only: Let_def simp_thms)
qed

theorem process_end_witness:
  "\<exists>t. proc_stopped script_platform silent_user 0 42 (demo_busy_world False) = Ret () t \<and>
     mu_active t = [] \<and> map_of (mu_registered t) 11 = None \<and>
     map_of (mu_registered t) 7 \<noteq> None \<and> trace t = []"
proof -
  have "map_of (mu_registered (demo_busy_world False)) 7 \<noteq> None"
    by (simp add: demo_busy_world_def)
  then show ?thesis
    using process_end [OF demo_busy(1-5) [of False], where pid = 42 and K = script_platform and U = silent_user]
    by (auto simp: demo_busy demo_busy_handle_def watched_fds_def Let_def restrict_map_def)
qed

text \<open>
  Property C15. The end of the loop, in a manager with its own loop that watches the two
  different descriptors: \<open>handle_stop\<close> takes the signal pipe and the control pipe out of the registry and of the event loop, sets the stop flags to STOP_WAIT and -1 and
  the manager to not stopping, so that it can be run again, and as its last step writes one
  byte to the event loop's own pipe, whose callback ends the loop. Every other field of the
  state is as before. (The number of the signal is -1 then, while a new object has 0.)
\<close>

theorem loop_end:
  assumes "own_loop s" and "mu_type s = DEFAULT"
    and "fst (sigchld_pipe_signal s) \<noteq> fst (mu_control_pipe s)"
    and "se_lookup (sel s) (fst (sigchld_pipe_signal s)) \<noteq> None"
    and "se_lookup (sel s) (fst (mu_control_pipe s)) \<noteq> None"
  shows "\<exists>reg e. let fs = {fst (sigchld_pipe_signal s), fst (mu_control_pipe s)} in
     handle_stop K U s = Ret () (wrote K (interrupt_write_fd (sel s)) [NUL]
       (s\<lparr>mu_registered := reg, sel := e, mu_stop_flag := STOP_WAIT, mu_stop_signum := -1,
          mu_stopping := False\<rparr>)) \<and>
     map_of reg = (map_of (mu_registered s)) |` (- fs) \<and>
     se_lookup e = (se_lookup (sel s)) |` (- fs) \<and> se_control_pipe e = se_control_pipe (sel s) \<and>
     lc_interrupt (multi_callbacks N K U) = Some (ret STOP_LOOP)"
proof -
  let ?a = "fst (sigchld_pipe_signal s)" and ?b = "fst (mu_control_pipe s)"
  let ?reg = "AList.delete ?b (AList.delete ?a (mu_registered s))"
  let ?e = "erase_event ?b (erase_event ?a (sel s))"
  have run: "handle_stop K U s = Ret () (wrote K (interrupt_write_fd (sel s)) [NUL]
      (s\<lparr>mu_registered := ?reg, sel := ?e, mu_stop_flag := STOP_WAIT, mu_stop_signum := -1,
         mu_stopping := False\<rparr>))"
    using handle_stop_eval [OF assms] .
  have "map_of ?reg = (map_of (mu_registered s)) |` (- {?a, ?b})"
    by (auto simp: delete_conv' restrict_map_def fun_eq_iff)
  moreover have "se_lookup ?e = (se_lookup (sel s)) |` (- {?a, ?b})"
    by (auto simp: erase_event_lookup restrict_map_def fun_eq_iff)
  ultimately show ?thesis
    using run unfolding Let_def
    by (intro exI [of _ ?reg] exI [of _ ?e])
       (simp only: erase_event_control multi_callbacks_def loop_callbacks.simps simp_thms)
qed

theorem loop_end_witness:
  "\<exists>t. handle_stop script_platform silent_user (demo_busy_world True) = Ret () t \<and>
     map_of (mu_registered t) 7 = None \<and> map_of (mu_registered t) 3 = None \<and> \<not> mu_stopping t"
proof -
  have "fst (sigchld_pipe_signal (demo_busy_world True)) \<noteq> fst (mu_control_pipe (demo_busy_world True))"
    by (simp add: demo_busy(11,12))
  from loop_end [OF demo_busy(1,10) [of True] this, unfolded demo_busy(11,12), OF demo_busy(13,14),
      of script_platform silent_user multi_fuel]
  obtain reg e where run: "handle_stop script_platform silent_user (demo_busy_world True) = Ret ()
      (wrote script_platform (interrupt_write_fd (sel (demo_busy_world True))) [NUL]
        ((demo_busy_world True)\<lparr>mu_registered := reg, sel := e, mu_stop_flag := STOP_WAIT,
           mu_stop_signum := -1, mu_stopping := False\<rparr>))" (is "_ = Ret () (wrote _ ?fd _ ?u)")
    and reg: "map_of reg = (map_of (mu_registered (demo_busy_world True))) |` (- {7, 3})"
    unfolding Let_def by blast
  have "map_of (mu_registered (wrote script_platform ?fd [NUL] ?u)) 7 = None"
    "map_of (mu_registered (wrote script_platform ?fd [NUL] ?u)) 3 = None"
    "\<not> mu_stopping (wrote script_platform ?fd [NUL] ?u)"
    using more_multi [OF wrote_more, of script_platform ?fd "[NUL]" ?u] reg by simp_all
  with run show ?thesis by blast
qed

text \<open>
  Property C35. A program that cannot be started aborts the whole process: for a command line
  without an argument (\<open>prepare_args\<close> fails, before anything else) the handle is told
  FAIL_STOPPED and ARG_PARSE_ERROR is reported, but then \<open>job_spawn_proc\<close> asserts that the
  process id, which is still 0, is positive.
\<close>

theorem failed_spawn_aborts:
  assumes "str2arg args = []" and "\<not> mu_stopping s"
  shows "\<exists>t. seq (make_handle h args) (job_spawn_proc N K silent_user h) s = End Aborted t \<and>
     states_of (trace t) = states_of (trace s) @ [FAIL_STOPPED] \<and>
     errors_of (trace t) = errors_of (trace s) @ [ARG_PARSE_ERROR] \<and>
     st_state (mh_ret (mu_handles t h)) = FAIL_STOPPED"
  using assms by (simp add: multi_run silent_user_def del: multi_lazy)

theorem failed_spawn_aborts_witness:
  "\<exists>t. seq (make_handle 0 '' '') (job_spawn_proc multi_fuel script_platform silent_user 0)
       (demo_multi_world empty_script) = End Aborted t \<and>
     errors_of (trace t) = [ARG_PARSE_ERROR]"
proof -
  have "str2arg '' '' = []" by code_simp
  moreover have "\<not> mu_stopping (demo_multi_world empty_script)" by (simp add: demo_multi_world_def)
  ultimately show ?thesis
    using failed_spawn_aborts [of "'' ''" "demo_multi_world empty_script" 0 multi_fuel script_platform]
    by (auto simp: demo_multi_world_def)
qed

text \<open>
  Property C36. A second run with an external loop does not work: \<open>run\<close> makes the new
  SIGCHLD handler before it destroys the one that the first run left. When every system call
  succeeds, the destructor of the old one takes back what the constructor of the new one did:
  the new pipe is closed, so that the descriptor which is registered is negative, the handler
  counts as inactive although the new object is valid, and the pipe of the first run is never
  closed.
\<close>

theorem external_rerun_loses_signals:
  assumes "mu_sigchld s = WiredSigchld"
    and "k_pipe2 K (O_CLOEXEC OR O_NONBLOCK) (kst s) = (Inr (a, b), k1)"
    and "k_sigaction K MULTI_HANDLER k1 = (Inr prev, k2)"
    and "k_sigaction K prev k2 = (Inr x, k3)"
  shows "\<exists>t. new_sigchld N K U s = Ret () t \<and> sh_valid t \<and> \<not> sigchld_active t \<and>
     fst (sigchld_pipe_signal t) < 0 \<and> snd (sigchld_pipe_signal t) < 0 \<and>
     handlers_of (trace t) = handlers_of (trace s) @ [MULTI_HANDLER, prev] \<and>
     open_fds (trace s) - {a, b} \<subseteq> open_fds (trace t)"
proof -
  let ?u = "s\<lparr>sh_err := NO_ERROR, sh_signal_set := {SIGCHLD},
    sigchld_pipe_signal := (a, b), sigchld_sa_prev := prev, sigchld_active := True,
    kst := k3, trace := ESigaction prev # ESigaction MULTI_HANDLER # EPipe a b # trace s\<rparr>"
  obtain t where t: "close_pipe K (a, b) ?u = Ret (closed_fd a, closed_fd b) t"
    using close_pipe_returns [of K "(a, b)" ?u] by auto
  note c = close_pipe_Ret [OF t]
  have "new_sigchld N K U s = Ret () (t\<lparr>sigchld_pipe_signal := (closed_fd a, closed_fd b),
      sigchld_active := False, sh_err := NO_ERROR, sh_signal_set := {SIGCHLD},
      mu_sigchld := BareSigchld\<rparr>)"
    using assms t
    by (simp add: new_sigchld_def sh_construct_def sh_prepare_signal_set_def
        sigchld_set_signal_handler_def sys_pipe2_def sys_sigaction_def syscall_def
        destroy_sigchld_def sh_destruct_def sigchld_reset_signal_handler_def prog_simps)
  moreover have "open_fds (trace s) - {a, b} \<subseteq> open_fds (trace t)"
    using c by (auto simp: open_fds_close_events)
  moreover have "handlers_of (close_events (a, b)) = []" by (simp add: close_events_def)
  ultimately show ?thesis using c by (auto simp: sh_valid_def closed_fd_def)
qed

theorem external_rerun_loses_signals_witness:
  "\<exists>t. new_sigchld multi_fuel script_platform silent_user
       ((demo_multi_world (empty_script\<lparr>sc_pipes := 1,
           sc_sigaction := [Inr MULTI_HANDLER, Inr MULTI_HANDLER]\<rparr>))\<lparr>mu_sigchld := WiredSigchld\<rparr>)
       = Ret () t \<and> sh_valid t \<and> fst (sigchld_pipe_signal t) < 0"
proof -
  let ?sc = "empty_script\<lparr>sc_pipes := 1, sc_sigaction := [Inr MULTI_HANDLER, Inr MULTI_HANDLER]\<rparr>"
  let ?s = "(demo_multi_world ?sc)\<lparr>mu_sigchld := WiredSigchld\<rparr>"
  have "mu_sigchld ?s = WiredSigchld" by simp
  moreover have "k_pipe2 script_platform (O_CLOEXEC OR O_NONBLOCK) (kst ?s) =
      (Inr (3, 4), ?sc\<lparr>sc_next_fd := 5, sc_pipes := 0\<rparr>)"
    by (simp add: demo_multi_world_def empty_script_def)
  moreover have "k_sigaction script_platform MULTI_HANDLER (?sc\<lparr>sc_next_fd := 5, sc_pipes := 0\<rparr>) =
      (Inr MULTI_HANDLER, ?sc\<lparr>sc_next_fd := 5, sc_pipes := 0, sc_sigaction := [Inr MULTI_HANDLER]\<rparr>)"
    by (simp add: empty_script_def)
  moreover have "k_sigaction script_platform MULTI_HANDLER
        (?sc\<lparr>sc_next_fd := 5, sc_pipes := 0, sc_sigaction := [Inr MULTI_HANDLER]\<rparr>) =
      (Inr MULTI_HANDLER, ?sc\<lparr>sc_next_fd := 5, sc_pipes := 0, sc_sigaction := []\<rparr>)"
    by (simp add: empty_script_def)
  ultimately show ?thesis
    using external_rerun_loses_signals [of ?s] by blast
qed

end
