(* ===== verification/Multi_Stop.thy ===== *)
theory Multi_Stop
  imports Multi_Jobs
begin

section \<open>A stop comes to its end\<close>

text \<open>
  Whether the loop ends after a stop depends on the bytes in the control pipe: a round takes
  one byte and one job, so a job without its byte would never be seen. The lemmas follow the rounds of
  the event loop from the end of the last process on, on a platform whose pipes hold what was
  written to them and whose \<open>select\<close> reports the descriptors that have bytes.
\<close>

subsection \<open>Pipes that hold bytes\<close>

text \<open>\<open>avail k fd\<close> is the number of bytes that can be read from \<open>fd\<close> in the kernel state \<open>k\<close>.\<close>

definition byte_pipe :: "('k \<Rightarrow> int \<Rightarrow> nat) \<Rightarrow> 'k platform \<Rightarrow> int \<times> int \<Rightarrow> bool" where
  "byte_pipe avail K p \<longleftrightarrow>
     (\<forall>k. \<exists>n k'. k_write K (snd p) [NUL] k = (Inr n, k') \<and>
        avail k' = (avail k)(fst p := Suc (avail k (fst p)))) \<and>
     (\<forall>k. 0 < avail k (fst p) \<longrightarrow> (\<exists>d k'. k_read K (fst p) 1 k = (Inr d, k') \<and>
        avail k' = (avail k)(fst p := avail k (fst p) - 1)))"

definition select_reports :: "('k \<Rightarrow> int \<Rightarrow> nat) \<Rightarrow> 'k platform \<Rightarrow> bool" where
  "select_reports avail K \<longleftrightarrow>
     (\<forall>n fds k. (\<exists>fd \<in> fds. 0 < avail k fd) \<longrightarrow> (\<forall>fd \<in> fds. fd < n) \<longrightarrow>
        (\<exists>k'. k_select K n fds k = (Inr {fd \<in> fds. 0 < avail k fd}, k') \<and> avail k' = avail k))"

lemma byte_read:
  assumes "byte_pipe avail K p" and "0 < avail (kst s) (fst p)"
  obtains d k' where "avail k' = (avail (kst s))(fst p := avail (kst s) (fst p) - 1)"
    "read_retry (Suc n) K (fst p) 1 s =
       Ret (Inr d) (s\<lparr>errno := 0, kst := k', trace := ERead (fst p) d # trace s\<rparr>)"
proof -
  from assms obtain d k' where "k_read K (fst p) 1 (kst s) = (Inr d, k')"
    and a: "avail k' = (avail (kst s))(fst p := avail (kst s) (fst p) - 1)"
    unfolding byte_pipe_def by blast
  then have "read_retry (Suc n) K (fst p) 1 s =
      Ret (Inr d) (s\<lparr>errno := 0, kst := k', trace := ERead (fst p) d # trace s\<rparr>)"
    by (simp add: prog_simps set_errno_def sys_read_def syscall_def)
  with a that show ?thesis by blast
qed

lemma byte_wrote:
  assumes "byte_pipe avail K p"
  shows "avail (kst (wrote K (snd p) [NUL] s)) = (avail (kst s))(fst p := Suc (avail (kst s) (fst p)))"
proof -
  from assms obtain n k' where "k_write K (snd p) [NUL] (kst s) = (Inr n, k')"
    "avail k' = (avail (kst s))(fst p := Suc (avail (kst s) (fst p)))"
    unfolding byte_pipe_def by blast
  then show ?thesis by (simp add: wrote_def)
qed

subsection \<open>One round with one ready descriptor\<close>

lemma dispatch_skip:
  "iterator_at (sel s) pre (xs @ post) \<Longrightarrow> \<not> se_iterator_deleted (sel s) \<Longrightarrow>
   set xs \<inter> ready = {} \<Longrightarrow> length xs \<le> m \<Longrightarrow>
   dispatch N K L ready m s =
     dispatch N K L ready (m - length xs) (s\<lparr>sel := (sel s)\<lparr>se_iterator := head_opt post\<rparr>\<rparr>)"
proof (induction xs arbitrary: pre m s)
  case Nil
  then have "se_iterator (sel s) = head_opt post" by (simp add: iterator_at_def)
  then have "s\<lparr>sel := (sel s)\<lparr>se_iterator := head_opt post\<rparr>\<rparr> = s" by simp
  then show ?case by simp
next
  case (Cons x xs)
  then obtain m' where m: "m = Suc m'" by (cases m) auto
  let ?s = "s\<lparr>sel := (sel s)\<lparr>se_iterator := head_opt (xs @ post)\<rparr>\<rparr>"
  have at: "map fst (se_cbs (sel s)) = pre @ x # xs @ post" "distinct (pre @ x # xs @ post)"
    "se_iterator (sel s) = Some x" using Cons.prems(1) by (simp_all add: iterator_at_def)
  have "next_node x (se_cbs (sel s)) = head_opt (xs @ post)"
    using next_node_head [OF at(1)] at(2) by simp
  then have "advance_iterator (sel s) = (sel s)\<lparr>se_iterator := head_opt (xs @ post)\<rparr>"
    using Cons.prems(2) at(3) by (simp add: advance_iterator_def)
  then have "dispatch N K L ready m s = dispatch N K L ready m' ?s"
    using at(3) Cons.prems(3) m by (simp add: prog_simps upd_sel_def)
  also have "\<dots> = dispatch N K L ready (m' - length xs) (?s\<lparr>sel := (sel ?s)\<lparr>se_iterator := head_opt post\<rparr>\<rparr>)"
    using Cons.prems at m by (intro Cons.IH [of _ "pre @ [x]"]) (auto simp: iterator_at_def)
  finally show ?case using m by simp
qed

lemma dispatch_end: "se_iterator (sel s) = None \<Longrightarrow> dispatch N K L ready (Suc m) s = Ret False s"
  by (simp add: prog_simps)

lemma dispatch_single:
  assumes at: "iterator_at (sel s) [] (pre @ fd # post)" and nd: "\<not> se_iterator_deleted (sel s)"
    and one: "(set pre \<union> set post) \<inter> ready = {}" "fd \<in> ready" and m: "Suc (length pre + length post) < m"
    and call: "call_node N K L fd (s\<lparr>sel := (sel s)\<lparr>se_iterator := Some fd\<rparr>\<rparr>) = Ret r u"
    and u: "sel u = fold erase_event fds ((sel s)\<lparr>se_iterator := Some fd\<rparr>)"
  shows "if r = NOTHING
    then \<exists>it. dispatch N K L ready m s = Ret False (u\<lparr>sel := (sel u)\<lparr>se_iterator := it, se_iterator_deleted := False\<rparr>\<rparr>)
    else dispatch N K L ready m s = Ret (r = STOP_LOOP) u"
proof -
  let ?s = "s\<lparr>sel := (sel s)\<lparr>se_iterator := Some fd\<rparr>\<rparr>"
  obtain m' where m': "m - length pre = Suc m'" "Suc (length post) \<le> m'" using m by (cases "m - length pre") auto
  have "dispatch N K L ready m s = dispatch N K L ready (Suc m') ?s"
    using dispatch_skip [of s "[]" pre "fd # post" ready m N K L] at nd one m m' by auto
  also have "\<dots> = (case r of STOP_LOOP \<Rightarrow> ret True | SKIP_OTHER_FD \<Rightarrow> ret False
      | NOTHING \<Rightarrow> seq (upd_sel advance_iterator) (dispatch N K L ready m')) u"
    using one(2) call by (simp add: prog_simps)
  finally have run: "dispatch N K L ready m s = (case r of STOP_LOOP \<Rightarrow> ret True | SKIP_OTHER_FD \<Rightarrow> ret False
      | NOTHING \<Rightarrow> seq (upd_sel advance_iterator) (dispatch N K L ready m')) u" .
  show ?thesis
  proof (cases "r = NOTHING")
    case False
    with run show ?thesis by (cases r) (simp_all add: prog_simps)
  next
    case True
    let ?post = "filter (\<lambda>x. x \<notin> set fds) post"
    let ?u = "u\<lparr>sel := advance_iterator (sel u)\<rparr>"
    have "iterator_at (sel ?s) pre (fd # post)" using at by (simp add: iterator_at_def)
    from iterator_at_advance [OF this, of "advance_iterator (sel u)" fds] nd u obtain pre' where
      at': "iterator_at (sel ?u) pre' (?post @ [])" "\<not> se_iterator_deleted (sel ?u)" by auto
    have len: "length ?post \<le> length post" by (rule length_filter_le)
    have "dispatch N K L ready m s = dispatch N K L ready m' ?u"
      using run True by (simp add: prog_simps upd_sel_def)
    also have "\<dots> = dispatch N K L ready (m' - length ?post) (?u\<lparr>sel := (sel ?u)\<lparr>se_iterator := None\<rparr>\<rparr>)"
      using dispatch_skip [OF at', of ready m' N K L] one(1) m'(2) len by auto
    also have "\<dots> = Ret False (?u\<lparr>sel := (sel ?u)\<lparr>se_iterator := None\<rparr>\<rparr>)"
    proof -
      have "length ?post < m'" by (rule le_less_trans [OF len]) (use m'(2) in simp)
      then obtain m2 where "m' - length ?post = Suc m2" by (metis Suc_diff_Suc)
      then show ?thesis by (simp only:) (rule dispatch_end, simp)
    qed
    also have "?u\<lparr>sel := (sel ?u)\<lparr>se_iterator := None\<rparr>\<rparr> =
        u\<lparr>sel := (sel u)\<lparr>se_iterator := None, se_iterator_deleted := False\<rparr>\<rparr>"
      using at'(2) by (auto simp: advance_iterator_def split: if_splits)
    finally show ?thesis using True by auto
  qed
qed

text \<open>The beginning of a round: \<open>select\<close> reports what has bytes.\<close>

lemma round_begins:
  fixes s :: "('k, 'c, 'z) select_world_scheme"
  assumes "select_reports avail K" and "se_recompute_max_fds (sel s)"
    and "fd \<in> dom (se_lookup (sel s))" and "0 < avail (kst s) fd"
  shows "\<exists>k' top. avail k' = avail (kst s) \<and> loop_rounds (Suc n) K L (Suc m) s =
    bind (dispatch (Suc n) K L {fd \<in> dom (se_lookup (sel s)). 0 < avail (kst s) fd} (Suc n))
      (\<lambda>stop. if stop then skip else loop_rounds (Suc n) K L m)
      (s\<lparr>kst := k', sel := (sel s)\<lparr>se_max_fd := top, se_iterator := first_node (se_cbs (sel s))\<rparr>\<rparr>)"
proof -
  let ?fds = "dom (se_lookup (sel s))"
  let ?top = "Max (insert (-1) ?fds)"
  have "finite (insert (-1) ?fds)" by (simp add: se_lookup_dom)
  then have below: "\<forall>fd \<in> ?fds. fd < ?top + 1" using Max_ge by (metis insertI2 zle_add1_eq_le)
  have "\<exists>fd \<in> ?fds. 0 < avail (kst s) fd" using assms(3,4) by (rule bexI [rotated])
  from assms(1) [unfolded select_reports_def, rule_format, OF this bspec [OF below]] obtain k' where
    k: "k_select K (?top + 1) ?fds (kst s) = (Inr {fd \<in> ?fds. 0 < avail (kst s) fd}, k')" "avail k' = avail (kst s)"
    by blast
  have "select_wait (Suc n) K L s = Ret (Some {fd \<in> ?fds. 0 < avail (kst s) fd})
      (s\<lparr>errno := 0, kst := k', sel := (sel s)\<lparr>se_max_fd := ?top\<rparr>\<rparr>)"
  proof -
    have "?fds \<noteq> {}" using assms(3) by blast
    then show ?thesis
      unfolding select_wait_run [OF assms(2)] Let_def if_not_P [OF \<open>?fds \<noteq> {}\<close>]
      by (simp add: bind_def sys_select_def syscall_def ret_def k(1))
  qed
  then have "loop_rounds (Suc n) K L (Suc m) s =
      bind (dispatch (Suc n) K L {fd \<in> ?fds. 0 < avail (kst s) fd} (Suc n))
      (\<lambda>stop. if stop then skip else loop_rounds (Suc n) K L m)
      (s\<lparr>kst := k', sel := (sel s)\<lparr>se_max_fd := ?top, se_iterator := first_node (se_cbs (sel s))\<rparr>\<rparr>)"
    unfolding loop_rounds.simps
    by (simp add: bind_def seq_def gets_def upd_def set_errno_def upd_sel_def
        del: select_wait.simps dispatch.simps loop_rounds.simps)
  with k(2) show ?thesis by blast
qed

subsection \<open>The control pipe while the manager is stopping\<close>

text \<open>One byte and one job are taken; the empty job takes the manager's descriptors out.\<close>

lemma control_call:
  fixes s :: "('k, 'z) multi_world_scheme"
  assumes c_def: "c = fst (mu_control_pipe s)" and g_def: "g = fst (sigchld_pipe_signal s)"
    and loop: "own_loop s" "mu_type s = DEFAULT" "g \<noteq> c" "se_lookup (sel s) g \<noteq> None"
    and c: "se_lookup (sel s) c = Some (Some DoAction)" "map_of (mu_registered s) c = Some RControl"
    and st: "mu_stopping s" "mu_active s = []" and q: "qb_buffer (mu_buffer s) = job # rest"
    and bytes: "byte_pipe avail K (mu_control_pipe s)" "0 < avail (kst s) c"
  shows "\<exists>d k'. avail k' = (avail (kst s))(c := avail (kst s) c - 1) \<and>
    call_node (Suc n) K (multi_callbacks (Suc n) K U) c s =
      (let u = s\<lparr>errno := 0, kst := k', trace := ERead c d # ECall c # trace s,
             mu_buffer := (mu_buffer s)\<lparr>qb_buffer := rest\<rparr>\<rparr> in
       Ret NOTHING (if job \<noteq> None then u
         else wrote K (interrupt_write_fd (sel s)) [NUL]
           (u\<lparr>mu_registered := AList.delete c (AList.delete g (mu_registered s)),
              sel := erase_event c (erase_event g (sel s)), mu_stop_flag := STOP_WAIT, mu_stop_signum := -1,
              mu_stopping := False\<rparr>)))"
proof -
  let ?s = "s\<lparr>trace := ECall c # trace s\<rparr>"
  have "0 < avail (kst ?s) (fst (mu_control_pipe s))" using bytes(2) by (simp add: c_def)
  from byte_read [OF bytes(1) this] obtain d k' where
    "avail k' = (avail (kst ?s))(c := avail (kst ?s) c - 1)"
    and rd: "read_retry (Suc n) K c 1 ?s =
      Ret (Inr d) (?s\<lparr>errno := 0, kst := k', trace := ERead c d # trace ?s\<rparr>)"
    unfolding c_def by blast
  then have k: "avail k' = (avail (kst s))(c := avail (kst s) c - 1)" by simp
  let ?u = "s\<lparr>errno := 0, kst := k', trace := ERead c d # ECall c # trace s\<rparr>"
  let ?v = "?u\<lparr>mu_buffer := (mu_buffer s)\<lparr>qb_buffer := rest\<rparr>\<rparr>"
  have "dispatch_job (Suc n) K U ?u = Ret (if job = None \<and> mu_active ?u = [] then STOP_LOOP else NOTHING)
      (?u\<lparr>mu_buffer := (mu_buffer ?u)\<lparr>qb_buffer := rest\<rparr>\<rparr>)"
    by (rule dispatch_job_stopping) (use q st in simp_all)
  then have job: "dispatch_job (Suc n) K U ?u = Ret (if job = None then STOP_LOOP else NOTHING) ?v"
    using st by simp
  have stop: "handle_stop K U ?v = Ret () (wrote K (interrupt_write_fd (sel ?v)) [NUL]
      (?v\<lparr>mu_registered := AList.delete (fst (mu_control_pipe ?v))
            (AList.delete (fst (sigchld_pipe_signal ?v)) (mu_registered ?v)),
         sel := erase_event (fst (mu_control_pipe ?v)) (erase_event (fst (sigchld_pipe_signal ?v)) (sel ?v)),
         mu_stop_flag := STOP_WAIT, mu_stop_signum := -1, mu_stopping := False\<rparr>))"
    by (rule handle_stop_eval) (use loop c in \<open>simp_all add: own_loop_def c_def g_def\<close>)
  have "map_of (se_cbs (sel s)) c = Some (Some DoAction)" using c(1) by (simp add: se_lookup_def)
  then have "call_node (Suc n) K (multi_callbacks (Suc n) K U) c s =
      seq (do_action (Suc n) K U c) (ret NOTHING) ?s"
    by (simp add: call_node_def multi_callbacks_def note_event_def bind_def seq_def gets_def upd_def)
  also have "do_action (Suc n) K U c ?s = (bind (dispatch_job (Suc n) K U) (\<lambda>r.
       onlyif (r = STOP_LOOP) (handle_stop K U))) ?u"
    using c(2) rd
    by (simp add: do_action_def bind_def seq_def gets_def assertion_def skip_def ret_def del: read_retry.simps)
  then have "seq (do_action (Suc n) K U c) (ret NOTHING) ?s = (if job = None
      then seq (handle_stop K U) (ret NOTHING) ?v else Ret NOTHING ?v)"
    by (simp add: bind_def seq_def job onlyif_def skip_def ret_def)
  finally show ?thesis
    using k stop by (intro exI [of _ d] exI [of _ k']) (simp add: seq_def bind_def ret_def Let_def c_def g_def)
qed

text \<open>The event loop's own pipe ends it.\<close>

lemma interrupt_call:
  fixes s :: "('k, 'z) multi_world_scheme"
  assumes "byte_pipe avail K p" and "0 < avail (kst s) (fst p)" and "se_lookup (sel s) (fst p) = Some None"
  shows "\<exists>d k'. call_node (Suc n) K (multi_callbacks (Suc n) K U) (fst p) s =
    Ret STOP_LOOP (s\<lparr>errno := 0, kst := k', trace := ERead (fst p) d # ECall (fst p) # trace s\<rparr>)"
proof -
  let ?s = "s\<lparr>trace := ECall (fst p) # trace s\<rparr>"
  have "0 < avail (kst ?s) (fst p)" using assms(2) by simp
  from byte_read [OF assms(1) this] obtain d k' where "read_retry (Suc n) K (fst p) 1 ?s =
      Ret (Inr d) (?s\<lparr>errno := 0, kst := k', trace := ERead (fst p) d # trace ?s\<rparr>)"
    by blast
  moreover have "map_of (se_cbs (sel s)) (fst p) = Some None" using assms(3) by (simp add: se_lookup_def)
  ultimately show ?thesis
    by (intro exI [of _ d] exI [of _ k'])
       (simp add: call_node_def control_callback_def multi_callbacks_def note_event_def bind_def seq_def
         gets_def upd_def assertion_def skip_def ret_def del: read_retry.simps)
qed

subsection \<open>The rounds after the last process has ended\<close>

lemma wrote_multi [simp]:
  fixes s :: "('k, 'z) multi_world_scheme"
  shows "sel (wrote K fd d s) = sel s" "mu_control_pipe (wrote K fd d s) = mu_control_pipe s"
    "sigchld_pipe_signal (wrote K fd d s) = sigchld_pipe_signal s" "mu_loop (wrote K fd d s) = mu_loop s"
    "mu_register (wrote K fd d s) = mu_register s" "mu_type (wrote K fd d s) = mu_type s"
    "mu_registered (wrote K fd d s) = mu_registered s" "mu_active (wrote K fd d s) = mu_active s"
    "mu_stopping (wrote K fd d s) = mu_stopping s" "mu_buffer (wrote K fd d s) = mu_buffer s"
  using more_multi [OF wrote_more, of K fd d s] more_pexec [OF wrote_more, of K fd d s]
    more_sigchld [OF wrote_more, of K fd d s] by simp_all

lemma wrote_forks: "forks_of (trace (wrote K fd d s)) = forks_of (trace s)"
  using wrote_trace [of K fd d s] by auto

definition draining :: "('k \<Rightarrow> int \<Rightarrow> nat) \<Rightarrow> ('k, 'z) multi_world_scheme \<Rightarrow> bool" where
  "draining avail s \<longleftrightarrow>
     (let l = fst (se_control_pipe (sel s)); g = fst (sigchld_pipe_signal s); c = fst (mu_control_pipe s) in
      own_loop s \<and> mu_type s = DEFAULT \<and> mu_stopping s \<and> mu_active s = [] \<and>
      map_of (mu_registered s) = [g \<mapsto> RSignal, c \<mapsto> RControl] \<and>
      se_lookup (sel s) = [l \<mapsto> None, g \<mapsto> Some DoAction, c \<mapsto> Some DoAction] \<and> distinct [l, g, c] \<and>
      se_wf (sel s) \<and> se_recompute_max_fds (sel s) \<and> \<not> se_iterator_deleted (sel s) \<and>
      avail (kst s) l = 0 \<and> avail (kst s) g = 0 \<and> length (qb_buffer (mu_buffer s)) \<le> avail (kst s) c)"

lemma loop_fields [simp]:
  "se_lookup (e\<lparr>se_iterator := it\<rparr>) = se_lookup e" "se_lookup (e\<lparr>se_max_fd := m\<rparr>) = se_lookup e"
  "se_lookup (e\<lparr>se_iterator_deleted := b\<rparr>) = se_lookup e" "se_wf (e\<lparr>se_iterator := it\<rparr>) = se_wf e"
  "se_wf (e\<lparr>se_max_fd := m\<rparr>) = se_wf e" "se_wf (e\<lparr>se_iterator_deleted := b\<rparr>) = se_wf e"
  by (simp_all add: se_lookup_def se_wf_def fun_eq_iff)

lemma keys_split:
  assumes "se_wf e" and "dom (se_lookup e) = insert c A" and "c \<notin> A"
  obtains pre post where "map fst (se_cbs e) = pre @ c # post" "set pre \<union> set post = A"
    "length pre + length post = card A" "distinct (pre @ c # post)"
proof -
  have d: "distinct (map fst (se_cbs e))" and set: "set (map fst (se_cbs e)) = insert c A"
    using assms(1,2) by (simp_all add: se_wf_def se_lookup_dom)
  then have "c \<in> set (map fst (se_cbs e))" by blast
  then obtain pre post where pp: "map fst (se_cbs e) = pre @ c # post" by (meson split_list)
  with d set assms(3) have A: "set pre \<union> set post = A" by auto
  have "distinct (pre @ post)" using d pp by simp
  from distinct_card [OF this] A have "length pre + length post = card A" by simp
  with pp A d that show ?thesis by auto
qed

text \<open>The last round: only the event loop's own pipe is watched and has a byte.\<close>

lemma last_round:
  fixes s :: "('k, 'z) multi_world_scheme"
  assumes p: "byte_pipe avail K (se_control_pipe (sel s))" and sl: "select_reports avail K"
    and e: "se_wf (sel s)" "se_lookup (sel s) = [fst (se_control_pipe (sel s)) \<mapsto> None]"
      "se_recompute_max_fds (sel s)" "\<not> se_iterator_deleted (sel s)"
    and bytes: "0 < avail (kst s) (fst (se_control_pipe (sel s)))"
  shows "\<exists>t. loop_rounds (Suc (Suc n)) K (multi_callbacks (Suc (Suc n)) K U) (Suc m) s = Ret () t \<and>
    mu_stopping t = mu_stopping s \<and> mu_active t = mu_active s \<and> mu_registered t = mu_registered s \<and>
    forks_of (trace t) = forks_of (trace s)"
proof -
  let ?l = "fst (se_control_pipe (sel s))" and ?L = "multi_callbacks (Suc (Suc n)) K U"
  let ?ready = "{fd \<in> dom (se_lookup (sel s)). 0 < avail (kst s) fd}"
  have "?l \<in> dom (se_lookup (sel s))" using e(2) by simp
  from round_begins [OF sl e(3) this bytes, of "Suc n" ?L m] obtain k' top where
    k: "avail k' = avail (kst s)" and run: "loop_rounds (Suc (Suc n)) K ?L (Suc m) s =
      bind (dispatch (Suc (Suc n)) K ?L ?ready (Suc (Suc n)))
      (\<lambda>stop. if stop then skip else loop_rounds (Suc (Suc n)) K ?L m)
      (s\<lparr>kst := k', sel := (sel s)\<lparr>se_max_fd := top, se_iterator := first_node (se_cbs (sel s))\<rparr>\<rparr>)"
    (is "_ = bind _ _ ?s") by blast
  obtain pre post where pp: "map fst (se_cbs (sel s)) = pre @ ?l # post" "set pre \<union> set post = {}"
    "length pre + length post = card ({} :: int set)" "distinct (pre @ ?l # post)"
    using keys_split [OF e(1), of ?l "{}"] e(2) by auto
  let ?s1 = "?s\<lparr>sel := (sel ?s)\<lparr>se_iterator := Some ?l\<rparr>\<rparr>"
  have "0 < avail (kst ?s1) ?l" "se_lookup (sel ?s1) ?l = Some None" using bytes k e(2) by simp_all
  from interrupt_call [OF p this, of "Suc n" U] obtain d k'' where
    call: "call_node (Suc (Suc n)) K ?L ?l ?s1 =
      Ret STOP_LOOP (?s1\<lparr>errno := 0, kst := k'', trace := ERead ?l d # ECall ?l # trace ?s1\<rparr>)" (is "_ = Ret _ ?u")
    by blast
  have at: "iterator_at (sel ?s) [] (pre @ ?l # post)"
    using pp by (simp add: iterator_at_def first_node_head)
  have one: "(set pre \<union> set post) \<inter> ?ready = {}" "?l \<in> ?ready" using pp(2) bytes e(2) by auto
  have len: "Suc (length pre + length post) < Suc (Suc n)" using pp(3) by simp
  have nd: "\<not> se_iterator_deleted (sel ?s)" using e(4) by simp
  have "sel ?u = fold erase_event [] ((sel ?s)\<lparr>se_iterator := Some ?l\<rparr>)" by simp
  from dispatch_single [OF at nd one len call this]
  have "dispatch (Suc (Suc n)) K ?L ?ready (Suc (Suc n)) ?s = Ret True ?u" by simp
  then have "loop_rounds (Suc (Suc n)) K ?L (Suc m) s = Ret () ?u"
    unfolding run by (simp add: bind_def skip_def ret_def)
  then show ?thesis by simp
qed

text \<open>A round before that.\<close>

lemma drain:
  fixes s :: "('k, 'z) multi_world_scheme"
  assumes "draining avail s" and "None \<in> set (qb_buffer (mu_buffer s))" and "length (qb_buffer (mu_buffer s)) < m"
    and "byte_pipe avail K (mu_control_pipe s)" and "byte_pipe avail K (se_control_pipe (sel s))"
    and sl: "select_reports avail K"
  shows "\<exists>t. loop_rounds (Suc (Suc (Suc (Suc n)))) K (multi_callbacks (Suc (Suc (Suc (Suc n)))) K U) m s = Ret () t \<and>
    \<not> mu_stopping t \<and> mu_active t = [] \<and> map_of (mu_registered t) = Map.empty \<and>
    forks_of (trace t) = forks_of (trace s)"
  using assms(1-5)
proof (induction m arbitrary: s)
  case 0
  then show ?case by simp
next
  case (Suc m)
  let ?N = "Suc (Suc (Suc (Suc n)))"
  let ?L = "multi_callbacks ?N K U"
  define l where "l = fst (se_control_pipe (sel s))"
  define g where "g = fst (sigchld_pipe_signal s)"
  define c where "c = fst (mu_control_pipe s)"
  have d: "own_loop s" "mu_type s = DEFAULT" "mu_stopping s" "mu_active s = []"
    "map_of (mu_registered s) = [g \<mapsto> RSignal, c \<mapsto> RControl]"
    "se_lookup (sel s) = [l \<mapsto> None, g \<mapsto> Some DoAction, c \<mapsto> Some DoAction]" "distinct [l, g, c]"
    "se_wf (sel s)" "se_recompute_max_fds (sel s)" "\<not> se_iterator_deleted (sel s)"
    "avail (kst s) l = 0" "avail (kst s) g = 0" "length (qb_buffer (mu_buffer s)) \<le> avail (kst s) c"
    using Suc.prems(1) unfolding draining_def Let_def l_def g_def c_def by blast+
  obtain job rest where q: "qb_buffer (mu_buffer s) = job # rest"
    using Suc.prems(2) by (cases "qb_buffer (mu_buffer s)") auto
  have bytes: "0 < avail (kst s) c" using d(13) q by auto
  let ?ready = "{fd \<in> dom (se_lookup (sel s)). 0 < avail (kst s) fd}"
  have "c \<in> dom (se_lookup (sel s))" using d(6) by simp
  from round_begins [OF sl d(9) this bytes, of "Suc (Suc (Suc n))" ?L m] obtain k' top where
    k: "avail k' = avail (kst s)" and run: "loop_rounds ?N K ?L (Suc m) s =
      bind (dispatch ?N K ?L ?ready ?N) (\<lambda>stop. if stop then skip else loop_rounds ?N K ?L m)
      (s\<lparr>kst := k', sel := (sel s)\<lparr>se_max_fd := top, se_iterator := first_node (se_cbs (sel s))\<rparr>\<rparr>)"
    (is "_ = bind _ _ ?s") by blast
  have dom: "dom (se_lookup (sel s)) = insert c {l, g}" "c \<notin> {l, g}" using d(6,7) by auto
  obtain pre post where pp: "map fst (se_cbs (sel s)) = pre @ c # post" "set pre \<union> set post = {l, g}"
    "length pre + length post = card {l, g}" "distinct (pre @ c # post)"
    by (rule keys_split [OF d(8) dom])
  let ?s1 = "?s\<lparr>sel := (sel ?s)\<lparr>se_iterator := Some c\<rparr>\<rparr>"
  have cg: "c = fst (mu_control_pipe ?s1)" "g = fst (sigchld_pipe_signal ?s1)" by (simp_all add: c_def g_def)
  obtain d' k'' where k1: "avail k'' = (avail (kst ?s1))(c := avail (kst ?s1) c - 1)"
    and call: "call_node ?N K ?L c ?s1 =
      (let u = ?s1\<lparr>errno := 0, kst := k'', trace := ERead c d' # ECall c # trace ?s1,
             mu_buffer := (mu_buffer ?s1)\<lparr>qb_buffer := rest\<rparr>\<rparr> in
       Ret NOTHING (if job \<noteq> None then u
         else wrote K (interrupt_write_fd (sel ?s1)) [NUL]
           (u\<lparr>mu_registered := AList.delete c (AList.delete g (mu_registered ?s1)),
              sel := erase_event c (erase_event g (sel ?s1)), mu_stop_flag := STOP_WAIT, mu_stop_signum := -1,
              mu_stopping := False\<rparr>)))"
  proof -
    have "own_loop ?s1" "mu_type ?s1 = DEFAULT" "g \<noteq> c" "se_lookup (sel ?s1) g \<noteq> None"
      "se_lookup (sel ?s1) c = Some (Some DoAction)"
      "map_of (mu_registered ?s1) c = Some RControl" "mu_stopping ?s1" "mu_active ?s1 = []"
      "qb_buffer (mu_buffer ?s1) = job # rest" "byte_pipe avail K (mu_control_pipe ?s1)" "0 < avail (kst ?s1) c"
      using d q bytes k Suc.prems(4) by (auto simp: own_loop_def)
    from control_call [OF cg this, of "Suc (Suc (Suc n))" U] that show ?thesis by blast
  qed
  have k'': "avail k'' = (avail (kst s))(c := avail (kst s) c - 1)" using k1 k by simp
  let ?u = "?s1\<lparr>errno := 0, kst := k'', trace := ERead c d' # ECall c # trace s,
     mu_buffer := (mu_buffer s)\<lparr>qb_buffer := rest\<rparr>\<rparr>"
  have at: "iterator_at (sel ?s) [] (pre @ c # post)" using pp by (simp add: iterator_at_def first_node_head)
  have one: "(set pre \<union> set post) \<inter> ?ready = {}" "c \<in> ?ready" using pp(2) bytes d(6,11,12) by auto
  have len: "Suc (length pre + length post) < ?N" using pp(3) card_insert_le_m1 [of 2 "{g}" l] by (simp add: card_insert_if)
  have nd: "\<not> se_iterator_deleted (sel ?s)" using d(10) by simp
  show ?case
  proof (cases "job = None")
    case False
    with call have now: "call_node ?N K ?L c ?s1 = Ret NOTHING ?u" by (simp add: Let_def)
    have "sel ?u = fold erase_event [] ((sel ?s)\<lparr>se_iterator := Some c\<rparr>)" by simp
    from dispatch_single [OF at nd one len now this, unfolded if_P [OF refl]] obtain it where
      "dispatch ?N K ?L ?ready ?N ?s = Ret False (?u\<lparr>sel := (sel ?u)\<lparr>se_iterator := it, se_iterator_deleted := False\<rparr>\<rparr>)"
      (is "_ = Ret False ?v") by blast
    then have "loop_rounds ?N K ?L (Suc m) s = loop_rounds ?N K ?L m ?v"
      unfolding run by (simp add: bind_def)
    moreover have "draining avail ?v"
      using d q k'' unfolding draining_def Let_def by (auto simp: own_loop_def simp flip: l_def g_def c_def)
    then have "\<exists>t. loop_rounds ?N K ?L m ?v = Ret () t \<and> \<not> mu_stopping t \<and> mu_active t = [] \<and>
        map_of (mu_registered t) = Map.empty \<and> forks_of (trace t) = forks_of (trace ?v)"
      using Suc.prems q False by (intro Suc.IH) auto
    ultimately show ?thesis by simp
  next
    case True
    let ?w = "wrote K (interrupt_write_fd (sel s)) [NUL]
       (?u\<lparr>mu_registered := AList.delete c (AList.delete g (mu_registered s)),
          sel := erase_event c (erase_event g (sel ?s1)), mu_stop_flag := STOP_WAIT, mu_stop_signum := -1,
          mu_stopping := False\<rparr>)"
    from True call have now: "call_node ?N K ?L c ?s1 = Ret NOTHING ?w"
      by (simp add: Let_def interrupt_write_fd_def)
    have "sel ?w = fold erase_event [g, c] ((sel ?s)\<lparr>se_iterator := Some c\<rparr>)" by simp
    from dispatch_single [OF at nd one len now this, unfolded if_P [OF refl]] obtain it where
      "dispatch ?N K ?L ?ready ?N ?s = Ret False (?w\<lparr>sel := (sel ?w)\<lparr>se_iterator := it, se_iterator_deleted := False\<rparr>\<rparr>)"
      (is "_ = Ret False ?v") by blast
    then have "loop_rounds ?N K ?L (Suc m) s = loop_rounds ?N K ?L m ?v"
      unfolding run by (simp add: bind_def)
    moreover obtain m' where "m = Suc m'" using Suc.prems(3) q by (cases m) auto
    moreover have "se_control_pipe (sel ?v) = se_control_pipe (sel s)" by (simp add: erase_event_control)
    moreover have "se_wf (sel ?v)" using d(8) by (simp add: se.wf_del)
    moreover have "se_lookup (sel ?v) = [l \<mapsto> None]" using d(6,7) by (auto simp: erase_event_lookup fun_eq_iff)
    moreover have "se_recompute_max_fds (sel ?v)" by (simp add: erase_event_def Let_def)
    moreover have "0 < avail (kst ?v) l"
      by (simp add: interrupt_write_fd_def l_def byte_wrote [OF Suc.prems(5)])
    ultimately have "\<exists>t. loop_rounds ?N K ?L (Suc m) s = Ret () t \<and>
        mu_stopping t = mu_stopping ?v \<and> mu_active t = mu_active ?v \<and> mu_registered t = mu_registered ?v \<and>
        forks_of (trace t) = forks_of (trace ?v)"
      using last_round [of avail K ?v "Suc (Suc n)" U m'] sl Suc.prems(5) by (simp flip: l_def)
    moreover have "map_of (AList.delete c (AList.delete g (mu_registered s))) = Map.empty"
      using d(5) by (auto simp: delete_conv' fun_eq_iff)
    ultimately show ?thesis using d(4) by (simp add: wrote_forks)
  qed
qed

subsection \<open>The end of the last process\<close>

definition last_to_end ::
  "('k \<Rightarrow> int \<Rightarrow> nat) \<Rightarrow> nat \<Rightarrow> int \<Rightarrow> ('k, 'z) multi_world_scheme \<Rightarrow> bool" where
  "last_to_end avail h pid s \<longleftrightarrow>
     (let l = fst (se_control_pipe (sel s)); g = fst (sigchld_pipe_signal s); c = fst (mu_control_pipe s);
          ws = watched_fds (mh_fds (mu_handles s h)) in
      own_loop s \<and> mu_type s = DEFAULT \<and> mu_stopping s \<and> mu_active s = [(pid, h)] \<and>
      distinct ([l, g, c] @ ws) \<and>
      map_of (mu_registered s) =
        [g \<mapsto> RSignal, c \<mapsto> RControl] ++ map_of (zip ws [RClose h, RStdout h, RStderr h]) \<and>
      se_lookup (sel s) =
        [l \<mapsto> None, g \<mapsto> Some DoAction, c \<mapsto> Some DoAction] ++ map_of (map (\<lambda>w. (w, Some DoAction)) ws) \<and>
      se_wf (sel s) \<and> \<not> se_iterator_deleted (sel s) \<and> (\<forall>w \<in> set ws. se_iterator (sel s) \<noteq> Some w) \<and>
      avail (kst s) l = 0 \<and> avail (kst s) g = 0 \<and>
      length (qb_buffer (mu_buffer s)) \<le> avail (kst s) c \<and>
      length (qb_buffer (mu_buffer s)) < qb_size (mu_buffer s))"

lemma erase_others:
  "\<forall>fd \<in> set fds. se_iterator e \<noteq> Some fd \<Longrightarrow>
   se_iterator_deleted (fold erase_event fds e) = se_iterator_deleted e"
proof (induction fds arbitrary: e)
  case (Cons fd fds)
  then have "se_iterator (erase_event fd e) = se_iterator e \<and>
      se_iterator_deleted (erase_event fd e) = se_iterator_deleted e"
    by (simp add: erase_event_def Let_def)
  with Cons show ?case by simp
qed simp

lemma last_stopped:
  fixes s :: "('k, 'z) multi_world_scheme"
  assumes "last_to_end avail h pid s" and "byte_pipe avail K (mu_control_pipe s)"
  shows "\<exists>u. proc_stopped K U h pid s = Ret () u \<and> draining avail u \<and>
    qb_buffer (mu_buffer u) = qb_buffer (mu_buffer s) @ [None] \<and> mu_control_pipe u = mu_control_pipe s \<and>
    se_control_pipe (sel u) = se_control_pipe (sel s) \<and> forks_of (trace u) = forks_of (trace s)"
proof -
  define l where "l = fst (se_control_pipe (sel s))"
  define g where "g = fst (sigchld_pipe_signal s)"
  define c where "c = fst (mu_control_pipe s)"
  define ws where "ws = watched_fds (mh_fds (mu_handles s h))"
  have a: "own_loop s" "mu_type s = DEFAULT" "mu_stopping s" "mu_active s = [(pid, h)]"
    "distinct ([l, g, c] @ ws)"
    "map_of (mu_registered s) =
      [g \<mapsto> RSignal, c \<mapsto> RControl] ++ map_of (zip ws [RClose h, RStdout h, RStderr h])"
    "se_lookup (sel s) =
      [l \<mapsto> None, g \<mapsto> Some DoAction, c \<mapsto> Some DoAction] ++ map_of (map (\<lambda>w. (w, Some DoAction)) ws)"
    "se_wf (sel s)" "\<not> se_iterator_deleted (sel s)" "\<forall>w \<in> set ws. se_iterator (sel s) \<noteq> Some w"
    "avail (kst s) l = 0" "avail (kst s) g = 0" "length (qb_buffer (mu_buffer s)) \<le> avail (kst s) c"
    "length (qb_buffer (mu_buffer s)) < qb_size (mu_buffer s)"
    using assms(1) unfolding last_to_end_def Let_def l_def g_def c_def ws_def by blast+
  obtain x y z where ws: "ws = [x, y, z]" by (simp add: ws_def watched_fds_def)
  let ?e = "fold erase_event ws (sel s)"
  let ?v = "s\<lparr>mu_registered := fold AList.delete ws (mu_registered s), sel := ?e, mu_active := []\<rparr>"
  let ?q = "?v\<lparr>mu_buffer := (mu_buffer s)\<lparr>qb_buffer := qb_buffer (mu_buffer s) @ [None]\<rparr>\<rparr>"
  let ?u = "wrote K (snd (mu_control_pipe s)) [NUL] ?q"
  have alive: "alive h s" using a(4) by (simp add: alive_def)
  have "distinct ws" "\<forall>fd \<in> set ws. se_lookup (sel s) fd \<noteq> None"
    using a(5,7) ws by (simp_all add: map_add_def)
  then have run: "proc_stopped K U h pid s = onlyif (mu_stopping s \<and> AList.delete pid (mu_active s) = [])
      (send_job_nullptr_stop K) (s\<lparr>mu_registered := fold AList.delete ws (mu_registered s),
         sel := ?e, mu_active := AList.delete pid (mu_active s)\<rparr>)"
    unfolding ws_def by (intro proc_stopped_run a alive)
  have "AList.delete pid (mu_active s) = []" using a(4) by simp
  then have stop: "proc_stopped K U h pid s = Ret () ?u"
    using run send_job_eval [of ?v K None] a(3,14) by (simp add: send_job_nullptr_stop_def onlyif_def)
  have lk: "se_lookup ?e = [l \<mapsto> None, g \<mapsto> Some DoAction, c \<mapsto> Some DoAction]" "se_wf ?e"
    using se.del_all [OF a(8), of ws] a(5,7) ws
    by (auto simp: restrict_map_def fun_eq_iff map_add_def)
  have reg: "map_of (fold AList.delete ws (mu_registered s)) = [g \<mapsto> RSignal, c \<mapsto> RControl]"
    using rg.del_all [where r = "mu_registered s" and fds = ws] a(5,6) ws
    by (auto simp: restrict_map_def fun_eq_iff map_add_def)
  have e: "se_control_pipe ?e = se_control_pipe (sel s)" "se_recompute_max_fds ?e"
    by (simp_all add: ws erase_event_def Let_def)
  have nd: "\<not> se_iterator_deleted ?e" using erase_others [OF a(10)] a(9) by simp
  have av: "avail (kst ?u) = (avail (kst s))(c := Suc (avail (kst s) c))"
    using byte_wrote [OF assms(2), of ?q] by (simp add: c_def)
  have "draining avail ?u"
    unfolding draining_def Let_def av
    using a(1-3,5,11-13) lk reg e nd
    by (simp add: own_loop_def flip: l_def g_def c_def)
  with stop e show ?thesis by (intro exI [of _ ?u]) (simp add: wrote_forks)
qed

subsection \<open>Properties\<close>

text \<open>
  Property C11. A stop comes to its end. Say the manager, with its own loop, is stopping and its last
  active process ends (\<open>last_to_end\<close>: the descriptors watched are those of the manager, the event loop and
  the process, on whose descriptors the iterator does not stand, every queued job has its
  byte in the control pipe, the queue has room, and the signal pipe and the loop's own pipe are
  empty), and the pipes and \<open>select\<close> do what they should. Then the callback for the end of the
  process returns, and the next rounds of the event loop (the rest of the round under way is
  left out) take one byte and one job after the other, whatever jobs users have queued, and return: no
  program was started, the manager is not stopping any more, and nothing is active or
  registered. One round for each job and two more are enough, and a bound of 4 inside a round.
\<close>

theorem stop_ends_loop:
  assumes "last_to_end avail h pid s" and "byte_pipe avail K (mu_control_pipe s)"
    and "byte_pipe avail K (se_control_pipe (sel s))" and "select_reports avail K"
    and "4 \<le> N" and "length (qb_buffer (mu_buffer s)) + 2 \<le> m"
  shows "\<exists>u t. proc_stopped K U h pid s = Ret () u \<and>
     loop_rounds N K (multi_callbacks N K U) m u = Ret () t \<and>
     \<not> mu_stopping t \<and> mu_active t = [] \<and> mu_registered t = [] \<and> forks_of (trace t) = forks_of (trace s)"
proof -
  from last_stopped [OF assms(1,2)] obtain u where u: "proc_stopped K U h pid s = Ret () u" "draining avail u"
    "qb_buffer (mu_buffer u) = qb_buffer (mu_buffer s) @ [None]" "mu_control_pipe u = mu_control_pipe s"
    "se_control_pipe (sel u) = se_control_pipe (sel s)" "forks_of (trace u) = forks_of (trace s)" by blast
  obtain n where "N = 4 + n" using le_Suc_ex [OF assms(5)] by blast
  then have N: "N = Suc (Suc (Suc (Suc n)))" by simp
  have "\<exists>t. loop_rounds N K (multi_callbacks N K U) m u = Ret () t \<and> \<not> mu_stopping t \<and> mu_active t = [] \<and>
      map_of (mu_registered t) = Map.empty \<and> forks_of (trace t) = forks_of (trace u)"
    unfolding N by (rule drain) (use u assms in simp_all)
  moreover have "map_of xs = Map.empty \<Longrightarrow> xs = []" for xs :: "(int \<times> reg_cb) list"
    by (metis map_of_eq_empty_iff)
  ultimately show ?thesis using u by auto
qed

text \<open>
  The witness: kernel states are the bytes in the pipes, whose write ends are the numbers after the
  read ends; a stop job and a program are in the queue.
\<close>

definition byte_platform :: "(int \<Rightarrow> nat) platform" where
  "byte_platform =
     \<lparr>k_read = (\<lambda>fd n k. if 0 < k fd then (Inr [NUL], k(fd := k fd - 1)) else (Inl EAGAIN, k)),
      k_write = (\<lambda>fd d k. (Inr 1, k(fd - 1 := Suc (k (fd - 1))))),
      k_pipe = (\<lambda>k. (Inl 24, k)), k_pipe2 = (\<lambda>flags k. (Inl 24, k)), k_close = (\<lambda>fd k. (Inr (), k)),
      k_select = (\<lambda>n fds k. (Inr {fd \<in> fds. fd < n \<and> 0 < k fd}, k)),
      k_fork = (\<lambda>k. (Inl 12, k)), k_waitpid = (\<lambda>pid k. (Inl ECHILD, k)),
      k_sigaction = (\<lambda>h k. (Inl 22, k)), k_sigprocmask = (\<lambda>how sigs k. (Inr (), k)),
      k_kill = (\<lambda>pid sig k. (Inr (), k)), k_getfl = (\<lambda>fd k. (Inr 0, k)), k_setfl = (\<lambda>fd fl k. (Inr (), k)),
      k_dup2 = (\<lambda>a b k. (Inr b, k)), k_execvp = (\<lambda>args k. (Inl 2, k)), map_place = (\<lambda>ks k. 0)\<rparr>"

definition byte_world :: "(int \<Rightarrow> nat) multi_world" where
  "byte_world =
     \<lparr>kst = (\<lambda>fd. if fd = 3 then 2 else 0), errno = 0, trace = [], sigchld_blocking_pipe_signal = (-1, -1),
      sel = init_select_event\<lparr>se_control_pipe := (5, 6), se_iterator := Some 7,
        se_cbs := [(5, None), (7, Some DoAction), (3, Some DoAction), (15, Some DoAction),
          (11, Some DoAction), (13, Some DoAction)]\<rparr>,
      sigchld_sa_prev = SIG_DFL, sigchld_pipe_signal = (7, 8), sigchld_active = True, sh_err = NO_ERROR,
      sh_signal_set = {SIGCHLD}, objs = (\<lambda>_. init_pexec 8), mu_handles = (\<lambda>_. demo_busy_handle),
      mu_control_pipe = (3, 4), mu_type = DEFAULT, mu_sigchld = WiredSigchld, mu_loop = True,
      mu_buffer = empty_queue\<lparr>qb_buffer := [Some (Stop STOP_KILL 9), Some (Spawn 1)]\<rparr>,
      mu_active = [(42, 0)], mu_err = NO_ERROR,
      mu_registered = [(7, RSignal), (3, RControl), (15, RClose 0), (11, RStdout 0), (13, RStderr 0)],
      mu_register = LoopRegister, mu_stop_flag = STOP_WAIT, mu_stop_signum = -1, mu_stopping = True\<rparr>"

theorem stop_ends_loop_witness:
  "\<exists>u t. proc_stopped byte_platform silent_user 0 42 byte_world = Ret () u \<and>
     loop_rounds 4 byte_platform (multi_callbacks 4 byte_platform silent_user) 4 u = Ret () t \<and>
     \<not> mu_stopping t \<and> mu_registered t = [] \<and> forks_of (trace t) = []"
proof -
  let ?avail = "\<lambda>k :: int \<Rightarrow> nat. k"
  have "last_to_end ?avail 0 42 byte_world"
    by (auto simp: last_to_end_def byte_world_def own_loop_def watched_fds_def demo_busy_handle_def
        init_select_event_def se_lookup_def se_wf_def empty_queue_def ULONG_MAX_def fun_eq_iff map_add_def)
  moreover have "byte_pipe ?avail byte_platform (mu_control_pipe byte_world)"
    "byte_pipe ?avail byte_platform (se_control_pipe (sel byte_world))"
    by (auto simp: byte_pipe_def byte_platform_def byte_world_def)
  moreover have "select_reports ?avail byte_platform"
    by (auto simp: select_reports_def byte_platform_def)
  moreover have "length (qb_buffer (mu_buffer byte_world)) + 2 \<le> 4" "trace byte_world = []"
    by (simp_all add: byte_world_def)
  ultimately show ?thesis
    using stop_ends_loop [of ?avail 0 42 byte_world byte_platform 4 4 silent_user] by auto
qed

end
