(* ===== verification/Multi_Books.thy ===== *)
theory Multi_Books
  imports Multi_Jobs Pexec_Pipes
begin

section \<open>The books of the process manager\<close>

text \<open>
  While its loop runs, \<open>pexec_multi\<close> keeps several collections that have to agree: the active
  processes, the functions in \<open>registered_fd_\<close>, the map of the event loop, the descriptors in
  the pipes of the objects, the jobs in the queue. \<open>books\<close> says how, and which descriptors
  are open and which handlers were installed. The theory states this invariant, a
  calculus of triples that carries it through the operations, and the relation \<open>calm\<close>
  of steps that leave the books alone, which is also what the callbacks of the user have to keep
  (locale \<open>multi_client\<close>).
\<close>

subsection \<open>Children in a trace\<close>

definition terminal_status :: "32 word \<Rightarrow> bool" where
  "terminal_status st \<longleftrightarrow> WIFSIGNALED st \<or> WIFEXITED st"

text \<open>The children that were started and have not been waited for.\<close>

fun live_pids :: "event list \<Rightarrow> int set" where
  "live_pids [] = {}"
| "live_pids (e # t) =
     (case e of
        EFork pid \<Rightarrow> (if 0 < pid then insert pid (live_pids t) else live_pids t)
      | EWait pid st \<Rightarrow> (if terminal_status st then live_pids t - {pid} else live_pids t)
      | _ \<Rightarrow> live_pids t)"

text \<open>Documented behaviour of \<open>fork\<close>: the number of a child that exists is not given again.\<close>

fun fresh_pids :: "event list \<Rightarrow> bool" where
  "fresh_pids [] = True"
| "fresh_pids (e # t) =
     ((case e of EFork pid \<Rightarrow> 0 < pid \<longrightarrow> pid \<notin> live_pids t | _ \<Rightarrow> True) \<and> fresh_pids t)"

definition sane :: "event list \<Rightarrow> bool" where
  "sane tr \<longleftrightarrow> fresh_pipes tr \<and> fresh_pids tr"

lemma fresh_pids_append: "fresh_pids (es @ t) \<Longrightarrow> fresh_pids t"
  by (induction es) auto

lemma sane_append: "sane (es @ t) \<Longrightarrow> sane t"
  using fresh_pipes_append fresh_pids_append by (auto simp: sane_def)

lemma sane_Cons: "sane (e # t) \<Longrightarrow> sane t"
  using sane_append [of "[e]" t] by simp

text \<open>Events that do not concern descriptors, children and handlers.\<close>

definition calm_event :: "event \<Rightarrow> bool" where
  "calm_event e \<longleftrightarrow>
     (case e of EPipe a b \<Rightarrow> False | EClose fd \<Rightarrow> False | EFork pid \<Rightarrow> False
      | EWait p st \<Rightarrow> False | ESigaction h \<Rightarrow> False | _ \<Rightarrow> True)"

lemma calm_events [simp]:
  "calm_event (ERead fd d)" "calm_event (EWrite fd d)" "calm_event (EKill p sig)"
  "calm_event (EMask how)" "calm_event (ECall fd)" "calm_event (EState st q)"
  "calm_event (EError er)" "calm_event (EOut d)" "calm_event (EErr d)"
  by (simp_all add: calm_event_def)

lemma calm_projections:
  "\<forall>e \<in> set es. calm_event e \<Longrightarrow>
     open_fds (es @ t) = open_fds t \<and> closes_own (es @ t) = closes_own t \<and>
     handlers_of es = [] \<and> live_pids (es @ t) = live_pids t"
  by (induction es) (auto simp: calm_event_def split: event.splits)

subsection \<open>Triples\<close>

text \<open>
  \<open>triple P m Q\<close>: from a state with \<open>P\<close>, if \<open>m\<close> returns and the whole trace is one a real
  kernel can give, then \<open>Q\<close> holds; and the trace has only grown, so it was sane before.
\<close>

definition triple ::
  "(('k, 'z) world_scheme \<Rightarrow> bool) \<Rightarrow> (('k, 'z) world_scheme, 'a) prog \<Rightarrow>
   ('a \<Rightarrow> ('k, 'z) world_scheme \<Rightarrow> bool) \<Rightarrow> bool" where
  "triple P m Q \<longleftrightarrow>
     (\<forall>s r t. m s = Ret r t \<longrightarrow> extends s t \<and> (sane (trace t) \<longrightarrow> P s \<longrightarrow> Q r t))"

lemma extends_sane: "extends s t \<Longrightarrow> sane (trace t) \<Longrightarrow> sane (trace s)"
  by (auto simp: extends_def intro: sane_append)

lemma tripleI:
  "(\<And>s r t. m s = Ret r t \<Longrightarrow> extends s t) \<Longrightarrow>
   (\<And>s r t. P s \<Longrightarrow> m s = Ret r t \<Longrightarrow> sane (trace t) \<Longrightarrow> Q r t) \<Longrightarrow> triple P m Q"
  by (simp add: triple_def)

lemma tripleD: "triple P m Q \<Longrightarrow> P s \<Longrightarrow> m s = Ret r t \<Longrightarrow> sane (trace t) \<Longrightarrow> Q r t"
  by (simp add: triple_def)

lemma triple_extends: "triple P m Q \<Longrightarrow> m s = Ret r t \<Longrightarrow> extends s t"
  by (simp add: triple_def)

lemma triple_weaken:
  "triple P' m Q' \<Longrightarrow> (\<And>s. P s \<Longrightarrow> P' s) \<Longrightarrow> (\<And>r t. Q' r t \<Longrightarrow> Q r t) \<Longrightarrow> triple P m Q"
  by (simp add: triple_def)

lemma triple_pre: "triple P' m Q \<Longrightarrow> (\<And>s. P s \<Longrightarrow> P' s) \<Longrightarrow> triple P m Q"
  by (rule triple_weaken)

lemma triple_post: "triple P m Q' \<Longrightarrow> (\<And>r t. Q' r t \<Longrightarrow> Q r t) \<Longrightarrow> triple P m Q"
  by (rule triple_weaken)

lemma triple_ret: "(\<And>s. P s \<Longrightarrow> Q a s) \<Longrightarrow> triple P (ret a) Q"
  by (auto simp: triple_def ret_iffs ex.R_refl)

lemma triple_skip: "(\<And>s. P s \<Longrightarrow> Q () s) \<Longrightarrow> triple P skip Q"
  by (auto simp: triple_def ret_iffs ex.R_refl)

lemma triple_upd: "(\<And>s. trace (f s) = trace s) \<Longrightarrow> (\<And>s. P s \<Longrightarrow> Q () (f s)) \<Longrightarrow> triple P (upd f) Q"
  by (auto simp: triple_def ret_iffs extends_def)

lemma triple_stuck: "triple P spin Q" "triple P (finish e) Q"
  by (simp_all add: triple_def ret_iffs)

lemma triple_assertion: "(\<And>s. b \<Longrightarrow> P s \<Longrightarrow> Q () s) \<Longrightarrow> triple P (assertion b) Q"
  by (auto simp: triple_def ret_iffs ex.R_refl)

lemma triple_bind:
  assumes "triple P m M" and "\<And>a. triple (M a) (f a) Q"
  shows "triple P (bind m f) Q"
  unfolding triple_def
proof (intro allI impI)
  fix s r t
  assume "bind m f s = Ret r t"
  then obtain a u where u: "m s = Ret a u" "f a u = Ret r t" by (auto simp: ret_iffs)
  from triple_extends [OF assms(1) u(1)] triple_extends [OF assms(2) u(2)]
  have "extends s t" by (rule ex.R_trans)
  moreover have "Q r t" if "sane (trace t)" "P s"
  proof (rule tripleD [OF assms(2) _ u(2) that(1)])
    have "sane (trace u)" by (rule extends_sane [OF triple_extends [OF assms(2) u(2)] that(1)])
    then show "M a u" by (rule tripleD [OF assms(1) that(2) u(1)])
  qed
  ultimately show "extends s t \<and> (sane (trace t) \<longrightarrow> P s \<longrightarrow> Q r t)" by blast
qed

lemma triple_seq: "triple P m (\<lambda>_. M) \<Longrightarrow> triple M k Q \<Longrightarrow> triple P (seq m k) Q"
  unfolding seq_def by (rule triple_bind)

lemma triple_gets: "(\<And>v. triple (\<lambda>s. P s \<and> f s = v) (k v) Q) \<Longrightarrow> triple P (bind (gets f) k) Q"
  unfolding triple_def ret_iffs by blast

lemma triple_Nil: "(\<And>s. P s \<Longrightarrow> Q () s) \<Longrightarrow> triple P (block []) Q"
  by (simp add: triple_skip)

lemma triple_Cons: "triple P m (\<lambda>_. M) \<Longrightarrow> triple M (block ms) Q \<Longrightarrow> triple P (block (m # ms)) Q"
  by (simp add: triple_seq)

lemma triple_if: "(b \<Longrightarrow> triple P m Q) \<Longrightarrow> (\<not> b \<Longrightarrow> triple P k Q) \<Longrightarrow> triple P (if b then m else k) Q"
  by simp

lemma triple_onlyif:
  "(b \<Longrightarrow> triple P m Q) \<Longrightarrow> (\<And>s. \<not> b \<Longrightarrow> P s \<Longrightarrow> Q () s) \<Longrightarrow> triple P (onlyif b m) Q"
  by (simp add: onlyif_def triple_skip)

lemma triple_option:
  "(x = None \<Longrightarrow> triple P m Q) \<Longrightarrow> (\<And>y. x = Some y \<Longrightarrow> triple P (k y) Q) \<Longrightarrow>
   triple P (case x of None \<Rightarrow> m | Some y \<Rightarrow> k y) Q"
  by (cases x) auto

lemma triple_sum:
  "(\<And>a. x = Inl a \<Longrightarrow> triple P (m a) Q) \<Longrightarrow> (\<And>b. x = Inr b \<Longrightarrow> triple P (k b) Q) \<Longrightarrow>
   triple P (case x of Inl a \<Rightarrow> m a | Inr b \<Rightarrow> k b) Q"
  by (cases x) auto

lemma triple_prod:
  "(\<And>a b. x = (a, b) \<Longrightarrow> triple P (m a b) Q) \<Longrightarrow> triple P (case x of (a, b) \<Rightarrow> m a b) Q"
  by (cases x) auto

lemma triple_frame: "triple P m Q \<Longrightarrow> triple (\<lambda>s. P s \<and> a) m (\<lambda>r s. Q r s \<and> a)"
  by (auto simp: triple_def)

lemma triple_value: "(\<And>v. triple (\<lambda>s. P s \<and> f s = v) m Q) \<Longrightarrow> triple P m Q"
  unfolding triple_def by blast

subsection \<open>A partition of the open descriptors\<close>

text \<open>Pipes under names of any type; each open descriptor is in one of them or in \<open>B\<close>.\<close>

definition parts :: "int set \<Rightarrow> ('i \<Rightarrow> int \<times> int) \<Rightarrow> event list \<Rightarrow> bool" where
  "parts B p tr \<longleftrightarrow>
     open_fds tr = B \<union> (\<Union>i. fds_of (p i)) \<and> B \<inter> (\<Union>i. fds_of (p i)) = {} \<and>
     (\<forall>i j. i \<noteq> j \<longrightarrow> fds_of (p i) \<inter> fds_of (p j) = {}) \<and>
     (\<forall>i. 0 \<le> fst (p i) \<longrightarrow> fst (p i) \<noteq> snd (p i)) \<and> closes_own tr"

lemma parts_disjoint: "parts B p tr \<Longrightarrow> i \<noteq> j \<Longrightarrow> fds_of (p i) \<inter> fds_of (p j) = {}"
  unfolding parts_def by blast

lemma parts_calm:
  "parts B p tr \<Longrightarrow> \<forall>e \<in> set es. calm_event e \<Longrightarrow> parts B p (es @ tr)"
  using calm_projections [of es tr] by (simp add: parts_def)

lemma Union_update: "(\<Union>j. fds_of ((p(i := q)) j)) = fds_of q \<union> (\<Union>j \<in> - {i}. fds_of (p j))"
  by (auto split: if_splits)

lemma Union_split: "(\<Union>j. fds_of (p j)) = fds_of (p i) \<union> (\<Union>j \<in> - {i}. fds_of (p j))"
  by auto

lemma parts_open:
  assumes p: "parts B p tr" and "fds_of (p i) = {}"
    and fresh: "0 \<le> a" "0 \<le> b" "a \<noteq> b" "a \<notin> open_fds tr" "b \<notin> open_fds tr"
  shows "parts B (p(i := (a, b))) (EPipe a b # tr)"
proof -
  have ab: "fds_of (a, b) = {a, b}" using fresh by (auto simp: fds_of_def)
  have sub: "fds_of (p j) \<subseteq> open_fds tr" for j using p by (auto simp: parts_def)
  have B: "B \<subseteq> open_fds tr" using p by (auto simp: parts_def)
  have "fds_of ((p(i := (a, b))) j) \<inter> fds_of ((p(i := (a, b))) k) = {}" if "j \<noteq> k" for j k
    using that parts_disjoint [OF p that] sub [of j] sub [of k] fresh ab by auto
  moreover have "open_fds (EPipe a b # tr) = B \<union> (\<Union>j. fds_of ((p(i := (a, b))) j))"
    using p assms(2) unfolding Union_update ab parts_def Union_split [of p i] by auto
  moreover have "B \<inter> (\<Union>j. fds_of ((p(i := (a, b))) j)) = {}"
    using p assms(2) fresh B unfolding Union_update ab parts_def Union_split [of p i] by auto
  ultimately show ?thesis using p fresh by (simp add: parts_def)
qed

lemma parts_close:
  assumes p: "parts B p tr"
  shows "parts B (p(i := (closed_fd (fst (p i)), closed_fd (snd (p i))))) (close_events (p i) @ tr)"
proof -
  let ?p = "p(i := (closed_fd (fst (p i)), closed_fd (snd (p i))))"
  have own: "fds_of (p i) \<subseteq> open_fds tr" "0 \<le> fst (p i) \<longrightarrow> fst (p i) \<noteq> snd (p i)" "closes_own tr"
    using p by (auto simp: parts_def)
  have others: "fds_of (p i) \<inter> (\<Union>j \<in> - {i}. fds_of (p j)) = {}"
    using parts_disjoint [OF p] by blast
  have "open_fds (close_events (p i) @ tr) = open_fds tr - fds_of (p i)"
    unfolding open_fds_close_events by (simp add: fds_of_def)
  also have "\<dots> = B \<union> (\<Union>j. fds_of (?p j))"
    using p others unfolding Union_update closed_fds parts_def Union_split [of p i] by auto
  finally have "open_fds (close_events (p i) @ tr) = B \<union> (\<Union>j. fds_of (?p j))" .
  moreover have "closes_own (close_events (p i) @ tr)"
    using own by (auto simp: close_events_def fds_of_def)
  moreover have "B \<inter> (\<Union>j. fds_of (?p j)) = {}"
    using p unfolding Union_update closed_fds parts_def Union_split [of p i] by auto
  moreover have "fds_of (?p j) \<inter> fds_of (?p k) = {}" if "j \<noteq> k" for j k
    using parts_disjoint [OF p that] by auto
  ultimately show ?thesis using p by (simp add: parts_def)
qed

subsection \<open>The invariant\<close>

text \<open>The pipes of the manager: its own, its event loop's, the signal pipe, and those of programs.\<close>

datatype slot = ControlPipe | LoopPipe | SignalPipe | ProcPipe nat pipe_name

abbreviation nonblocking :: "nat \<Rightarrow> ('k, 'z) pexec_world_scheme \<Rightarrow> bool" where
  "nonblocking h s \<equiv> px_type (objs s h) = NONBLOCKING"

fun slot_pipe :: "('k, 'z) multi_world_scheme \<Rightarrow> slot \<Rightarrow> int \<times> int" where
  "slot_pipe s ControlPipe = mu_control_pipe s"
| "slot_pipe s LoopPipe = (if mu_loop s then se_control_pipe (sel s) else (-1, -1))"
| "slot_pipe s SignalPipe = sigchld_pipe_signal s"
| "slot_pipe s (ProcPipe h n) =
     (if nonblocking h s \<and> n \<noteq> PSignal then pipe_of n h s else (-1, -1))"

text \<open>The handles that wait in a queue, and what such a handle looks like.\<close>

fun spawns :: "pexec_job option list \<Rightarrow> nat list" where
  "spawns [] = []"
| "spawns (Some (Spawn h) # js) = h # spawns js"
| "spawns (Some (Stop f n) # js) = spawns js"
| "spawns (None # js) = spawns js"

lemma spawns_append [simp]: "spawns (js @ ks) = spawns js @ spawns ks"
  by (induction js rule: spawns.induct) auto

abbreviation queued :: "('k, 'z) multi_world_scheme \<Rightarrow> nat list" where
  "queued s \<equiv> spawns (qb_buffer (mu_buffer s))"

abbreviation handle_pid_of :: "nat \<Rightarrow> ('k, 'z) multi_world_scheme \<Rightarrow> int" where
  "handle_pid_of h s \<equiv> ps_pid (st_proc (mh_ret (mu_handles s h)))"

definition shut :: "nat \<Rightarrow> ('k, 'z) multi_world_scheme \<Rightarrow> bool" where
  "shut h s \<longleftrightarrow> (\<forall>n. n \<noteq> PSignal \<longrightarrow> fds_of (pipe_of n h s) = {})"

text \<open>The program of the handle has come to its end: the handle's record says so.\<close>

definition ended :: "nat \<Rightarrow> ('k, 'z) multi_world_scheme \<Rightarrow> bool" where
  "ended h s \<longleftrightarrow> final_state (st_state (mh_ret (mu_handles s h)))"

definition untouched :: "nat \<Rightarrow> ('k, 'z) multi_world_scheme \<Rightarrow> bool" where
  "untouched h s \<longleftrightarrow>
     nonblocking h s \<and> shut h s \<and>
     ps_pid (px_proc (objs s h)) = 0 \<and> mh_proc_stopped (mu_handles s h) = None \<and>
     handle_pid_of h s = 0 \<and> \<not> ended h s"

text \<open>No program of the handle runs: it was never started, or it has ended.\<close>

definition settled :: "nat \<Rightarrow> ('k, 'z) multi_world_scheme \<Rightarrow> bool" where
  "settled h s \<longleftrightarrow> shut h s \<and> (untouched h s \<or> ended h s)"

abbreviation active_handles :: "('k, 'z) multi_world_scheme \<Rightarrow> nat set" where
  "active_handles s \<equiv> snd ` set (mu_active s)"

definition queue_ok :: "('k, 'z) multi_world_scheme \<Rightarrow> bool" where
  "queue_ok s \<longleftrightarrow> distinct (queued s) \<and> (\<forall>h \<in> set (queued s). untouched h s)"

definition active_ok :: "('k, 'z) multi_world_scheme \<Rightarrow> bool" where
  "active_ok s \<longleftrightarrow>
     distinct (map fst (mu_active s)) \<and> distinct (map snd (mu_active s)) \<and>
     (\<forall>p \<in> set (mu_active s). 0 < fst p \<and> nonblocking (snd p) s \<and>
        mh_proc_stopped (mu_handles s (snd p)) = Some (fst p))"

text \<open>Active processes exist, but for those in \<open>P\<close>, which were just waited for.\<close>

definition children_ok :: "int set \<Rightarrow> ('k, 'z) multi_world_scheme \<Rightarrow> bool" where
  "children_ok P s \<longleftrightarrow> fst ` set (mu_active s) \<subseteq> live_pids (trace s) \<union> P"

text \<open>Which descriptor a registered function is for.\<close>

fun serves_fd :: "reg_cb \<Rightarrow> int \<Rightarrow> ('k, 'z) multi_world_scheme \<Rightarrow> bool" where
  "serves_fd RSignal fd s \<longleftrightarrow> fd = fst (sigchld_pipe_signal s)"
| "serves_fd RControl fd s \<longleftrightarrow> fd = fst (mu_control_pipe s)"
| "serves_fd (RClose h) fd s \<longleftrightarrow>
     h \<in> active_handles s \<and> fd = watch_close_write_fd (mh_fds (mu_handles s h))"
| "serves_fd (RStdout h) fd s \<longleftrightarrow>
     h \<in> active_handles s \<and> fd = stdout_read_fd (mh_fds (mu_handles s h))"
| "serves_fd (RStderr h) fd s \<longleftrightarrow>
     h \<in> active_handles s \<and> fd = stderr_read_fd (mh_fds (mu_handles s h))"

text \<open>
  \<open>registered_fd_\<close> holds the functions of the active processes under their descriptors,
  perhaps those of the signal and control pipes, and nothing else; and the event loop
  watches these descriptors and its own control pipe.
\<close>

definition proc_functions :: "nat \<Rightarrow> reg_cb set" where
  "proc_functions h = {RClose h, RStdout h, RStderr h}"

definition registered_ok :: "('k, 'z) multi_world_scheme \<Rightarrow> bool" where
  "registered_ok s \<longleftrightarrow>
     distinct (map fst (mu_registered s)) \<and>
     (\<forall>fd c. map_of (mu_registered s) fd = Some c \<longrightarrow> serves_fd c fd s) \<and>
     (\<forall>h \<in> active_handles s. \<forall>c \<in> proc_functions h. \<forall>fd.
        serves_fd c fd s \<longrightarrow> map_of (mu_registered s) fd = Some c)"

definition loop_ok :: "('k, 'z) multi_world_scheme \<Rightarrow> bool" where
  "loop_ok s \<longleftrightarrow>
     own_loop s \<and> se_wf (sel s) \<and>
     map_of (mu_registered s) (fst (se_control_pipe (sel s))) = None \<and>
     se_lookup (sel s) = (map_option (\<lambda>_. Some DoAction) \<circ> map_of (mu_registered s))
       (fst (se_control_pipe (sel s)) \<mapsto> None)"

text \<open>A program that runs has its pipes, those the handle knows.\<close>

definition has_pipes :: "nat \<Rightarrow> ('k, 'z) multi_world_scheme \<Rightarrow> bool" where
  "has_pipes h s \<longleftrightarrow>
     watch_close_write_fd (mh_fds (mu_handles s h)) = fst (pipe_of PWatch h s) \<and>
     stdout_read_fd (mh_fds (mu_handles s h)) = fst (pipe_of PStdout h s) \<and>
     stderr_read_fd (mh_fds (mu_handles s h)) = fst (pipe_of PStderr h s) \<and>
     (\<forall>n. n \<noteq> PSignal \<longrightarrow> 0 \<le> fst (pipe_of n h s))"

text \<open>
  All active processes have their pipes and are not at their end; all other objects have
  none, and their programs were not started or have ended. Except for those in \<open>F\<close>, which are
  opening or closing their pipes.
\<close>

definition open_ok :: "nat set \<Rightarrow> ('k, 'z) multi_world_scheme \<Rightarrow> bool" where
  "open_ok F s \<longleftrightarrow>
     (\<forall>h \<in> active_handles s - F. has_pipes h s \<and> \<not> ended h s) \<and>
     (\<forall>h. nonblocking h s \<longrightarrow> h \<notin> active_handles s \<longrightarrow> h \<notin> F \<longrightarrow> settled h s)"

lemma shut_cong: "(\<And>n. n \<noteq> PSignal \<Longrightarrow> pipe_of n h t = pipe_of n h s) \<Longrightarrow> shut h t \<longleftrightarrow> shut h s"
  by (simp add: shut_def del: pipe_of.simps)

text \<open>The object's and the handle's own data decide.\<close>

lemma settled_cong:
  assumes "objs t h = objs s h" and "mu_handles t h = mu_handles s h"
  shows "untouched h t \<longleftrightarrow> untouched h s" "settled h t \<longleftrightarrow> settled h s"
proof -
  have "pipe_of n h t = pipe_of n h s" if "n \<noteq> PSignal" for n using that assms by (cases n) simp_all
  then have "shut h t \<longleftrightarrow> shut h s" by (rule shut_cong)
  then show "untouched h t \<longleftrightarrow> untouched h s" "settled h t \<longleftrightarrow> settled h s"
    by (simp_all add: settled_def untouched_def ended_def assms)
qed

lemma has_pipes_cong:
  assumes "\<And>n. n \<noteq> PSignal \<Longrightarrow> pipe_of n h t = pipe_of n h s"
    and "mh_fds (mu_handles t h) = mh_fds (mu_handles s h)"
  shows "has_pipes h t \<longleftrightarrow> has_pipes h s"
  using assms by (simp add: has_pipes_def del: pipe_of.simps)

text \<open>
  What was before the run: other descriptors, the control pipe, the handlers installed, and the
  last of them.
\<close>

record ground =
  g_open :: "int set"
  g_control :: "int \<times> int"
  g_handlers :: "sig_handler list"
  g_prev :: sig_handler

definition ground_ok :: "ground \<Rightarrow> ('k, 'z) multi_world_scheme \<Rightarrow> bool" where
  "ground_ok g s \<longleftrightarrow>
     parts (g_open g) (slot_pipe s) (trace s) \<and> handlers_of (trace s) = g_handlers g \<and>
     mu_control_pipe s = g_control g \<and> sigchld_sa_prev s = g_prev g \<and> sigchld_active s \<and>
     mu_sigchld s = WiredSigchld \<and>
     0 \<le> fst (g_control g) \<and> 0 \<le> fst (sigchld_pipe_signal s) \<and>
     0 \<le> fst (se_control_pipe (sel s))"

definition books :: "ground \<Rightarrow> nat set \<Rightarrow> int set \<Rightarrow> ('k, 'z) multi_world_scheme \<Rightarrow> bool" where
  "books g F P s \<longleftrightarrow>
     ground_ok g s \<and> queue_ok s \<and> active_ok s \<and> children_ok P s \<and> registered_ok s \<and>
     loop_ok s \<and> open_ok F s"

subsection \<open>Calm steps\<close>

text \<open>
  What a calm step may do: add jobs for new handles and events that are not about
  descriptors, children or handlers. Handles that exist are left alone, but for those
  in \<open>H\<close>, which keep their pipes, the descriptors the handle knows, and the process id, and
  do not come to their end.
\<close>

definition kept_self ::
  "nat \<Rightarrow> ('k, 'z) multi_world_scheme \<Rightarrow> ('k, 'z) multi_world_scheme \<Rightarrow> bool" where
  "kept_self h s t \<longleftrightarrow>
     nonblocking h t \<and> (\<forall>n. n \<noteq> PSignal \<longrightarrow> pipe_of n h t = pipe_of n h s) \<and>
     mh_fds (mu_handles t h) = mh_fds (mu_handles s h) \<and>
     mh_proc_stopped (mu_handles t h) = mh_proc_stopped (mu_handles s h) \<and>
     ps_pid (px_proc (objs t h)) = ps_pid (px_proc (objs s h)) \<and>
     handle_pid_of h t \<in> {handle_pid_of h s, ps_pid (px_proc (objs s h))} \<and>
     (ended h t \<longleftrightarrow> ended h s)"

definition kept_books ::
  "('k, 'z) multi_world_scheme \<Rightarrow> ('k, 'z) multi_world_scheme \<Rightarrow> bool" where
  "kept_books s t \<longleftrightarrow>
     mu_control_pipe t = mu_control_pipe s \<and> mu_sigchld t = mu_sigchld s \<and>
     mu_loop t = mu_loop s \<and> mu_active t = mu_active s \<and> mu_registered t = mu_registered s \<and>
     mu_register t = mu_register s \<and> sigchld_pipe_signal t = sigchld_pipe_signal s \<and>
     sigchld_sa_prev t = sigchld_sa_prev s \<and> sigchld_active t = sigchld_active s \<and>
     se_cbs (sel t) = se_cbs (sel s) \<and> se_control_pipe (sel t) = se_control_pipe (sel s)"

definition more_jobs ::
  "('k, 'z) multi_world_scheme \<Rightarrow> ('k, 'z) multi_world_scheme \<Rightarrow> bool" where
  "more_jobs s t \<longleftrightarrow>
     (\<exists>js. qb_buffer (mu_buffer t) = qb_buffer (mu_buffer s) @ js \<and> distinct (spawns js) \<and>
        (\<forall>h \<in> set (spawns js). \<not> nonblocking h s \<and> untouched h t))"

definition calm ::
  "nat set \<Rightarrow> ('k, 'z) multi_world_scheme \<Rightarrow> ('k, 'z) multi_world_scheme \<Rightarrow> bool" where
  "calm H s t \<longleftrightarrow>
     kept_books s t \<and> more_jobs s t \<and>
     (\<exists>es. trace t = es @ trace s \<and> (\<forall>e \<in> set es. calm_event e)) \<and>
     (\<forall>h. nonblocking h s \<longrightarrow> kept_self h s t) \<and>
     (\<forall>h. nonblocking h s \<longrightarrow> h \<notin> H \<longrightarrow>
        objs t h = objs s h \<and> mu_handles t h = mu_handles s h) \<and>
     (\<forall>h. \<not> nonblocking h s \<longrightarrow> nonblocking h t \<longrightarrow> untouched h t)"

lemma kept_self_trans: "kept_self h s t \<Longrightarrow> kept_self h t u \<Longrightarrow> kept_self h s u"
  by (auto simp: kept_self_def)

lemma kept_self_same:
  "nonblocking h s \<Longrightarrow> objs t h = objs s h \<Longrightarrow> mu_handles t h = mu_handles s h \<Longrightarrow> kept_self h s t"
  unfolding kept_self_def
proof (intro conjI allI impI)
  fix n
  assume "objs t h = objs s h" and "n \<noteq> PSignal"
  then show "pipe_of n h t = pipe_of n h s" by (cases n) auto
qed (auto simp: ended_def)

lemma kept_self_shut: "kept_self h s t \<Longrightarrow> shut h t \<longleftrightarrow> shut h s"
  by (rule shut_cong) (simp add: kept_self_def)

lemma kept_self_untouched: "kept_self h s t \<Longrightarrow> untouched h s \<Longrightarrow> untouched h t"
  using kept_self_shut [of h s t] unfolding kept_self_def untouched_def by auto

lemma kept_self_settled: "kept_self h s t \<Longrightarrow> settled h s \<Longrightarrow> settled h t"
  using kept_self_shut [of h s t] kept_self_untouched [of h s t]
  unfolding settled_def kept_self_def by blast

lemma calm_keeps_untouched: "calm H s t \<Longrightarrow> untouched h s \<Longrightarrow> untouched h t"
  by (rule kept_self_untouched [of h s t]) (auto simp: calm_def untouched_def)

lemma more_jobs_trans:
  assumes "calm H s t" "calm H t u"
  shows "more_jobs s u"
proof -
  from assms obtain js ks where
    js: "qb_buffer (mu_buffer t) = qb_buffer (mu_buffer s) @ js" "distinct (spawns js)"
      "\<forall>h \<in> set (spawns js). \<not> nonblocking h s \<and> untouched h t"
    and ks: "qb_buffer (mu_buffer u) = qb_buffer (mu_buffer t) @ ks" "distinct (spawns ks)"
      "\<forall>h \<in> set (spawns ks). \<not> nonblocking h t \<and> untouched h u"
    by (auto simp: calm_def more_jobs_def)
  have "nonblocking h t" if "nonblocking h s" for h
    using assms(1) that by (auto simp: calm_def kept_self_def)
  with js ks calm_keeps_untouched [OF assms(2)] show ?thesis
    unfolding more_jobs_def by (intro exI [of _ "js @ ks"]) (auto simp: untouched_def)
qed

interpretation ca: step_rel "calm H :: ('k, 'z) multi_world_scheme \<Rightarrow> _"
proof
  fix s t u :: "('k, 'z) multi_world_scheme"
  show "calm H s s"
    by (auto simp: calm_def kept_books_def more_jobs_def kept_self_same)
  assume st: "calm H s t" and tu: "calm H t u"
  have "kept_books s u" using st tu by (simp add: calm_def kept_books_def)
  moreover have "more_jobs s u" by (rule more_jobs_trans [OF st tu])
  moreover have "\<exists>es. trace u = es @ trace s \<and> (\<forall>e \<in> set es. calm_event e)"
  proof -
    from st tu obtain es fs where "trace t = es @ trace s" "\<forall>e \<in> set es. calm_event e"
      "trace u = fs @ trace t" "\<forall>e \<in> set fs. calm_event e" by (auto simp: calm_def)
    then show ?thesis by (intro exI [of _ "fs @ es"]) auto
  qed
  moreover have nb: "nonblocking h t" if "nonblocking h s" for h
    using st that by (auto simp: calm_def kept_self_def)
  moreover have "kept_self h s u" if "nonblocking h s" for h
    using st tu nb [OF that] that by (intro kept_self_trans [of h s t u]) (simp_all add: calm_def)
  moreover have "objs u h = objs s h \<and> mu_handles u h = mu_handles s h"
    if "nonblocking h s" "h \<notin> H" for h
    using st tu nb [OF that(1)] that by (auto simp: calm_def)
  moreover have "untouched h u" if "\<not> nonblocking h s" "nonblocking h u" for h
    using st tu that calm_keeps_untouched [OF tu] by (cases "nonblocking h t") (auto simp: calm_def)
  ultimately show "calm H s u" by (simp add: calm_def)
qed

lemma calm_nonblocking: "calm H s t \<Longrightarrow> nonblocking h s \<Longrightarrow> nonblocking h t"
  by (auto simp: calm_def kept_self_def)

lemma calm_mono: "calm H s t \<Longrightarrow> H \<subseteq> H' \<Longrightarrow> calm H' s t"
  by (auto simp: calm_def)

lemma pres_calm_mono: "pres (calm {}) m \<Longrightarrow> pres (calm H) m"
  by (erule pres_mono) (erule calm_mono, simp)

lemma calm_kept: "calm H s t \<Longrightarrow> kept_books s t"
  by (simp add: calm_def)

subsection \<open>Calm steps keep the books\<close>

lemma parts_cong:
  assumes "parts B p tr" and "\<And>i. q i = p i \<or> fds_of (p i) = {} \<and> fds_of (q i) = {}"
  shows "parts B q tr"
proof -
  have same: "fds_of (q i) = fds_of (p i)" for i using assms(2) [of i] by auto
  have "0 \<le> fst (q i) \<longrightarrow> fst (q i) \<noteq> snd (q i)" for i
  proof (cases "q i = p i")
    case True
    with assms(1) show ?thesis by (simp add: parts_def)
  next
    case False
    with assms(2) have "fds_of (q i) = {}" by blast
    then show ?thesis by (auto simp: fds_of_def)
  qed
  with assms(1) same show ?thesis by (simp add: parts_def)
qed

lemma untouched_pipe: "untouched h s \<Longrightarrow> fds_of (slot_pipe s (ProcPipe h n)) = {}"
  by (auto simp: untouched_def shut_def fds_of_def)

lemma calm_slots:
  assumes "calm H s t"
  shows "slot_pipe t i = slot_pipe s i \<or> fds_of (slot_pipe s i) = {} \<and> fds_of (slot_pipe t i) = {}"
proof (cases i)
  case (ProcPipe h n)
  show ?thesis
  proof (cases "nonblocking h s")
    case True
    then have "kept_self h s t" using assms by (simp add: calm_def)
    with True ProcPipe show ?thesis by (simp add: kept_self_def)
  next
    case False
    then have "fds_of (slot_pipe s i) = {}" using ProcPipe by (simp add: fds_of_def)
    moreover have "fds_of (slot_pipe t i) = {}"
    proof (cases "nonblocking h t")
      case True
      with False assms have "untouched h t" by (simp add: calm_def)
      then show ?thesis using ProcPipe untouched_pipe by blast
    next
      case False
      with ProcPipe show ?thesis by (simp add: fds_of_def)
    qed
    ultimately show ?thesis by blast
  qed
qed (use assms in \<open>auto simp: calm_def kept_books_def\<close>)

lemma calm_ground: "calm H s t \<Longrightarrow> ground_ok g s \<Longrightarrow> ground_ok g t"
proof -
  assume c: "calm H s t" and g: "ground_ok g s"
  then obtain es where es: "trace t = es @ trace s" "\<forall>e \<in> set es. calm_event e"
    by (auto simp: calm_def)
  have "parts (g_open g) (slot_pipe s) (trace s)" using g by (simp add: ground_ok_def)
  then have "parts (g_open g) (slot_pipe t) (trace s)"
    by (rule parts_cong) (use calm_slots [OF c] in blast)
  then have "parts (g_open g) (slot_pipe t) (trace t)"
    unfolding es(1) by (rule parts_calm [OF _ es(2)])
  with g c es calm_projections [OF es(2), of "trace s"] show "ground_ok g t"
    by (simp add: ground_ok_def calm_def kept_books_def)
qed

lemma calm_queue:
  assumes c: "calm H s t" and q: "queue_ok s"
  shows "queue_ok t"
proof -
  from c obtain js where js: "qb_buffer (mu_buffer t) = qb_buffer (mu_buffer s) @ js"
    "distinct (spawns js)" "\<forall>h \<in> set (spawns js). \<not> nonblocking h s \<and> untouched h t"
    by (auto simp: calm_def more_jobs_def)
  have "nonblocking h s \<and> untouched h t" if "h \<in> set (queued s)" for h
    using that q calm_keeps_untouched [OF c] by (auto simp: queue_ok_def untouched_def)
  with js q show ?thesis by (auto simp: queue_ok_def)
qed

lemma active_nonblocking: "active_ok s \<Longrightarrow> h \<in> active_handles s \<Longrightarrow> nonblocking h s"
  by (auto simp: active_ok_def)

lemma calm_active_self:
  "calm H s t \<Longrightarrow> active_ok s \<Longrightarrow> h \<in> active_handles s \<Longrightarrow> kept_self h s t"
  using active_nonblocking by (auto simp: calm_def)

lemma calm_active:
  assumes c: "calm H s t" and a: "active_ok s"
  shows "active_ok t"
proof -
  have "nonblocking (snd p) t \<and> mh_proc_stopped (mu_handles t (snd p)) = Some (fst p)"
    if "p \<in> set (mu_active s)" for p
    using that a calm_active_self [OF c a, of "snd p"] by (auto simp: active_ok_def kept_self_def)
  with a c show ?thesis by (simp add: active_ok_def calm_def kept_books_def)
qed

lemma calm_children: "calm H s t \<Longrightarrow> children_ok P s \<Longrightarrow> children_ok P t"
proof -
  assume c: "calm H s t" and p: "children_ok P s"
  then obtain es where "trace t = es @ trace s" "\<forall>e \<in> set es. calm_event e"
    by (auto simp: calm_def)
  with p c calm_projections [of es "trace s"] show "children_ok P t"
    by (simp add: children_ok_def calm_def kept_books_def)
qed

lemma serves_fd_active:
  assumes "calm H s t" and "active_ok s"
  shows "serves_fd c fd t \<longleftrightarrow> serves_fd c fd s"
proof -
  have "kept_books s t" by (rule calm_kept [OF assms(1)])
  moreover have "h \<in> active_handles s \<Longrightarrow> mh_fds (mu_handles t h) = mh_fds (mu_handles s h)" for h
    using calm_active_self [OF assms] by (simp add: kept_self_def)
  ultimately show ?thesis
    by (cases c) (simp_all add: kept_books_def cong: conj_cong)
qed

lemma calm_registered:
  assumes "calm H s t" and "active_ok s" and "registered_ok s"
  shows "registered_ok t"
proof -
  have "mu_registered t = mu_registered s" "mu_active t = mu_active s"
    using calm_kept [OF assms(1)] by (simp_all add: kept_books_def)
  then have "registered_ok t \<longleftrightarrow> registered_ok s"
    by (simp only: registered_ok_def serves_fd_active [OF assms(1,2)])
  with assms(3) show ?thesis by blast
qed

lemma calm_loop:
  assumes "calm H s t" and "loop_ok s"
  shows "loop_ok t"
  using calm_kept [OF assms(1)] assms(2)
  by (simp add: loop_ok_def kept_books_def own_loop_def se_wf_def se_lookup_def fun_eq_iff)

lemma calm_settled:
  assumes c: "calm H s t" and "nonblocking h t" and "nonblocking h s \<Longrightarrow> settled h s"
  shows "settled h t"
proof (cases "nonblocking h s")
  case True
  with c have "kept_self h s t" by (simp add: calm_def)
  then show ?thesis by (rule kept_self_settled) (rule assms(3) [OF True])
next
  case False
  with c assms(2) have "untouched h t" by (simp add: calm_def)
  then show ?thesis by (simp add: settled_def untouched_def)
qed

lemma calm_open:
  assumes c: "calm H s t" and "active_ok s" and "open_ok F s"
  shows "open_ok F t"
proof -
  have "mu_active t = mu_active s" using calm_kept [OF c] by (simp add: kept_books_def)
  moreover have "has_pipes h t \<longleftrightarrow> has_pipes h s" if "h \<in> active_handles s" for h
    using calm_active_self [OF c assms(2) that]
    by (intro has_pipes_cong) (simp_all add: kept_self_def)
  moreover have "ended h t \<longleftrightarrow> ended h s" if "h \<in> active_handles s" for h
    using calm_active_self [OF c assms(2) that] by (simp add: kept_self_def)
  moreover have "settled h t" if "nonblocking h t" "nonblocking h s \<Longrightarrow> settled h s" for h
    by (rule calm_settled [OF c that])
  ultimately show ?thesis using assms(3) by (simp add: open_ok_def)
qed

lemma calm_books:
  assumes "calm H s t" and "books g F P s"
  shows "books g F P t"
  using assms(2) calm_ground [OF assms(1)] calm_queue [OF assms(1)] calm_active [OF assms(1)]
    calm_children [OF assms(1)] calm_registered [OF assms(1)] calm_loop [OF assms(1)]
    calm_open [OF assms(1)]
  by (simp add: books_def)

text \<open>
  The handle that an operation works on: it exists, does not wait in the queue, and \<open>q\<close> says
  under which process id the manager expects its end.
\<close>

definition at ::
  "ground \<Rightarrow> nat \<Rightarrow> int option \<Rightarrow> nat set \<Rightarrow> int set \<Rightarrow> ('k, 'z) multi_world_scheme \<Rightarrow> bool" where
  "at g h q F P s \<longleftrightarrow>
     books g F P s \<and> nonblocking h s \<and> h \<notin> set (queued s) \<and>
     mh_proc_stopped (mu_handles s h) = q"

lemma calm_at:
  assumes c: "calm H s t" and a: "at g h q F P s"
  shows "at g h q F P t"
proof -
  have "h \<notin> set (queued t)" using a c by (auto simp: at_def calm_def more_jobs_def)
  moreover have "kept_self h s t" using a c by (simp add: at_def calm_def)
  ultimately show ?thesis
    using a calm_books [OF c] by (simp add: at_def kept_self_def)
qed

lemma calm_extends: "calm H s t \<Longrightarrow> extends s t"
  by (auto simp: calm_def extends_def)

lemma triple_calm:
  assumes "pres (calm H) m"
  shows "triple (books g F P) m (\<lambda>_. books g F P)" "triple (at g h q F P) m (\<lambda>_. at g h q F P)"
  using assms by (auto simp: triple_def pres_def intro: calm_extends calm_books calm_at)

subsection \<open>Which steps are calm\<close>

lemma calm_selfI:
  assumes "kept_books s t" and "mu_buffer t = mu_buffer s"
    and "trace t = es @ trace s" and "\<forall>e \<in> set es. calm_event e"
    and "\<And>h'. h' \<noteq> h \<Longrightarrow> objs t h' = objs s h' \<and> mu_handles t h' = mu_handles s h'"
    and "nonblocking h s \<Longrightarrow> kept_self h s t" and "nonblocking h t \<Longrightarrow> nonblocking h s"
  shows "calm {h} s t"
proof -
  have "kept_self h' s t" if "nonblocking h' s" for h'
    using that assms(5) [of h'] assms(6) kept_self_same [of s h' t] by (cases "h' = h") auto
  moreover have "nonblocking h' s" if "nonblocking h' t" for h'
    using that assms(5) [of h'] assms(7) by (cases "h' = h") auto
  ultimately show ?thesis
    using assms(1-5) by (auto simp: calm_def more_jobs_def)
qed

lemma calm_same:
  assumes "kept_books s t" and "mu_buffer t = mu_buffer s" and "objs t = objs s"
    and "mu_handles t = mu_handles s" and "trace t = es @ trace s" and "\<forall>e \<in> set es. calm_event e"
  shows "calm H s t"
  using assms by (auto simp: calm_def more_jobs_def kept_self_same)

lemma calm_adds: "adds calm_event s t \<Longrightarrow> calm H s t"
  for s t :: "('k, 'z) multi_world_scheme"
  using more_multi [of t s] more_pexec [of t s] more_sigchld [of t s]
  by (auto simp: adds_def intro!: calm_same simp: kept_books_def)

lemma calm_lift: "pres (adds calm_event) m \<Longrightarrow> pres (calm H) m"
  for m :: "(('k, 'z) multi_world_scheme, 'a) prog"
  by (erule pres_mono) (erule calm_adds)

lemma calm_sys:
  fixes K :: "'k platform"
  shows
    "pres (calm H :: ('k, 'z) multi_world_scheme \<Rightarrow> _) (sys_read K fd n)"
    "pres (calm H :: ('k, 'z) multi_world_scheme \<Rightarrow> _) (sys_write K fd d)"
    "pres (calm H :: ('k, 'z) multi_world_scheme \<Rightarrow> _) (sys_select K nfds fds)"
    "pres (calm H :: ('k, 'z) multi_world_scheme \<Rightarrow> _) (sys_sigprocmask K how sigs)"
    "pres (calm H :: ('k, 'z) multi_world_scheme \<Rightarrow> _) (sys_kill K pid sig)"
    "pres (calm H :: ('k, 'z) multi_world_scheme \<Rightarrow> _) (read_retry m K fd n)"
    "pres (calm H :: ('k, 'z) multi_world_scheme \<Rightarrow> _) (read_signal_bytes m K fd got)"
    "pres (calm H :: ('k, 'z) multi_world_scheme \<Rightarrow> _) (set_errno e)"
    "calm_event ev \<Longrightarrow> pres (calm H :: ('k, 'z) multi_world_scheme \<Rightarrow> _) (note_event ev)"
proof -
  have "pres (adds calm_event :: ('k, 'z) multi_world_scheme \<Rightarrow> _) (read_signal_bytes m K fd got)"
    by (induction m arbitrary: got) (auto intro!: adds_intros)
  then show "pres (calm H :: ('k, 'z) multi_world_scheme \<Rightarrow> _) (read_signal_bytes m K fd got)"
    by (rule calm_lift)
qed (auto intro!: calm_lift adds_intros)

lemma calm_upd:
  "(\<And>s. kept_books s (f s) \<and> mu_buffer (f s) = mu_buffer s \<and> objs (f s) = objs s \<and>
      mu_handles (f s) = mu_handles s \<and> trace (f s) = trace s) \<Longrightarrow> pres (calm H) (upd f)"
  by (rule pres_upd) (auto intro!: calm_same)

lemma calm_upd_sel:
  "(\<And>e. se_cbs (f e) = se_cbs e \<and> se_control_pipe (f e) = se_control_pipe e) \<Longrightarrow>
   pres (calm H :: ('k, 'z) multi_world_scheme \<Rightarrow> _) (upd_sel f)"
  unfolding upd_sel_def by (rule calm_upd) (simp add: kept_books_def)

text \<open>Fields of an object that have nothing to do with its pipes or its process id.\<close>

definition light :: "(pexec \<Rightarrow> pexec) \<Rightarrow> bool" where
  "light f \<longleftrightarrow>
     (\<forall>x. px_type (f x) = px_type x \<and> px_pipe_stdin (f x) = px_pipe_stdin x \<and>
        px_pipe_stdout (f x) = px_pipe_stdout x \<and> px_pipe_stderr (f x) = px_pipe_stderr x \<and>
        px_pipe_close_watch (f x) = px_pipe_close_watch x \<and>
        ps_pid (px_proc (f x)) = ps_pid (px_proc x))"

definition light_handle :: "(multi_handle \<Rightarrow> multi_handle) \<Rightarrow> bool" where
  "light_handle f \<longleftrightarrow>
     (\<forall>x. mh_fds (f x) = mh_fds x \<and> mh_proc_stopped (f x) = mh_proc_stopped x \<and>
        ps_pid (st_proc (mh_ret (f x))) = ps_pid (st_proc (mh_ret x)) \<and>
        st_state (mh_ret (f x)) = st_state (mh_ret x))"

lemma calm_this_upd:
  assumes "light f"
  shows "pres (calm {h} :: ('k, 'z) multi_world_scheme \<Rightarrow> _) (this_upd h f)"
  unfolding this_upd_def
proof (rule pres_upd)
  fix s :: "('k, 'z) multi_world_scheme"
  let ?t = "s\<lparr>objs := (objs s)(h := f (objs s h))\<rparr>"
  have p: "pipe_of n h ?t = pipe_of n h s" for n
    using assms by (cases n) (simp_all add: light_def)
  show "calm {h} s ?t"
    by (rule calm_selfI [where es = "[]"]) (use assms p in \<open>auto simp: kept_books_def kept_self_def ended_def light_def\<close>)
qed

lemma calm_handle_upd:
  assumes "light_handle f"
  shows "pres (calm {h}) (handle_upd h f)"
  unfolding handle_upd_def
proof (rule pres_upd)
  fix s :: "('k, 'z) multi_world_scheme"
  let ?t = "s\<lparr>mu_handles := (mu_handles s)(h := f (mu_handles s h))\<rparr>"
  have p: "pipe_of n h ?t = pipe_of n h s" for n by (cases n) simp_all
  show "calm {h} s ?t"
    by (rule calm_selfI [where es = "[]"]) (use assms p in \<open>auto simp: kept_books_def kept_self_def ended_def light_handle_def\<close>)
qed

text \<open>A job that is not a new program.\<close>

lemma calm_send_job:
  fixes K :: "'k platform"
  assumes "spawns [ptr] = []"
  shows "pres (calm H :: ('k, 'z) multi_world_scheme \<Rightarrow> _) (send_job K ptr)"
proof -
  have "calm H s (s\<lparr>mu_buffer := q\<rparr>)" if "qb_add ptr (mu_buffer s) = Some q"
    for s :: "('k, 'z) multi_world_scheme" and q
  proof -
    have "qb_buffer q = qb_buffer (mu_buffer s) @ [ptr]"
      using that by (auto simp: qb_add_def split: if_splits)
    then have "more_jobs s (s\<lparr>mu_buffer := q\<rparr>)" using assms by (auto simp: more_jobs_def)
    then show ?thesis by (auto simp: calm_def kept_books_def intro!: kept_self_same)
  qed
  then have "pres (calm H :: ('k, 'z) multi_world_scheme \<Rightarrow> _)
      (bind (gets (\<lambda>s. qb_add ptr (mu_buffer s))) (\<lambda>q. case q of
        None \<Rightarrow> spin | Some q \<Rightarrow> upd (\<lambda>s. s\<lparr>mu_buffer := q\<rparr>)))"
    unfolding pres_def ret_iffs by blast
  moreover have "pres (calm H :: ('k, 'z) multi_world_scheme \<Rightarrow> _) (mu_interrupt K)"
    unfolding mu_interrupt_def by (intro ca.pres_intros calm_sys)
  ultimately show ?thesis unfolding send_job_def by (rule ca.pres_seq)
qed

subsection \<open>The callbacks of the user\<close>

text \<open>
  What the manager needs from user code: a callback may read and change whatever it likes but
  the manager's own state and the objects that exist; it may queue jobs, new programs among
  them; a state callback leaves the process id and the flag \<open>running\<close> of the record alone.
\<close>

locale multi_client =
  fixes U :: "('k, 'z) user"
  assumes user_stdout: "hu_stdout (us_handle U h) = Some f \<Longrightarrow> pres (calm {}) (f data n)"
    and user_stderr: "hu_stderr (us_handle U h) = Some f \<Longrightarrow> pres (calm {}) (f data n)"
    and user_error: "hu_error (us_handle U h) = Some g \<Longrightarrow> pres (calm {}) (g e)"
    and user_state: "hu_state (us_handle U h) = Some k \<Longrightarrow> k st p s = Ret p' t \<Longrightarrow>
      calm {} s t \<and> ps_running p' = ps_running p \<and> ps_pid p' = ps_pid p"
    and user_stop: "hu_on_stop (us_handle U h) = Some l \<Longrightarrow> pres (calm {}) (l rs)"
    and manager_error: "us_error U = Some m \<Longrightarrow> pres (calm {}) (m e)"
    and user_register: "pres (calm {}) (us_register U fd act what)"
begin

lemmas user_calm = user_stdout [THEN pres_calm_mono] user_stderr [THEN pres_calm_mono]
  user_error [THEN pres_calm_mono] user_stop [THEN pres_calm_mono]
  manager_error [THEN pres_calm_mono]

lemma calm_mu_process_error: "pres (calm H) (mu_process_error U e)"
proof -
  have "pres (calm H :: ('k, 'z) multi_world_scheme \<Rightarrow> _) (upd (\<lambda>s. s\<lparr>mu_err := e\<rparr>))"
    by (rule calm_upd) (simp add: kept_books_def)
  then show ?thesis
    unfolding mu_process_error_def
    by (rule ca.pres_seq) (rule pres_option; (rule ca.pres_skip | erule user_calm))
qed

text \<open>The library's own callbacks, up to the end of a process.\<close>

lemma calm_output:
  "pres (calm {h}) (pc_stdout (handle_callbacks K U h) data n)"
  "pres (calm {h}) (pc_stderr (handle_callbacks K U h) data n)"
  by (auto simp: handle_callbacks_def light_handle_def split: option.split
      intro!: calm_handle_upd intro: user_calm)

lemma calm_error: "pres (calm {h}) (pc_error (handle_callbacks K U h) e)"
  by (auto simp: handle_callbacks_def light_handle_def split: option.split
      intro!: ca.pres_intros calm_handle_upd intro: user_calm)

lemma calm_process_error: "pres (calm {h}) (process_error (handle_callbacks K U h) h e)"
  unfolding process_error_def
  by (intro ca.pres_intros calm_sys calm_error calm_this_upd) (simp_all add: light_def)

lemma calm_deliver: "pres (calm {h}) (deliver (handle_callbacks K U h) h ch n)"
  unfolding deliver_def this_gets_def
  by (cases ch) (auto intro!: ca.pres_intros calm_sys calm_output)

lemma calm_buffer:
  "pres (calm {h} :: ('k, 'z) multi_world_scheme \<Rightarrow> _) (store_read h d)"
  "pres (calm {h} :: ('k, 'z) multi_world_scheme \<Rightarrow> _) (terminate_buffer h n)"
  unfolding store_read_def terminate_buffer_def by (auto intro!: calm_this_upd simp: light_def)

lemma calm_read_std_rest:
  "pres (calm {h}) (read_std_rest m K (handle_callbacks K U h) h fd ch e)"
  by (induction m)
     (auto simp: buffer_room_def this_gets_def
       intro!: ca.pres_intros calm_sys calm_buffer calm_deliver calm_process_error)

lemma calm_loop_rest_io: "pres (calm {h}) (loop_rest_io N K (handle_callbacks K U h) h)"
  unfolding loop_rest_io_def by (intro ca.pres_intros calm_read_std_rest)

end

end
