(* ===== verification/Multi_Steps.thy ===== *)
theory Multi_Steps
  imports Multi_Books
begin

section \<open>Every operation on a program keeps the books\<close>

text \<open>
  One triple per operation on a handle, under the contract of the user's callbacks: while it runs, when
  it ends in any of the ways a program can end, and when it is started. At the end the handle
  leaves the active processes and the registry in the same step, so that the books balance
  again.
\<close>

subsection \<open>Steps that only concern one object\<close>

definition aside :: "nat \<Rightarrow> ('k, 'z) multi_world_scheme \<Rightarrow> ('k, 'z) multi_world_scheme \<Rightarrow> bool" where
  "aside h s t \<longleftrightarrow>
     kept_books s t \<and> mu_buffer t = mu_buffer s \<and>
     (\<forall>h'. h' \<noteq> h \<longrightarrow> objs t h' = objs s h' \<and> mu_handles t h' = mu_handles s h') \<and>
     (nonblocking h s \<longrightarrow> nonblocking h t) \<and>
     (h \<in> active_handles s \<longrightarrow> mh_fds (mu_handles t h) = mh_fds (mu_handles s h)) \<and>
     mh_proc_stopped (mu_handles t h) = mh_proc_stopped (mu_handles s h) \<and>
     live_pids (trace s) \<subseteq> live_pids (trace t)"

lemma aside_fds:
  assumes "aside h s t" and "h' \<in> active_handles s"
  shows "mh_fds (mu_handles t h') = mh_fds (mu_handles s h')"
  using assms by (cases "h' = h") (simp_all add: aside_def)

lemma aside_serves:
  assumes "aside h s t"
  shows "serves_fd c fd t \<longleftrightarrow> serves_fd c fd s"
proof -
  have "kept_books s t" using assms by (simp add: aside_def)
  with aside_fds [OF assms] show ?thesis by (cases c) (simp_all add: kept_books_def cong: conj_cong)
qed

lemma aside_queue:
  assumes "aside h s t" and "queue_ok s" and "h \<notin> set (queued s)"
  shows "queue_ok t"
proof -
  have "untouched h' t" if "h' \<in> set (queued s)" for h'
  proof -
    have "h' \<noteq> h" "untouched h' s" using assms(2,3) that by (auto simp: queue_ok_def)
    moreover from this assms(1) have "objs t h' = objs s h'" "mu_handles t h' = mu_handles s h'"
      by (auto simp: aside_def)
    ultimately show ?thesis using settled_cong(1) [of t h' s] by simp
  qed
  with assms show ?thesis by (simp add: queue_ok_def aside_def)
qed

lemma aside_active: "aside h s t \<Longrightarrow> active_ok s \<Longrightarrow> active_ok t"
proof -
  assume a: "aside h s t" and ok: "active_ok s"
  have "nonblocking h' t \<and> mh_proc_stopped (mu_handles t h') = mh_proc_stopped (mu_handles s h')"
    if "nonblocking h' s" for h'
    using a that by (cases "h' = h") (auto simp: aside_def)
  with a ok show "active_ok t" by (simp add: active_ok_def aside_def kept_books_def)
qed

lemma aside_registered: "aside h s t \<Longrightarrow> registered_ok s \<Longrightarrow> registered_ok t"
proof -
  assume a: "aside h s t" and r: "registered_ok s"
  then have "mu_registered t = mu_registered s" "mu_active t = mu_active s"
    by (simp_all add: aside_def kept_books_def)
  then have "registered_ok t \<longleftrightarrow> registered_ok s"
    by (simp only: registered_ok_def aside_serves [OF a])
  with r show "registered_ok t" by blast
qed

lemma aside_open:
  assumes a: "aside h s t" and o: "open_ok F s" and h: "h \<in> F"
  shows "open_ok F t"
proof -
  have act: "mu_active t = mu_active s" using a by (simp add: aside_def kept_books_def)
  have same: "objs t h' = objs s h'" "mu_handles t h' = mu_handles s h'" if "h' \<notin> F" for h'
    using a h that by (auto simp: aside_def)
  then have pipes: "pipe_of n h' t = pipe_of n h' s" if "h' \<notin> F" "n \<noteq> PSignal" for n h'
    using that by (cases n) auto
  have "has_pipes h' t \<longleftrightarrow> has_pipes h' s" if "h' \<notin> F" for h'
    using that same(2) by (intro has_pipes_cong pipes; simp)
  moreover have "settled h' t \<longleftrightarrow> settled h' s" "ended h' t \<longleftrightarrow> ended h' s" if "h' \<notin> F" for h'
    using settled_cong(2) [OF same] that by (simp_all add: ended_def same)
  ultimately show ?thesis using o same(1) by (auto simp: open_ok_def act)
qed

text \<open>What is left to show for such a step: the descriptors.\<close>

lemma aside_at:
  assumes a: "aside h s t" and b: "at g h q F P s" and g: "ground_ok g t"
    and "open_ok F t"
  shows "at g h q F P t"
proof -
  have "loop_ok t"
    using a b by (simp add: at_def books_def loop_ok_def aside_def kept_books_def own_loop_def
        se_wf_def se_lookup_def fun_eq_iff)
  moreover have "children_ok P t"
    using a b by (auto simp: at_def books_def children_ok_def aside_def kept_books_def)
  ultimately show ?thesis
    using assms aside_queue [OF a] aside_active [OF a] aside_registered [OF a]
    by (simp add: at_def books_def aside_def)
qed

text \<open>A step that leaves the pipes alone, too.\<close>

lemma aside_quiet:
  assumes a: "aside h s t" and b: "at g h q F P s"
    and tr: "trace t = es @ trace s" "\<forall>e \<in> set es. calm_event e"
    and pipes: "\<And>n. n \<noteq> PSignal \<Longrightarrow> pipe_of n h t = pipe_of n h s"
    and own: "h \<in> F \<or> \<not> untouched h s \<and> (ended h t \<longleftrightarrow> ended h s)"
  shows "at g h q F P t"
proof (rule aside_at [OF a b])
  have nb: "nonblocking h' t \<longleftrightarrow> nonblocking h' s" if "h' \<noteq> h" for h'
    using a that by (simp add: aside_def)
  have "slot_pipe t i = slot_pipe s i" for i
  proof (cases i)
    case (ProcPipe h' n)
    show ?thesis
    proof (cases "h' = h")
      case True
      with a b pipes [of n] ProcPipe show ?thesis by (auto simp: at_def aside_def simp del: pipe_of.simps)
    next
      case False
      with a nb ProcPipe show ?thesis by (cases n) (auto simp: aside_def)
    qed
  qed (use a in \<open>auto simp: aside_def kept_books_def\<close>)
  then have "slot_pipe t = slot_pipe s" by (rule ext)
  moreover have "parts (g_open g) (slot_pipe s) (trace t)"
    using b unfolding tr(1) by (intro parts_calm [OF _ tr(2)]) (simp add: at_def books_def ground_ok_def)
  ultimately show "ground_ok g t"
    using a b tr calm_projections [OF tr(2), of "trace s"]
    by (simp add: at_def books_def ground_ok_def aside_def kept_books_def)
  have same: "pipe_of n h' t = pipe_of n h' s" if "n \<noteq> PSignal" for n h'
    using a pipes [OF that] that by (cases "h' = h"; cases n) (auto simp: aside_def)
  have "has_pipes h' t \<longleftrightarrow> has_pipes h' s" if "h' \<in> active_handles s" for h'
    by (rule has_pipes_cong [OF same aside_fds [OF a that]])
  moreover have "ended h' t \<longleftrightarrow> ended h' s" if "h' \<notin> F" for h'
    using a own that by (cases "h' = h") (auto simp: aside_def ended_def)
  moreover have "settled h' t" if "settled h' s" "h' \<notin> F" for h'
    using a own that shut_cong [OF same, of h'] settled_cong(2) [of t h' s]
    by (cases "h' = h") (auto simp: aside_def settled_def)
  moreover have "nonblocking h' s" if "nonblocking h' t" for h'
    using that nb [of h'] b by (cases "h' = h") (auto simp: at_def)
  moreover have "mu_active t = mu_active s" using a by (simp add: aside_def kept_books_def)
  ultimately show "open_ok F t" using b by (auto simp: at_def books_def open_ok_def)
qed

subsection \<open>Opening and closing the pipes of a program\<close>

lemma more_aside:
  fixes s t :: "('k, 'z) multi_world_scheme"
  assumes "world.more u = world.more s" and "t = u\<lparr>objs := (objs u)(h := x)\<rparr>"
    and "px_type x = px_type (objs s h)" and "live_pids (trace s) \<subseteq> live_pids (trace u)"
  shows "aside h s t" "mu_handles t = mu_handles s" "mu_buffer t = mu_buffer s"
proof -
  note m = more_multi [OF assms(1)] more_pexec [OF assms(1)] more_sigchld [OF assms(1)]
  show "aside h s t" "mu_handles t = mu_handles s" "mu_buffer t = mu_buffer s"
    using assms m by (auto simp: aside_def kept_books_def)
qed

lemma set_pipe_object:
  "n \<noteq> PSignal \<Longrightarrow> set_pipe n h p u = Ret r t \<Longrightarrow>
   \<exists>x. t = u\<lparr>objs := (objs u)(h := x)\<rparr> \<and> px_type x = px_type (objs u h)"
  by (cases n) (auto simp: this_upd_def ret_iffs)

lemma slot_pipe_one:
  assumes "aside h s t" and "nonblocking h s" and "n \<noteq> PSignal" and "pipe_of n h t = p"
    and "\<And>m. m \<noteq> n \<Longrightarrow> m \<noteq> PSignal \<Longrightarrow> pipe_of m h t = pipe_of m h s"
  shows "slot_pipe t = (slot_pipe s)(ProcPipe h n := p)"
proof
  fix i
  show "slot_pipe t i = ((slot_pipe s)(ProcPipe h n := p)) i"
  proof (cases i)
    case (ProcPipe h' m)
    show ?thesis
    proof (cases "h' = h")
      case True
      with assms ProcPipe show ?thesis by (auto simp: aside_def simp del: pipe_of.simps)
    next
      case False
      with assms(1) ProcPipe show ?thesis by (cases m) (auto simp: aside_def)
    qed
  qed (use assms(1) in \<open>auto simp: aside_def kept_books_def\<close>)
qed

lemma live_pids_close: "live_pids (close_events p @ tr) = live_pids tr"
  "handlers_of (close_events p) = []"
  by (auto simp: close_events_def)

lemma close_member_at:
  fixes s t :: "('k, 'z) multi_world_scheme"
  assumes run: "close_member K h n s = Ret r t" and a: "at g h q F P s" and "h \<in> F"
    and n: "n \<noteq> PSignal"
  shows "at g h q F P t" "mu_handles t = mu_handles s"
    "px_proc (objs t h) = px_proc (objs s h)"
proof -
  note m = close_member_Ret [OF run]
  have nb: "nonblocking h s" using a by (simp add: at_def)
  from run obtain p u where c: "close_pipe K (pipe_of n h s) s = Ret p u"
    and set: "set_pipe n h p u = Ret r t"
    by (auto simp: close_member_def ret_iffs)
  note u = close_pipe_Ret [OF c]
  from set_pipe_object [OF n set] obtain x where x: "t = u\<lparr>objs := (objs u)(h := x)\<rparr>"
    "px_type x = px_type (objs s h)"
    using u more_pexec [of u s] by auto
  have side: "aside h s t" and hs: "mu_handles t = mu_handles s"
    using more_aside [of u s t h x] u x by (auto simp: live_pids_close)
  show "mu_handles t = mu_handles s" by (rule hs)
  show "px_proc (objs t h) = px_proc (objs s h)" using m(4) by (simp add: kept_rest_def)
  have "slot_pipe t = (slot_pipe s)(ProcPipe h n :=
      (closed_fd (fst (pipe_of n h s)), closed_fd (snd (pipe_of n h s))))"
    by (rule slot_pipe_one [OF side nb n m(1)]) (rule m(2))
  moreover have "slot_pipe s (ProcPipe h n) = pipe_of n h s" using nb n by simp
  ultimately have "parts (g_open g) (slot_pipe t) (trace t)"
    using a parts_close [of "g_open g" "slot_pipe s" "trace s" "ProcPipe h n"] m(3)
    by (simp add: at_def books_def ground_ok_def)
  then have ground: "ground_ok g t"
    using a side m(3) live_pids_close(2)
    by (simp add: at_def books_def ground_ok_def aside_def kept_books_def)
  have "open_ok F t" using a assms(3) by (intro aside_open [OF side]) (simp_all add: at_def books_def)
  with aside_at [OF side a ground] show "at g h q F P t" by blast
qed

lemma ext_close_fork_pipes: "pres extends (close_fork_pipes K h)"
  for K :: "'k platform"
proof -
  have "pres extends (set_pipe n h p)" for n p and h :: nat
    by (cases n) (auto intro!: pres_extends_this_upd pres_upd simp: extends_def)
  moreover have "pres extends (close_pipe K p)" for p
    by (auto simp: pres_def extends_def dest!: close_pipe_Ret)
  ultimately show ?thesis
    unfolding close_fork_pipes_def close_member_def this_gets_def by (intro ex.pres_intros)
qed

text \<open>
  A handle whose program has not been started (\<open>b\<close>) has the process id 0, in the object and
  in its own record.
\<close>

definition unborn :: "bool \<Rightarrow> nat \<Rightarrow> ('k, 'z) multi_world_scheme \<Rightarrow> bool" where
  "unborn b h s \<longleftrightarrow> (b \<longrightarrow> ps_pid (px_proc (objs s h)) = 0 \<and> handle_pid_of h s = 0)"

definition held ::
  "ground \<Rightarrow> nat \<Rightarrow> int option \<Rightarrow> nat set \<Rightarrow> int set \<Rightarrow> bool \<Rightarrow> ('k, 'z) multi_world_scheme \<Rightarrow> bool" where
  "held g h q F P b s \<longleftrightarrow> at g h q F P s \<and> unborn b h s"

text \<open>The program has not come to its end.\<close>

definition mid ::
  "ground \<Rightarrow> nat \<Rightarrow> int option \<Rightarrow> nat set \<Rightarrow> int set \<Rightarrow> bool \<Rightarrow> ('k, 'z) multi_world_scheme \<Rightarrow> bool" where
  "mid g h q F P b s \<longleftrightarrow> held g h q F P b s \<and> \<not> ended h s"

lemma mid_iff: "mid g h q F P b s \<longleftrightarrow> at g h q F P s \<and> unborn b h s \<and> \<not> ended h s"
  by (simp add: mid_def held_def)

text \<open>The end of a program: the process id the manager waited for is not active any more.\<close>

definition over ::
  "ground \<Rightarrow> nat \<Rightarrow> int option \<Rightarrow> int set \<Rightarrow> bool \<Rightarrow> ('k, 'z) multi_world_scheme \<Rightarrow> bool" where
  "over g h q P b s \<longleftrightarrow>
     held g h q {} P b s \<and> ended h s \<and> (\<forall>pid. q = Some pid \<longrightarrow> pid \<notin> fst ` set (mu_active s))"

lemma calm_held:
  assumes c: "calm H s t" and m: "held g h q F P b s"
  shows "held g h q F P b t" "ended h t \<longleftrightarrow> ended h s" "shut h t \<longleftrightarrow> shut h s"
proof -
  have k: "kept_self h s t" using c m by (simp add: held_def at_def calm_def)
  then have "unborn b h t" using m by (auto simp: held_def unborn_def kept_self_def)
  with calm_at [OF c] m show "held g h q F P b t" by (simp add: held_def)
  show "ended h t \<longleftrightarrow> ended h s" "shut h t \<longleftrightarrow> shut h s"
    using k kept_self_shut [OF k] by (simp_all add: kept_self_def)
qed

lemma calm_mid: "calm H s t \<Longrightarrow> mid g h q F P b s \<Longrightarrow> mid g h q F P b t"
  using calm_held [of H s t g h q F P b] by (simp add: mid_def)

lemma calm_over: "calm H s t \<Longrightarrow> over g h q P b s \<Longrightarrow> over g h q P b t"
  using calm_kept [of H s t] calm_held [of H s t g h q "{}" P b] by (simp add: over_def kept_books_def)

lemma triple_calm_mid: "pres (calm H) m \<Longrightarrow> triple (mid g h q F P b) m (\<lambda>_. mid g h q F P b)"
  by (auto simp: triple_def pres_def intro: calm_extends calm_mid)

text \<open>All pipes of the handle are closed, but the manager has not been told yet.\<close>

definition closing ::
  "ground \<Rightarrow> nat \<Rightarrow> int option \<Rightarrow> int set \<Rightarrow> bool \<Rightarrow> ('k, 'z) multi_world_scheme \<Rightarrow> bool" where
  "closing g h q P b s \<longleftrightarrow> held g h q {h} P b s \<and> shut h s"

text \<open>And the handle has got its final state.\<close>

definition ending ::
  "ground \<Rightarrow> nat \<Rightarrow> int option \<Rightarrow> int set \<Rightarrow> bool \<Rightarrow> ('k, 'z) multi_world_scheme \<Rightarrow> bool" where
  "ending g h q P b s \<longleftrightarrow> closing g h q P b s \<and> ended h s"

lemma calm_closing: "calm H s t \<Longrightarrow> closing g h q P b s \<Longrightarrow> closing g h q P b t"
  using calm_held [of H s t g h q "{h}" P b] by (simp add: closing_def)

lemma calm_ending: "calm H s t \<Longrightarrow> ending g h q P b s \<Longrightarrow> ending g h q P b t"
  using calm_held [of H s t g h q "{h}" P b] by (simp add: ending_def closing_def)

lemma triple_calm_closing:
  "pres (calm H) m \<Longrightarrow> triple (closing g h q P b) m (\<lambda>_. closing g h q P b)"
  "pres (calm H) m \<Longrightarrow> triple (ending g h q P b) m (\<lambda>_. ending g h q P b)"
  by (auto simp: triple_def pres_def intro: calm_extends calm_closing calm_ending)

lemma triple_close_fork_pipes:
  "triple (mid g h q {h} P b) (close_fork_pipes K h) (\<lambda>_. closing g h q P b)"
proof (rule tripleI)
  show "close_fork_pipes K h s = Ret r t \<Longrightarrow> extends s t" for s r and t :: "('a, 'b) multi_world_scheme"
    by (rule presD [OF ext_close_fork_pipes])
  fix s r and t :: "('a, 'b) multi_world_scheme"
  let ?A = "\<lambda>X s. held g h q {h} P b s \<and> (\<forall>n \<in> X. fds_of (pipe_of n h s) = {})"
  have step: "?A (insert n X) v" if "close_member K h n u = Ret r v" "?A X u" "n \<noteq> PSignal" for X u v n r
  proof -
    have "fds_of (pipe_of m h v) = {}" if "m \<in> insert n X" for m
      using close_member_Ret(1,2) [OF \<open>close_member K h n u = Ret r v\<close>] \<open>?A X u\<close> that
      by (cases "m = n") (simp_all del: pipe_of.simps)
    with close_member_at [OF that(1), of g q "{h}" P] that(2,3) show ?thesis
      by (simp add: held_def unborn_def)
  qed
  assume A: "mid g h q {h} P b s" and "close_fork_pipes K h s = Ret r t"
  then obtain s1 s2 s3 s4 where
    c: "close_member K h PStdin s = Ret () s1" "close_member K h PStdout s1 = Ret () s2"
      "close_member K h PStderr s2 = Ret () s3"
    and sig: "onlyif (px_type (objs s3 h) = BLOCKING) (close_member K h PSignal) s3 = Ret () s4"
    and w: "close_member K h PWatch s4 = Ret () t"
    by (auto simp: close_fork_pipes_def this_gets_def ret_iffs)
  have "?A {PStdin} s1" using A by (intro step [OF c(1)]) (simp_all add: mid_def)
  then have "?A {PStdout, PStdin} s2" by (rule step [OF c(2)]) simp
  then have A3: "?A {PStderr, PStdout, PStdin} s3" by (rule step [OF c(3)]) simp
  with sig have "s4 = s3" by (auto simp: held_def at_def ret_iffs)
  then have "?A {PWatch, PStderr, PStdout, PStdin} t" using A3 by (intro step [OF w]) simp_all
  moreover have "n \<in> {PWatch, PStderr, PStdout, PStdin} \<longleftrightarrow> n \<noteq> PSignal" for n by (cases n) auto
  ultimately show "closing g h q P b t" unfolding closing_def shut_def by blast
qed

subsection \<open>The end of a program\<close>

lemma pipe_of_objs: "objs t = objs s \<Longrightarrow> n \<noteq> PSignal \<Longrightarrow> pipe_of n h t = pipe_of n h s"
  by (cases n) simp_all

lemma slot_pipe_frame:
  assumes "objs t = objs s" and "mu_control_pipe t = mu_control_pipe s" and "mu_loop t = mu_loop s"
    and "se_control_pipe (sel t) = se_control_pipe (sel s)"
    and "sigchld_pipe_signal t = sigchld_pipe_signal s"
  shows "slot_pipe t = slot_pipe s"
proof
  fix i
  show "slot_pipe t i = slot_pipe s i"
    using assms pipe_of_objs [OF assms(1)] by (cases i) (simp_all del: pipe_of.simps)
qed

lemma active_idI:
  assumes "active_ok s" and "h \<in> active_handles s" and "mh_proc_stopped (mu_handles s h) = Some pid"
  shows "(pid, h) \<in> set (mu_active s)"
  using assms by (force simp: active_ok_def)

lemma set_delete: "set (AList.delete k xs) = {p \<in> set xs. fst p \<noteq> k}"
  by (auto simp: AList.delete_eq)

lemma active_delete:
  assumes "active_ok s" and "(pid, h) \<in> set (mu_active s)"
  shows "set (AList.delete pid (mu_active s)) = set (mu_active s) - {(pid, h)}"
    "snd ` set (AList.delete pid (mu_active s)) = active_handles s - {h}"
    "pid \<notin> fst ` set (AList.delete pid (mu_active s))"
proof -
  have on: "inj_on fst (set (mu_active s))" "inj_on snd (set (mu_active s))"
    using assms(1) by (simp_all add: active_ok_def distinct_map)
  note inj = on [THEN inj_onD, of _ "(pid, h)"]
  have i: "p = (pid, h)" if "p \<in> set (mu_active s)" "fst p = pid \<or> snd p = h" for p
    using that assms(2) inj [of p] by auto
  then show *: "set (AList.delete pid (mu_active s)) = set (mu_active s) - {(pid, h)}"
    by (auto simp: set_delete)
  show "snd ` set (AList.delete pid (mu_active s)) = active_handles s - {h}"
    unfolding * using assms(2) inj_on_image_set_diff [OF on(2), of "set (mu_active s)" "{(pid, h)}"]
    by simp
  show "pid \<notin> fst ` set (AList.delete pid (mu_active s))"
    by (auto simp: set_delete)
qed

lemma registered_serves: "registered_ok s \<Longrightarrow> map_of (mu_registered s) fd = Some c \<Longrightarrow> serves_fd c fd s"
  by (simp add: registered_ok_def)

lemma registered_known:
  "registered_ok s \<Longrightarrow> h \<in> active_handles s \<Longrightarrow> c \<in> proc_functions h \<Longrightarrow> serves_fd c fd s \<Longrightarrow>
   map_of (mu_registered s) fd = Some c"
  unfolding registered_ok_def by blast

text \<open>Descriptors leave the registry and the event loop together.\<close>

lemma registered_removed:
  fixes s t :: "('k, 'z) multi_world_scheme"
  assumes ok: "registered_ok s" and t: "mu_registered t = fold AList.delete fs (mu_registered s)"
    and stay: "\<And>c fd. map_of (mu_registered s) fd = Some c \<Longrightarrow> fd \<notin> set fs \<Longrightarrow> serves_fd c fd t"
    and known: "\<And>h c fd. h \<in> active_handles t \<Longrightarrow> c \<in> proc_functions h \<Longrightarrow> serves_fd c fd t \<Longrightarrow>
      h \<in> active_handles s \<and> serves_fd c fd s \<and> fd \<notin> set fs"
  shows "registered_ok t" "map_of (mu_registered t) = (map_of (mu_registered s)) |` (- set fs)"
proof -
  show reg: "map_of (mu_registered t) = (map_of (mu_registered s)) |` (- set fs)"
    using rg.del_all [where r = "mu_registered s" and fds = fs] by (simp add: t)
  have "distinct (map fst (fold AList.delete fs xs))" if "distinct (map fst xs)"
    for fs :: "int list" and xs :: "(int \<times> reg_cb) list"
    using that by (induction fs arbitrary: xs) (simp_all add: distinct_delete)
  then have "distinct (map fst (mu_registered t))" using ok by (simp add: registered_ok_def t)
  moreover have "serves_fd c fd t" if "map_of (mu_registered t) fd = Some c" for fd c
    using that stay unfolding reg by (auto simp: restrict_map_def split: if_splits)
  moreover have "map_of (mu_registered t) fd = Some c"
    if "h \<in> active_handles t" "c \<in> proc_functions h" "serves_fd c fd t" for h c fd
    using known [OF that] registered_known [OF ok _ that(2)] unfolding reg by (simp add: restrict_map_def)
  ultimately show "registered_ok t" unfolding registered_ok_def by blast
qed

lemma fold_erase_control: "se_control_pipe (fold erase_event fs e) = se_control_pipe e"
  by (induction fs arbitrary: e) (simp_all add: erase_event_control)

lemma loop_removed:
  fixes s t :: "('k, 'z) multi_world_scheme"
  assumes ok: "loop_ok s" and own: "own_loop t"
    and reg: "map_of (mu_registered t) = (map_of (mu_registered s)) |` (- set fs)"
    and sel: "sel t = fold erase_event fs (sel s)"
    and fs: "\<forall>fd \<in> set fs. map_of (mu_registered s) fd \<noteq> None"
  shows "loop_ok t"
proof -
  let ?c = "fst (se_control_pipe (sel s))"
  have s: "se_wf (sel s)" "map_of (mu_registered s) ?c = None"
    "se_lookup (sel s) = (map_option (\<lambda>_. Some DoAction) \<circ> map_of (mu_registered s)) (?c \<mapsto> None)"
    using ok by (auto simp: loop_ok_def)
  have t: "se_wf (sel t)" "se_lookup (sel t) = (se_lookup (sel s)) |` (- set fs)"
    using se.del_all [OF s(1), of fs] by (simp_all add: sel)
  have c: "?c \<notin> set fs" using fs s(2) by auto
  have "se_lookup (sel t) = (map_option (\<lambda>_. Some DoAction) \<circ> map_of (mu_registered t)) (?c \<mapsto> None)"
    using c by (auto simp: t(2) s(3) reg restrict_map_def fun_eq_iff)
  with t(1) own s(2) show ?thesis by (simp add: loop_ok_def sel fold_erase_control reg restrict_map_def)
qed

definition forgotten :: "nat \<Rightarrow> int \<Rightarrow> ('k, 'z) multi_world_scheme \<Rightarrow> ('k, 'z) multi_world_scheme" where
  "forgotten h pid s = (let fs = watched_fds (mh_fds (mu_handles s h)) in
     s\<lparr>mu_registered := fold AList.delete fs (mu_registered s),
       sel := fold erase_event fs (sel s), mu_active := AList.delete pid (mu_active s)\<rparr>)"

lemma watched_registered:
  assumes "registered_ok s" and "h \<in> active_handles s"
  defines "fds \<equiv> mh_fds (mu_handles s h)"
  shows "map_of (mu_registered s) (watch_close_write_fd fds) = Some (RClose h)"
    "map_of (mu_registered s) (stdout_read_fd fds) = Some (RStdout h)"
    "map_of (mu_registered s) (stderr_read_fd fds) = Some (RStderr h)"
    "distinct (watched_fds fds)"
proof -
  show r: "map_of (mu_registered s) (watch_close_write_fd fds) = Some (RClose h)"
    "map_of (mu_registered s) (stdout_read_fd fds) = Some (RStdout h)"
    "map_of (mu_registered s) (stderr_read_fd fds) = Some (RStderr h)"
    using assms(2) unfolding fds_def
    by (intro registered_known [OF assms(1,2)]; simp add: proc_functions_def)+
  then show "distinct (watched_fds fds)" by (auto simp: watched_fds_def)
qed

text \<open>The watched descriptors are those under which a function of the handle is registered.\<close>

lemma watched_iff:
  assumes "registered_ok s" and "h \<in> active_handles s"
  shows "fd \<in> set (watched_fds (mh_fds (mu_handles s h))) \<longleftrightarrow>
    (\<exists>c \<in> proc_functions h. map_of (mu_registered s) fd = Some c)"
proof
  show "fd \<in> set (watched_fds (mh_fds (mu_handles s h))) \<Longrightarrow>
      \<exists>c \<in> proc_functions h. map_of (mu_registered s) fd = Some c"
    using watched_registered [OF assms] by (auto simp: watched_fds_def proc_functions_def)
  assume "\<exists>c \<in> proc_functions h. map_of (mu_registered s) fd = Some c"
  then obtain c where "c \<in> proc_functions h" "serves_fd c fd s"
    using registered_serves [OF assms(1)] by blast
  then show "fd \<in> set (watched_fds (mh_fds (mu_handles s h)))"
    by (auto simp: watched_fds_def proc_functions_def)
qed

lemma forgotten_simps [simp]:
  "objs (forgotten h pid s) = objs s" "mu_handles (forgotten h pid s) = mu_handles s"
  "mu_control_pipe (forgotten h pid s) = mu_control_pipe s" "mu_loop (forgotten h pid s) = mu_loop s"
  "sigchld_pipe_signal (forgotten h pid s) = sigchld_pipe_signal s"
  "sigchld_sa_prev (forgotten h pid s) = sigchld_sa_prev s"
  "sigchld_active (forgotten h pid s) = sigchld_active s" "mu_sigchld (forgotten h pid s) = mu_sigchld s"
  "se_control_pipe (sel (forgotten h pid s)) = se_control_pipe (sel s)"
  "trace (forgotten h pid s) = trace s" "mu_buffer (forgotten h pid s) = mu_buffer s"
  "mu_register (forgotten h pid s) = mu_register s"
  "mu_active (forgotten h pid s) = AList.delete pid (mu_active s)"
  by (simp_all add: forgotten_def Let_def fold_erase_control)

lemma forgotten_registered:
  assumes ok: "registered_ok s" "loop_ok s" "active_ok s" and mem: "(pid, h) \<in> set (mu_active s)"
  shows "registered_ok (forgotten h pid s)" "loop_ok (forgotten h pid s)"
proof -
  let ?t = "forgotten h pid s" and ?fs = "watched_fds (mh_fds (mu_handles s h))"
  have act: "h \<in> active_handles s" using mem by force
  have serves: "serves_fd c fd ?t \<longleftrightarrow> serves_fd c fd s \<and> c \<notin> proc_functions h" for c fd
    using active_delete(2) [OF ok(3) mem] by (cases c) (auto simp: proc_functions_def)
  have reg: "mu_registered ?t = fold AList.delete ?fs (mu_registered s)"
    by (simp add: forgotten_def Let_def)
  have stay: "serves_fd c fd ?t" if "map_of (mu_registered s) fd = Some c" "fd \<notin> set ?fs" for c fd
    using that registered_serves [OF ok(1)] watched_iff [OF ok(1) act, of fd] by (auto simp: serves)
  have known: "h' \<in> active_handles s \<and> serves_fd c fd s \<and> fd \<notin> set ?fs"
    if h': "h' \<in> active_handles ?t" "c \<in> proc_functions h'" "serves_fd c fd ?t" for h' c fd
  proof -
    have "h' \<in> active_handles s" "serves_fd c fd s" "c \<notin> proc_functions h"
      using h' active_delete(2) [OF ok(3) mem] by (auto simp: serves)
    moreover from this have "map_of (mu_registered s) fd = Some c"
      using h'(2) by (intro registered_known [OF ok(1)])
    ultimately show ?thesis using watched_iff [OF ok(1) act, of fd] by auto
  qed
  note r = registered_removed [OF ok(1) reg stay known]
  show "registered_ok ?t" by (rule r(1))
  show "loop_ok ?t"
    using ok(2) watched_iff [OF ok(1) act]
    by (intro loop_removed [OF ok(2) _ r(2)]) (auto simp: loop_ok_def own_loop_def forgotten_def Let_def)
qed

lemma books_forgotten:
  assumes a: "at g h (Some pid) {h} P s" and act: "h \<in> active_handles s"
    and closed: "shut h s" "ended h s"
  shows "at g h (Some pid) {} P (forgotten h pid s)"
    "pid \<notin> fst ` set (mu_active (forgotten h pid s))"
proof -
  let ?t = "forgotten h pid s"
  have ok: "registered_ok s" "loop_ok s" "active_ok s" "open_ok {h} s" "queue_ok s" "ground_ok g s"
    "children_ok P s" using a by (auto simp: at_def books_def)
  have mem: "(pid, h) \<in> set (mu_active s)" using a act ok(3) by (intro active_idI) (auto simp: at_def)
  note d = active_delete [OF ok(3) mem]
  show "pid \<notin> fst ` set (mu_active ?t)" using d(3) by simp
  have pipes: "pipe_of n h' ?t = pipe_of n h' s" if "n \<noteq> PSignal" for n h'
    using that by (intro pipe_of_objs) simp_all
  have "active_ok ?t"
    using ok(3) d(1) by (auto simp: active_ok_def AList.delete_eq intro: distinct_map_filter)
  moreover have "slot_pipe ?t = slot_pipe s" by (rule slot_pipe_frame) simp_all
  then have "ground_ok g ?t" using ok(6) by (simp add: ground_ok_def)
  moreover have shut: "shut h' ?t \<longleftrightarrow> shut h' s" for h' by (rule shut_cong [OF pipes])
  have ended: "ended h' ?t \<longleftrightarrow> ended h' s" for h' by (simp add: ended_def)
  have untouched: "untouched h' ?t \<longleftrightarrow> untouched h' s" for h' by (simp add: untouched_def shut ended)
  then have "settled h' ?t \<longleftrightarrow> settled h' s" for h' by (simp add: settled_def shut ended)
  with ok(4) d(2) closed have "open_ok {} ?t"
    using has_pipes_cong [OF pipes] by (auto simp: open_ok_def settled_def ended)
  moreover from untouched have "queue_ok ?t" using ok(5) by (simp add: queue_ok_def)
  moreover have "children_ok P ?t" using ok(7) d(1) by (auto simp: children_ok_def)
  ultimately show "at g h (Some pid) {} P ?t"
    using a forgotten_registered [OF ok(1-3) mem] by (simp add: at_def books_def)
qed

lemma ext_calm: "pres (calm H) m \<Longrightarrow> pres extends m"
  by (erule pres_mono) (rule calm_extends)

lemma ext_upd: "(\<And>s. trace (f s) = trace s) \<Longrightarrow> pres extends (upd f)"
  by (rule pres_upd) (simp add: extends_def)

lemma ext_upd_sel: "pres extends (upd_sel f)"
  unfolding upd_sel_def by (rule ext_upd) simp

lemma ext_this: "pres extends (this_upd h f)" "pres extends (handle_upd h k)"
  unfolding this_upd_def handle_upd_def by (rule ext_upd, simp)+

context multi_client begin

lemma ext_register:
  "pres extends (mu_add_read_event K U fd cb)" "pres extends (mu_remove_read_event K U fd)"
proof -
  have "pres extends (register_call K U fd act what)" for act what
    unfolding register_call_def se_add_read_event_def se_remove_read_event_def
    by (auto intro!: ex.pres_intros ext_upd_sel ext_calm [OF user_register]
        split: register_cb.split fd_action.split)
  then show "pres extends (mu_add_read_event K U fd cb)" "pres extends (mu_remove_read_event K U fd)"
    unfolding mu_add_read_event_def mu_remove_read_event_def
    by (intro ex.pres_intros ext_upd; simp)+
qed

lemma ext_proc_stopped: "pres extends (proc_stopped K U h pid)"
  unfolding proc_stopped_def handle_gets_def send_job_nullptr_stop_def
  by (intro ex.pres_intros ext_register ext_upd ext_calm [OF calm_send_job]; simp)

lemma triple_proc_stopped:
  "triple (ending g h (Some pid) P b) (proc_stopped K U h pid) (\<lambda>_. over g h (Some pid) P b)"
proof (rule tripleI)
  show "proc_stopped K U h pid s = Ret r t \<Longrightarrow> extends s t" for s r t
    by (rule presD [OF ext_proc_stopped])
  fix s r t
  assume m: "ending g h (Some pid) P b s" and run: "proc_stopped K U h pid s = Ret r t"
  then have a: "at g h (Some pid) {h} P s" and closed: "shut h s" "ended h s"
    by (simp_all add: ending_def closing_def held_def)
  then have ok: "registered_ok s" "loop_ok s" by (auto simp: at_def books_def)
  have al: "alive h s" using run by (auto simp: proc_stopped_def ret_iffs)
  have act: "h \<in> active_handles s"
    using al unfolding alive_def
  proof
    assume "\<exists>c \<in> snd ` set (mu_registered s). refers h c"
    then obtain fd c where "(fd, c) \<in> set (mu_registered s)" and c: "refers h c" by auto
    then have "map_of (mu_registered s) fd = Some c"
      using ok(1) by (simp add: registered_ok_def)
    then have "serves_fd c fd s" by (rule registered_serves [OF ok(1)])
    with c show ?thesis by (cases c) auto
  qed
  note w = watched_registered [OF ok(1) act]
  have "\<forall>fd \<in> set (watched_fds (mh_fds (mu_handles s h))). se_lookup (sel s) fd \<noteq> None"
    using w ok(2) by (auto simp: watched_fds_def loop_ok_def)
  then have "onlyif (mu_stopping s \<and> AList.delete pid (mu_active s) = []) (send_job_nullptr_stop K)
      (forgotten h pid s) = Ret r t"
    using run proc_stopped_run [OF _ al w(4), of K U pid] ok(2)
    by (simp add: loop_ok_def forgotten_def Let_def)
  then have c: "calm {} (forgotten h pid s) t"
    using calm_send_job [of None "{}" K]
    by (auto simp: send_job_nullptr_stop_def pres_def ret_iffs ca.R_refl split: if_splits)
  have "unborn b h (forgotten h pid s)" "ended h (forgotten h pid s)"
    using m by (simp_all add: ending_def closing_def held_def unborn_def ended_def)
  with books_forgotten [OF a act closed] have "over g h (Some pid) P b (forgotten h pid s)"
    by (simp add: over_def held_def)
  with c show "over g h (Some pid) P b t" by (rule calm_over)
qed

lemma ending_watched: "ending g h q P b s \<Longrightarrow> q = mh_proc_stopped (mu_handles s h)"
  by (simp add: ending_def closing_def held_def at_def)

lemma ending_unwatched: "ending g h None P b s \<Longrightarrow> over g h None P b s"
proof -
  assume m: "ending g h None P b s"
  then have "h \<notin> active_handles s"
    by (auto simp: ending_def closing_def held_def at_def books_def active_ok_def)
  with m show "over g h None P b s"
    by (auto simp: ending_def closing_def over_def held_def at_def books_def open_ok_def settled_def)
qed

text \<open>Changing the record of the object or of the handle.\<close>

lemma quiet_this_upd:
  assumes "at g h q F P s"
    and "\<And>x. px_type (f x) = px_type x \<and> px_pipe_stdin (f x) = px_pipe_stdin x \<and>
      px_pipe_stdout (f x) = px_pipe_stdout x \<and> px_pipe_stderr (f x) = px_pipe_stderr x \<and>
      px_pipe_close_watch (f x) = px_pipe_close_watch x"
    and "h \<in> F \<or> q \<noteq> None \<or> ended h s"
  shows "at g h q F P (s\<lparr>objs := (objs s)(h := f (objs s h))\<rparr>)" (is "at g h q F P ?t")
proof (rule aside_quiet [OF _ assms(1), where es = "[]"])
  show "aside h s ?t" using assms(2) by (simp add: aside_def kept_books_def)
  show "n \<noteq> PSignal \<Longrightarrow> pipe_of n h ?t = pipe_of n h s" for n
    using assms(2) by (cases n) simp_all
  show "h \<in> F \<or> \<not> untouched h s \<and> (ended h ?t \<longleftrightarrow> ended h s)"
    using assms(1,3) by (auto simp: at_def untouched_def ended_def)
qed simp_all

lemma quiet_handle_upd:
  assumes "at g h q F P s" and "h \<in> F"
    and "\<And>x. mh_fds (f x) = mh_fds x \<and> mh_proc_stopped (f x) = mh_proc_stopped x"
  shows "at g h q F P (s\<lparr>mu_handles := (mu_handles s)(h := f (mu_handles s h))\<rparr>)"
    (is "at g h q F P ?t")
proof (rule aside_quiet [OF _ assms(1), where es = "[]"])
  show "aside h s ?t" using assms(3) by (simp add: aside_def kept_books_def)
  show "n \<noteq> PSignal \<Longrightarrow> pipe_of n h ?t = pipe_of n h s" for n
    by (cases n) simp_all
qed (use assms(2) in simp_all)

lemma ext_handle_state: "pres extends (handle_state U h st p)"
proof -
  have "pres extends (k st p)" if "hu_state (us_handle U h) = Some k" for k
  proof (rule presI)
    fix s a t
    assume "k st p s = Ret a t"
    from user_state [OF that this] show "extends s t" by (blast intro: calm_extends)
  qed
  then show ?thesis
    unfolding handle_state_def by (intro ex.pres_intros ext_this)
qed

lemma triple_handle_state:
  assumes final: "final_state st"
  shows "triple (\<lambda>s. closing g h q P b s \<and> (b \<longrightarrow> ps_pid p = 0)) (handle_state U h st p)
    (\<lambda>p' s. ending g h q P b s \<and> (b \<longrightarrow> ps_pid p' = 0))"
proof (rule tripleI)
  show "handle_state U h st p s = Ret r t \<Longrightarrow> extends s t" for s r t
    by (rule presD [OF ext_handle_state])
  fix s r t
  assume "closing g h q P b s \<and> (b \<longrightarrow> ps_pid p = 0)" and run: "handle_state U h st p s = Ret r t"
  then have m: "closing g h q P b s" and p0: "b \<longrightarrow> ps_pid p = 0" by blast+
  let ?set = "\<lambda>u f. u\<lparr>mu_handles := (mu_handles u)(h := f (mu_handles u h))\<rparr>"
  let ?f = "\<lambda>x. x\<lparr>mh_ret := (mh_ret x)\<lparr>st_proc := r\<rparr>\<rparr>" and
    ?g = "\<lambda>x. x\<lparr>mh_ret := (mh_ret x)\<lparr>st_state := st\<rparr>\<rparr>"
  from run obtain u where u: "(case hu_state (us_handle U h) of None \<Rightarrow> ret p | Some f \<Rightarrow> f st p) s = Ret r u"
    and t: "t = ?set (?set u ?f) ?g"
    by (auto simp: handle_state_def handle_upd_def ret_iffs)
  have c: "calm {} s u \<and> ps_pid r = ps_pid p"
    using u user_state by (auto simp: ret_iffs ca.R_refl split: option.splits)
  then have mu: "closing g h q P b u" using calm_closing m by blast
  then have "at g h q {h} P (?set u ?f)" by (intro quiet_handle_upd) (simp_all add: closing_def held_def)
  then have "at g h q {h} P t" unfolding t by (rule quiet_handle_upd) simp_all
  moreover have "unborn b h t" using mu c p0 by (auto simp: t closing_def held_def unborn_def)
  moreover have "ended h t" using final by (simp add: t ended_def)
  moreover have "shut h t \<longleftrightarrow> shut h u" by (intro shut_cong pipe_of_objs) (simp_all add: t)
  ultimately show "ending g h q P b t \<and> (b \<longrightarrow> ps_pid r = 0)"
    using c p0 mu by (simp add: ending_def closing_def held_def)
qed

lemma triple_handle_final:
  "triple (ending g h q P b) (handle_final K U h) (\<lambda>_. over g h q P b)"
proof -
  have light: "pres (calm {h}) (handle_upd h (\<lambda>x. x\<lparr>mh_ret := (mh_ret x)\<lparr>st_proc_out := mh_stdout_oss x\<rparr>\<rparr>))"
    "pres (calm {h}) (handle_upd h (\<lambda>x. x\<lparr>mh_ret := (mh_ret x)\<lparr>st_proc_err := mh_stderr_oss x\<rparr>\<rparr>))"
    by (auto intro!: calm_handle_upd simp: light_handle_def)
  have "pres (calm {h}) (case hu_on_stop (us_handle U h) of None \<Rightarrow> skip
      | Some f \<Rightarrow> bind (handle_gets h mh_ret) f)"
    unfolding handle_gets_def by (auto intro!: ca.pres_intros intro: user_calm split: option.split)
  note steps = light this
  have "triple (ending g h q P b) (bind (handle_gets h mh_proc_stopped) (\<lambda>cb.
      case cb of None \<Rightarrow> skip | Some pid \<Rightarrow> proc_stopped K U h pid)) (\<lambda>_. over g h q P b)"
    unfolding handle_gets_def
  proof (intro triple_gets triple_option)
    fix v :: "int option"
    assume "v = None"
    then show "triple (\<lambda>s. ending g h q P b s \<and> mh_proc_stopped (mu_handles s h) = v) skip
        (\<lambda>_. over g h q P b)"
      by (intro triple_skip) (metis ending_watched ending_unwatched)
  next
    fix v :: "int option" and pid
    assume "v = Some pid"
    then show "triple (\<lambda>s. ending g h q P b s \<and> mh_proc_stopped (mu_handles s h) = v)
        (proc_stopped K U h pid) (\<lambda>_. over g h q P b)"
      by (cases "q = v") (auto intro!: tripleI dest: ending_watched
          intro: triple_extends [OF triple_proc_stopped] tripleD [OF triple_proc_stopped])
  qed
  then show ?thesis
    unfolding handle_final_def
    by (intro triple_Cons [OF triple_calm_closing(2) [OF steps(1)]] triple_Cons [OF triple_calm_closing(2) [OF steps(2)]]
        triple_Cons [OF triple_calm_closing(2) [OF steps(3)]] triple_Cons [where M = "over g h q P b"] triple_Nil)
qed

lemma set_proc_held:
  assumes "held g h q F P b s" and "b \<longrightarrow> ps_pid p = 0" and "h \<in> F \<or> q \<noteq> None \<or> ended h s"
  shows "held g h q F P b (s\<lparr>objs := (objs s)(h := (objs s h)\<lparr>px_proc := p\<rparr>)\<rparr>)"
  using assms quiet_this_upd [of g h q F P s "\<lambda>x. x\<lparr>px_proc := p\<rparr>"]
  by (simp add: held_def unborn_def)

lemma set_proc_mid:
  "mid g h q F P b s \<Longrightarrow> b \<longrightarrow> ps_pid p = 0 \<Longrightarrow> h \<in> F \<or> q \<noteq> None \<Longrightarrow>
   mid g h q F P b (s\<lparr>objs := (objs s)(h := (objs s h)\<lparr>px_proc := p\<rparr>)\<rparr>)"
  using set_proc_held [of g h q F P b s p] by (auto simp: mid_def ended_def)

lemma set_proc_over:
  "over g h q P b s \<Longrightarrow> b \<longrightarrow> ps_pid p = 0 \<Longrightarrow>
   over g h q P b (s\<lparr>objs := (objs s)(h := (objs s h)\<lparr>px_proc := p\<rparr>)\<rparr>)"
  using set_proc_held [of g h q "{}" P b s p] by (simp add: over_def ended_def)

text \<open>The state callback: in a final state the manager forgets the program.\<close>

lemma triple_state_final:
  assumes "final_state st"
  shows "triple (\<lambda>s. closing g h q P b s \<and> (b \<longrightarrow> ps_pid p = 0))
    (pc_state (handle_callbacks K U h) st p) (\<lambda>p' s. over g h q P b s \<and> (b \<longrightarrow> ps_pid p' = 0))"
proof -
  have final: "triple (\<lambda>s. ending g h q P b s \<and> (b \<longrightarrow> ps_pid p' = 0))
      (seq (onlyif (final_state st) (handle_final K U h)) (ret p'))
      (\<lambda>p' s. over g h q P b s \<and> (b \<longrightarrow> ps_pid p' = 0))" for p'
    using assms triple_seq [OF triple_frame [OF triple_handle_final] triple_ret]
    by (simp add: onlyif_def)
  have kept: "triple (\<lambda>s. closing g h q P b s \<and> (b \<longrightarrow> ps_pid p = 0)) (handle_state U h st p)
      (\<lambda>p' s. ending g h q P b s \<and> (b \<longrightarrow> ps_pid p' = 0))"
    by (rule triple_handle_state [OF assms])
  show ?thesis
    unfolding handle_callbacks_def pexec_callbacks.simps by (rule triple_bind [OF kept final])
qed

lemma triple_call_state_final:
  assumes "final_state st"
  shows "triple (closing g h q P b) (call_state (handle_callbacks K U h) h st) (\<lambda>_. over g h q P b)"
  unfolding call_state_def this_gets_def
proof (rule triple_gets)
  fix p :: proc_status
  let ?M = "\<lambda>s. closing g h q P b s \<and> (b \<longrightarrow> ps_pid p = 0)"
  have noted: "triple ?M (note_event (EState st p)) (\<lambda>_. ?M)"
    by (intro triple_frame triple_calm_closing(1) [where H = "{}"] calm_sys) simp
  have set: "triple (\<lambda>s. over g h q P b s \<and> (b \<longrightarrow> ps_pid p' = 0)) (this_upd h (\<lambda>x. x\<lparr>px_proc := p'\<rparr>))
      (\<lambda>_. over g h q P b)" for p'
    unfolding this_upd_def by (rule triple_upd) (auto intro: set_proc_over)
  have "triple ?M (seq (note_event (EState st p)) (bind (pc_state (handle_callbacks K U h) st p)
      (\<lambda>p'. this_upd h (\<lambda>x. x\<lparr>px_proc := p'\<rparr>)))) (\<lambda>_. over g h q P b)"
    by (rule triple_seq [OF noted triple_bind [OF triple_state_final [OF assms] set]])
  then show "triple (\<lambda>s. closing g h q P b s \<and> px_proc (objs s h) = p)
      (seq (note_event (EState st p)) (bind (pc_state (handle_callbacks K U h) st p)
        (\<lambda>p'. this_upd h (\<lambda>x. x\<lparr>px_proc := p'\<rparr>)))) (\<lambda>_. over g h q P b)"
    by (rule triple_pre) (auto simp: closing_def held_def unborn_def)
qed

text \<open>A state that is not final: the record of the handle gets the process id of the object.\<close>

lemma calm_call_state:
  assumes "\<not> final_state st" and nb: "nonblocking h s" and alive: "\<not> ended h s"
    and run: "call_state (handle_callbacks K U h) h st s = Ret r t"
  shows "calm {h} s t" "handle_pid_of h t = ps_pid (px_proc (objs s h))"
    "ps_running (px_proc (objs t h)) = ps_running (px_proc (objs s h))"
proof -
  let ?p = "px_proc (objs s h)" and ?s = "s\<lparr>trace := EState st (px_proc (objs s h)) # trace s\<rparr>"
  let ?set = "\<lambda>u f. u\<lparr>mu_handles := (mu_handles u)(h := f (mu_handles u h))\<rparr>"
  from run assms(1) obtain p u where
    u: "(case hu_state (us_handle U h) of None \<Rightarrow> ret ?p | Some f \<Rightarrow> f st ?p) ?s = Ret p u"
    and t: "t = (let v = ?set (?set u (\<lambda>x. x\<lparr>mh_ret := (mh_ret x)\<lparr>st_proc := p\<rparr>\<rparr>))
        (\<lambda>x. x\<lparr>mh_ret := (mh_ret x)\<lparr>st_state := st\<rparr>\<rparr>)
      in v\<lparr>objs := (objs v)(h := (objs v h)\<lparr>px_proc := p\<rparr>)\<rparr>)"
    by (auto simp: call_state_def this_gets_def note_event_def handle_callbacks_def handle_state_def
        handle_upd_def this_upd_def onlyif_def ret_iffs Let_def)
  have c: "calm {} ?s u \<and> ps_running p = ps_running ?p \<and> ps_pid p = ps_pid ?p"
    using u user_state by (auto simp: ret_iffs ca.R_refl split: option.splits)
  then have su: "calm {h} s u" and p: "ps_pid p = ps_pid ?p"
    using c presD [OF calm_sys(9) [where ev = "EState st ?p"], of s "()" ?s]
    by (auto simp: note_event_def prog_simps intro: ca.R_trans calm_mono)
  have same: "objs u h = objs s h"
    using c nb by (auto simp: calm_def)
  have "pipe_of n h t = pipe_of n h u" if "n \<noteq> PSignal" for n
    using that by (cases n) (simp_all add: t Let_def)
  then have "calm {h} u t"
    using same p nb alive su assms(1)
    by (intro calm_selfI [where es = "[]"])
       (auto simp: t Let_def kept_books_def kept_self_def ended_def calm_def)
  with su show "calm {h} s t" by (rule ca.R_trans)
  show "handle_pid_of h t = ps_pid ?p" by (simp add: t Let_def p)
  show "ps_running (px_proc (objs t h)) = ps_running ?p" using c by (simp add: t Let_def)
qed

lemma triple_call_state:
  assumes "\<not> final_state st"
  shows "triple (\<lambda>s. mid g h q F P False s \<and> ps_running (px_proc (objs s h)) = x)
    (call_state (handle_callbacks K U h) h st)
    (\<lambda>_ s. mid g h q F P False s \<and> ps_running (px_proc (objs s h)) = x)"
proof (rule tripleI)
  show "call_state (handle_callbacks K U h) h st s = Ret r t \<Longrightarrow> extends s t" for s r t
    using assms unfolding call_state_def handle_callbacks_def this_gets_def
    by (auto elim!: presD [rotated] intro!: ex.pres_intros ext_handle_state ext_this pres_extends_note)
  fix s r t
  assume m: "mid g h q F P False s \<and> ps_running (px_proc (objs s h)) = x"
    and run: "call_state (handle_callbacks K U h) h st s = Ret r t"
  then have "nonblocking h s" "\<not> ended h s" by (simp_all add: mid_iff at_def)
  note c = calm_call_state [OF assms this run]
  from calm_mid [OF c(1)] c(3) m
  show "mid g h q F P False t \<and> ps_running (px_proc (objs t h)) = x" by simp
qed

text \<open>Every way to stop: the pipes are closed, then the manager is told.\<close>

lemma mid_closing: "mid g h q F P b s \<Longrightarrow> mid g h q (insert h F) P b s"
  by (auto simp: mid_iff at_def books_def open_ok_def)

lemma mid_books: "mid g h q F P b s \<Longrightarrow> books g F P s" "mid g h q F P b s \<Longrightarrow> nonblocking h s"
  by (simp_all add: mid_iff at_def)

lemma over_books: "over g h q P b s \<Longrightarrow> books g {} P s"
  by (simp add: over_def held_def at_def)

lemma triple_light:
  "light f \<Longrightarrow> triple (mid g h q F P b) (this_upd h f) (\<lambda>_. mid g h q F P b)"
  by (rule triple_calm_mid [OF calm_this_upd])

lemma triple_error:
  "triple (mid g h q F P b) (process_error (handle_callbacks K U h) h e) (\<lambda>_. mid g h q F P b)"
  by (rule triple_calm_mid [OF calm_process_error])

lemma triple_closing:
  "final_state st \<Longrightarrow> triple (mid g h q {h} P b)
    (block [close_fork_pipes K h, call_state (handle_callbacks K U h) h st]) (\<lambda>_. over g h q P b)"
  by (rule triple_Cons [OF triple_close_fork_pipes triple_Cons [OF triple_call_state_final triple_Nil]])

lemma triple_stops:
  "triple (mid g h q {h} P b) (fail_stopped K (handle_callbacks K U h) h) (\<lambda>_. over g h q P b)"
  "triple (mid g h q {h} P b) (user_stopped K (handle_callbacks K U h) h) (\<lambda>_. over g h q P b)"
  "triple (mid g h q {h} P b) (stopped N K (handle_callbacks K U h) h) (\<lambda>_. over g h q P b)"
  "triple (mid g h q {h} P b) (give_up K (handle_callbacks K U h) h e)
     (\<lambda>r s. over g h q P b s \<and> r = False)"
proof -
  show fail: "triple (mid g h q {h} P b) (fail_stopped K (handle_callbacks K U h) h) (\<lambda>_. over g h q P b)"
    unfolding fail_stopped_def by (rule triple_closing) (simp add: final_state_def)
  show "triple (mid g h q {h} P b) (user_stopped K (handle_callbacks K U h) h) (\<lambda>_. over g h q P b)"
    unfolding user_stopped_def
    by (intro triple_Cons [OF triple_light] triple_closing) (simp_all add: light_def final_state_def)
  show "triple (mid g h q {h} P b) (stopped N K (handle_callbacks K U h) h) (\<lambda>_. over g h q P b)"
    unfolding stopped_def
    by (intro triple_Cons [OF triple_calm_mid [OF calm_loop_rest_io]] triple_closing)
       (simp add: final_state_def)
  show "triple (mid g h q {h} P b) (give_up K (handle_callbacks K U h) h e)
     (\<lambda>r s. over g h q P b s \<and> r = False)"
    unfolding give_up_def
    by (rule triple_seq [OF triple_Cons [OF triple_error triple_Cons [OF fail triple_Nil]] triple_ret])
       simp_all
qed

subsection \<open>Output and status of a running program\<close>

lemma triple_reader_error:
  "triple (mid g h q {} P b) (reader_error K (handle_callbacks K U h) h e) (\<lambda>_. books g {} P)"
  unfolding reader_error_def this_gets_def
proof (rule triple_seq [OF triple_error triple_gets])
  fix ty
  show "triple (\<lambda>s. mid g h q {} P b s \<and> px_type (objs s h) = ty)
      (if ty = NONBLOCKING then seq (fail_stopped K (handle_callbacks K U h) h) (ret NOTHING)
       else ret STOP_LOOP) (\<lambda>_. books g {} P)"
    by (rule triple_if; rule triple_pre [OF triple_seq [OF triple_stops(1) triple_ret]] triple_ret)
       (auto intro: over_books mid_books mid_closing)
qed

lemma triple_read_std:
  "triple (mid g h q {} P b) (read_std N K (handle_callbacks K U h) h fd ch e) (\<lambda>_. books g {} P)"
proof -
  let ?I = "mid g h q {} P b"
  have "triple ?I (if length d = 0 then ret SKIP_OTHER_FD
      else seq (block [terminate_buffer h (length d), deliver (handle_callbacks K U h) h ch (length d)])
             (ret NOTHING)) (\<lambda>_. books g {} P)" for d :: string
    by (intro triple_if triple_seq [OF triple_Cons [OF triple_calm_mid [OF calm_buffer(2)]
            triple_Cons [OF triple_calm_mid [OF calm_deliver] triple_Nil]]] triple_ret)
       (simp_all add: mid_iff at_def)
  note data = triple_seq [OF triple_calm_mid [OF calm_buffer(1)] this]
  have "triple (\<lambda>s. ?I s \<and> length (px_read_buffer (objs s h)) - 1 = n)
      (bind (read_retry N K fd n) (\<lambda>r. case r of
         Inl _ \<Rightarrow> reader_error K (handle_callbacks K U h) h e
       | Inr d \<Rightarrow> seq (store_read h d) (if length d = 0 then ret SKIP_OTHER_FD
           else seq (block [terminate_buffer h (length d),
             deliver (handle_callbacks K U h) h ch (length d)]) (ret NOTHING)))) (\<lambda>_. books g {} P)" for n
    by (rule triple_pre [OF triple_bind [OF triple_calm_mid [OF calm_sys(6)] triple_sum]];
        (rule triple_reader_error data | blast))
  then show ?thesis
    unfolding read_std_def buffer_room_def this_gets_def by (rule triple_gets)
qed

lemma triple_readers:
  "triple (mid g h q {} P b) (read_stdout N K (handle_callbacks K U h) h) (\<lambda>_. books g {} P)"
  "triple (mid g h q {} P b) (read_stderr N K (handle_callbacks K U h) h) (\<lambda>_. books g {} P)"
  "triple (mid g h q {} P b) (read_close N K (handle_callbacks K U h) h) (\<lambda>_. books g {} P)"
proof -
  show "triple (mid g h q {} P b) (read_stdout N K (handle_callbacks K U h) h) (\<lambda>_. books g {} P)"
    "triple (mid g h q {} P b) (read_stderr N K (handle_callbacks K U h) h) (\<lambda>_. books g {} P)"
    unfolding read_stdout_def read_stderr_def
    by (intro triple_gets triple_pre [OF triple_read_std]; simp)+
  let ?C = "handle_callbacks K U h" and ?I = "mid g h q {} P b"
  have "triple (\<lambda>s. ?I s \<and> px_type (objs s h) = ty)
      (seq (onlyif (ty = NONBLOCKING) (user_stopped K ?C h)) (ret NOTHING)) (\<lambda>_. books g {} P)" for ty
    by (rule triple_seq [where M = "books g {} P", OF triple_onlyif triple_ret])
       (auto intro!: triple_weaken [OF triple_stops(2)] intro: over_books mid_closing dest: mid_books)
  then have data: "triple ?I (seq (store_read h d) (bind (gets (\<lambda>s. px_type (objs s h))) (\<lambda>ty.
      seq (onlyif (ty = NONBLOCKING) (user_stopped K ?C h)) (ret NOTHING)))) (\<lambda>_. books g {} P)"
    for d :: string
    by (intro triple_seq [OF triple_calm_mid [OF calm_buffer(1)]] triple_gets)
  show "triple ?I (read_close N K ?C h) (\<lambda>_. books g {} P)"
    unfolding read_close_def buffer_room_def this_gets_def
    by (rule triple_gets, rule triple_gets, rule triple_pre [OF triple_bind [OF
            triple_calm_mid [OF calm_sys(6)] triple_sum]];
        (rule triple_reader_error data | blast))
qed

lemma triple_return_code:
  "triple (mid g h q F P b) (handle_proc_return_code (handle_callbacks K U h) h)
     (\<lambda>_. mid g h q F P b)"
  unfolding handle_proc_return_code_def this_gets_def
  by (intro triple_gets triple_option) (auto intro!: triple_skip triple_pre [OF triple_error])

text \<open>
  A child that was waited for: if its status is a final one, it leaves the active processes;
  if it is not, the child still exists.
\<close>

definition reaped :: "int \<Rightarrow> 32 word \<Rightarrow> int set" where
  "reaped pid st = (if terminal_status st then {pid} else {})"

lemma books_reaped: "books g {} {pid} s \<Longrightarrow> pid \<notin> fst ` set (mu_active s) \<Longrightarrow> books g {} {} s"
  by (auto simp: books_def children_ok_def)

lemma triple_update_status:
  "triple (mid g h (Some pid) {} (reaped pid st) False) (update_status N K (handle_callbacks K U h) h st)
     (\<lambda>_. books g {} {})"
proof -
  let ?C = "handle_callbacks K U h" and ?P = "reaped pid st"
  let ?I = "mid g h (Some pid) {} ?P False"
  let ?R = "\<lambda>s. ?I s \<and> ps_running (px_proc (objs s h)) = (\<not> terminal_status st)"
  have upd: "triple ?I (this_upd h (\<lambda>x. x\<lparr>px_proc := update_proc_status st (px_proc x)\<rparr>)) (\<lambda>_. ?R)"
    unfolding this_upd_def
    by (rule triple_upd)
       (auto intro: set_proc_mid simp: update_proc_status_fields terminal_status_def)
  have state: "triple ?R (call_state ?C h SIGNALED) (\<lambda>_. ?R)"
    by (rule triple_call_state) (simp add: final_state_def)
  have last: "triple (\<lambda>s. ?I s \<and> px_type (objs s h) = ty) (onlyif (ty = NONBLOCKING) (stopped N K ?C h))
      (\<lambda>_ s. over g h (Some pid) ?P False s)" for ty
    by (rule triple_onlyif) (auto intro!: triple_pre [OF triple_stops(3)] intro: mid_closing simp: mid_iff at_def)
  have ended: "triple ?I (block [this_upd h (\<lambda>x. x\<lparr>px_proc := (px_proc x)\<lparr>ps_stdin_fd := -1\<rparr>\<rparr>),
                  this_upd h (\<lambda>x. x\<lparr>px_proc_killed := True\<rparr>),
                  handle_proc_return_code ?C h,
                  bind (this_gets h px_type) (\<lambda>ty. onlyif (ty = NONBLOCKING) (stopped N K ?C h))])
      (\<lambda>_. over g h (Some pid) ?P False)"
    unfolding this_gets_def
    by (intro triple_Cons [OF triple_light] triple_Cons [OF triple_return_code]
        triple_Cons [OF triple_gets [OF last]] triple_Nil) (simp_all add: light_def)
  have "books g {} {} s" if "over g h (Some pid) ?P False s" for s
    using that books_reaped over_books by (auto simp: reaped_def over_def held_def at_def split: if_splits)
  then have "triple (\<lambda>s. ?R s \<and> ps_running (px_proc (objs s h)) = r)
      (onlyif (\<not> r) (block [this_upd h (\<lambda>x. x\<lparr>px_proc := (px_proc x)\<lparr>ps_stdin_fd := -1\<rparr>\<rparr>),
                  this_upd h (\<lambda>x. x\<lparr>px_proc_killed := True\<rparr>),
                  handle_proc_return_code ?C h,
                  bind (this_gets h px_type) (\<lambda>ty. onlyif (ty = NONBLOCKING) (stopped N K ?C h))]))
      (\<lambda>_. books g {} {})" for r
    by (intro triple_onlyif triple_weaken [OF ended]) (auto simp: reaped_def mid_iff at_def)
  then show ?thesis
    unfolding update_status_def this_gets_def
    by (intro triple_seq [where M = ?R, OF triple_Cons [OF triple_light triple_Cons [OF upd
            triple_Cons [OF state triple_Nil]]]] triple_gets) (simp_all add: light_def)
qed

end

end
