(* ===== verification/Multi_Start.thy ===== *)
theory Multi_Start
  imports Multi_Steps
begin

section \<open>Starting a program keeps the books\<close>

text \<open>
  From the job in the queue to the entry in \<open>active_procs_\<close>: the object opens its four
  pipes one after the other, forks, and reports; a failure on the way closes what was opened.
  Then the manager files the program under its process id and watches three descriptors, which
  are new to the registry because they are new to the process.
\<close>

subsection \<open>Opening the pipes\<close>

text \<open>The handle is being started and has the pipes \<open>X\<close> so far.\<close>

definition stage :: "ground \<Rightarrow> nat \<Rightarrow> pipe_name set \<Rightarrow> ('k, 'z) multi_world_scheme \<Rightarrow> bool" where
  "stage g h X s \<longleftrightarrow>
     mid g h None {h} {} True s \<and>
     (\<forall>n. n \<noteq> PSignal \<longrightarrow>
        (if n \<in> X then 0 \<le> fst (pipe_of n h s) else fds_of (pipe_of n h s) = {}))"

lemma calm_stage:
  assumes c: "calm H s t" and st: "stage g h X s"
  shows "stage g h X t"
proof -
  have "nonblocking h s" using st by (simp add: stage_def mid_iff at_def)
  then have "kept_self h s t" using c by (simp add: calm_def)
  with st calm_mid [OF c] show ?thesis by (simp add: stage_def kept_self_def del: pipe_of.simps)
qed

lemma triple_calm_stage: "pres (calm H) m \<Longrightarrow> triple (stage g h X) m (\<lambda>_. stage g h X)"
  by (auto simp: triple_def pres_def intro: calm_extends calm_stage)

lemma stage_mid: "stage g h X s \<Longrightarrow> mid g h None {h} {} True s"
  by (simp add: stage_def)

lemma ext_open_member: "pres extends (open_member K h n flags)"
proof -
  have "pres extends (set_pipe n h p)" for p
    by (cases n) (auto intro!: ext_this ext_upd)
  moreover have "pres extends (sys_pipe2 K flags)"
    by (auto simp: pres_def extends_def dest!: sys_pipe2_Ret split: sum.splits)
  ultimately show ?thesis unfolding open_member_def by (intro ex.pres_intros)
qed

lemma open_member_stage:
  fixes s t :: "('k, 'z) multi_world_scheme"
  assumes run: "open_member K h n flags s = Ret ok t" and st: "stage g h X s"
    and n: "n \<noteq> PSignal" "n \<notin> X" and fresh: "fresh_pipes (trace t)"
  shows "if ok then stage g h (insert n X) t else stage g h X t"
proof -
  have m: "mid g h None {h} {} True s" and nb: "nonblocking h s"
    using st by (simp_all add: stage_def mid_iff at_def)
  from run obtain q u where q: "sys_pipe2 K flags s = Ret q u"
    and rest: "(case q of Inl _ \<Rightarrow> ret False | Inr p \<Rightarrow> seq (set_pipe n h p) (ret True)) u = Ret ok t"
    by (auto simp: open_member_def ret_iffs)
  note u = sys_pipe2_Ret [OF q]
  show ?thesis
  proof (cases q)
    case (Inl e)
    with rest u have "adds calm_event s t" "\<not> ok" by (auto simp: ret_iffs adds_def)
    with calm_stage [OF calm_adds st] show ?thesis by simp
  next
    case (Inr p)
    then obtain a b where p: "q = Inr (a, b)" by (cases p) auto
    with rest have set: "set_pipe n h (a, b) u = Ret () t" and ok by (auto simp: ret_iffs)
    from set_pipe_object [OF n(1) set] obtain x where
      x: "t = u\<lparr>objs := (objs u)(h := x)\<rparr>" "px_type x = px_type (objs s h)"
      using u more_pexec [of u s] by auto
    have tr: "trace t = EPipe a b # trace s" using u p x by simp
    have side: "aside h s t" and hs: "mu_handles t = mu_handles s"
      using more_aside [of u s t h x] u x p by auto
    note sp = set_pipe_Ret [OF set]
    have pu: "pipe_of m h u = pipe_of m h s" for m
      using u more_pexec [of u s] by (cases m) auto
    have closed: "fds_of (pipe_of n h s) = {}"
      using st n by (simp add: stage_def del: pipe_of.simps)
    have slots: "slot_pipe t = (slot_pipe s)(ProcPipe h n := (a, b))"
      using sp(1,2) pu by (intro slot_pipe_one [OF side nb n(1)]) simp_all
    have "parts (g_open g) (slot_pipe t) (trace t)"
      unfolding slots tr using m fresh closed nb n tr
      by (intro parts_open) (simp_all add: mid_iff at_def books_def ground_ok_def)
    then have ground: "ground_ok g t"
      using m side tr by (simp add: mid_iff at_def books_def ground_ok_def aside_def kept_books_def)
    have "open_ok {h} t" using m by (intro aside_open [OF side]) (simp_all add: mid_iff at_def books_def)
    with aside_at [OF side _ ground] m have "at g h None {h} {} t" by (simp add: mid_iff)
    moreover have "unborn True h t"
      using m hs sp(6) u more_pexec [of u s] by (simp add: mid_iff unborn_def)
    moreover have "\<not> ended h t" using m hs by (simp add: mid_iff ended_def)
    moreover have "if m \<in> insert n X then 0 \<le> fst (pipe_of m h t) else fds_of (pipe_of m h t) = {}"
      if "m \<noteq> PSignal" for m
      using st sp(1,2) pu that tr fresh
      by (cases "m = n") (simp_all add: stage_def del: pipe_of.simps)
    ultimately show ?thesis using \<open>ok\<close> by (simp add: stage_def mid_iff del: pipe_of.simps)
  qed
qed

lemma triple_open_member:
  assumes "n \<noteq> PSignal" and "n \<notin> X"
  shows "triple (stage g h X) (open_member K h n flags)
    (\<lambda>ok s. if ok then stage g h (insert n X) s else stage g h X s)"
proof (rule tripleI)
  show "open_member K h n flags s = Ret r t \<Longrightarrow> extends s t" for s r and t :: "('a, 'b) multi_world_scheme"
    by (rule presD [OF ext_open_member])
  show "stage g h X s \<Longrightarrow> open_member K h n flags s = Ret ok t \<Longrightarrow> sane (trace t) \<Longrightarrow>
    if ok then stage g h (insert n X) t else stage g h X t"
    for s ok and t :: "('a, 'b) multi_world_scheme"
    by (rule open_member_stage [OF _ _ assms]) (simp_all add: sane_def)
qed

abbreviation all_pipes :: "pipe_name set" where
  "all_pipes \<equiv> {PWatch, PStderr, PStdout, PStdin}"

lemma triple_ext: "triple P m Q \<Longrightarrow> pres extends m"
  by (auto simp: triple_def pres_def)

lemma triple_never: "pres extends m \<Longrightarrow> (\<And>s. \<not> P s) \<Longrightarrow> triple P m Q"
  by (auto simp: triple_def pres_def)

context multi_client begin

lemma triple_open_or_fail:
  assumes "n \<noteq> PSignal" and "n \<notin> X"
    and "triple (stage g h (insert n X)) k (\<lambda>ok s. if ok then Q s else over g h None {} True s)"
  shows "triple (stage g h X) (bind (open_member K h n flags) (\<lambda>ok.
      if ok then k else give_up K (handle_callbacks K U h) h e))
    (\<lambda>ok s. if ok then Q s else over g h None {} True s)"
proof (rule triple_bind [OF triple_open_member [OF assms(1,2)]], rule triple_if)
  fix ok
  show "ok \<Longrightarrow> triple (\<lambda>s. if ok then stage g h (insert n X) s else stage g h X s) k
      (\<lambda>ok s. if ok then Q s else over g h None {} True s)"
    using assms(3) by simp
  show "\<not> ok \<Longrightarrow> triple (\<lambda>s. if ok then stage g h (insert n X) s else stage g h X s)
      (give_up K (handle_callbacks K U h) h e) (\<lambda>ok s. if ok then Q s else over g h None {} True s)"
    by (rule triple_weaken [OF triple_stops(4)]) (auto dest: stage_mid)
qed

lemma triple_prepare_fork_pipes:
  "triple (stage g h {}) (prepare_fork_pipes K (handle_callbacks K U h) h)
     (\<lambda>ok s. if ok then stage g h all_pipes s else over g h None {} True s)"
  unfolding prepare_fork_pipes_def Let_def this_gets_def
proof (intro triple_open_or_fail triple_gets)
  fix ty
  let ?C = "handle_callbacks K U h"
  let ?last = "bind (open_member K h PWatch (O_CLOEXEC OR O_NONBLOCK)) (\<lambda>ok.
      if ok then ret True else give_up K ?C h WATCH_PIPE_ERROR)"
  let ?Q = "\<lambda>ok s. if ok then stage g h all_pipes s else over g h None {} True s"
  have last: "triple (stage g h {PStderr, PStdout, PStdin}) ?last ?Q"
    by (rule triple_open_or_fail) (auto intro: triple_ret)
  show "triple (\<lambda>s. stage g h {PStderr, PStdout, PStdin} s \<and> px_type (objs s h) = ty)
     (bind (if ty = BLOCKING then open_member K h PSignal (O_CLOEXEC OR O_NONBLOCK) else ret True)
       (\<lambda>ok. if ok then ?last else give_up K ?C h SIGNAL_PIPE_ERROR)) ?Q"
  proof (cases "ty = BLOCKING")
    case True
    have "pres extends (bind (open_member K h PSignal (O_CLOEXEC OR O_NONBLOCK))
        (\<lambda>ok. if ok then ?last else give_up K ?C h SIGNAL_PIPE_ERROR))"
      by (intro ex.pres_intros pres_if ext_open_member triple_ext [OF last] triple_ext [OF triple_stops(4)])
    then show ?thesis
      using True by (auto intro!: triple_never simp: stage_def mid_iff at_def)
  next
    case False
    then have "triple (\<lambda>s. stage g h {PStderr, PStdout, PStdin} s \<and> px_type (objs s h) = ty)
        (if ty = BLOCKING then open_member K h PSignal (O_CLOEXEC OR O_NONBLOCK) else ret True)
        (\<lambda>ok s. stage g h {PStderr, PStdout, PStdin} s \<and> ok)"
      by (auto intro: triple_ret)
    moreover have "triple (\<lambda>s. stage g h {PStderr, PStdout, PStdin} s \<and> ok)
        (if ok then ?last else give_up K ?C h SIGNAL_PIPE_ERROR) ?Q" for ok
      by (rule triple_if; rule triple_pre [OF last] triple_never [OF triple_ext [OF triple_stops(4)]])
         simp_all
    ultimately show ?thesis by (rule triple_bind)
  qed
qed simp_all

subsection \<open>The blocking mode, which does not occur here\<close>

text \<open>All that is needed of it is that the trace grows.\<close>

lemma ext_call_state: "pres extends (call_state (handle_callbacks K U h) h st)"
  by (cases "final_state st") (rule triple_ext [OF triple_call_state_final] triple_ext [OF triple_call_state]; assumption)+

lemma ext_process_error: "pres extends (process_error (handle_callbacks K U h) h e)"
  by (rule triple_ext [OF triple_error])

end

sublocale multi_client \<subseteq> est: px_steps extends "handle_callbacks K U h" h for K :: "'k platform" and h
  by unfold_locales (auto simp: adds_def extends_def intro: ext_process_error ext_call_state)

context multi_client begin

lemma ext_run_closure: "pres extends (run_closure N K (handle_callbacks K U h) h c fd)"
proof (cases c)
  case OnCloseWatch
  then show ?thesis
    by (simp, intro est.step_intros triple_ext [OF triple_readers(3)] est.pres_sys)
       (auto simp: se_interrupt_def intro!: util_intros)
next
  case OnSignalPipe
  have "pres extends (handle_sigchld N K (handle_callbacks K U h) h)"
    unfolding handle_sigchld_def
    by (intro est.step_intros est.R_mask est.R_wait_loop triple_ext [OF triple_update_status])
  with OnSignalPipe show ?thesis by (auto intro!: est.step_intros est.R_read_signal_int)
next
  case DoAction
  then show ?thesis by (auto intro: ex.pres_finish)
qed (auto intro: triple_ext [OF triple_readers(1)] triple_ext [OF triple_readers(2)])

end

sublocale multi_client \<subseteq> elp: loop_client extends "\<lambda>_. True" N K
    "io_callbacks N K (handle_callbacks K U h) h"
  for N :: nat and K :: "'k platform" and h
proof
  show "pres extends (upd_sel f :: (('k, 'z) multi_world_scheme, unit) prog)" for f
    by (rule ext_upd_sel)
next
  show "hold (\<lambda>_. True) extends (lc_run (io_callbacks N K (handle_callbacks K U h) h) c fd)" for c fd
    by (simp add: io_callbacks_def hold_pres ext_run_closure)
next
  show "lc_interrupt (io_callbacks N K (handle_callbacks K U h) h) = Some g \<Longrightarrow>
      hold (\<lambda>_. True) extends g" for g
    by (auto simp: io_callbacks_def intro!: hold_pres est.step_intros)
next
  show "lc_error (io_callbacks N K (handle_callbacks K U h) h) = Some k \<Longrightarrow>
      hold (\<lambda>_. True) extends k" for k
    by (auto simp: io_callbacks_def intro!: hold_pres ext_process_error)
next
  show "read_retry N K fd 1 s = Ret r t \<Longrightarrow> extends s t" for fd s r
    and t :: "('k, 'z) multi_world_scheme"
    by (rule presD [OF est.R_sys(11)])
qed (simp | rule est.R_sys)+

context multi_client begin

lemma ext_blocking:
  "pres extends (block [loop_io N K (handle_callbacks K U h) h,
     bind (reset_sigchld_signal_handler K (handle_callbacks K U h) h) (\<lambda>_. skip),
     bind (this_gets h px_user_stopped) (\<lambda>user. if user
       then user_stopped K (handle_callbacks K U h) h else stopped N K (handle_callbacks K U h) h)])"
  "pres extends (set_sigchld_signal_handler K (handle_callbacks K U h) h)"
proof -
  have "pres extends (se_loop N K (io_callbacks N K (handle_callbacks K U h) h))"
    using elp.hold_se_loop by (simp add: hold_def pres_def)
  then show "pres extends (block [loop_io N K (handle_callbacks K U h) h,
     bind (reset_sigchld_signal_handler K (handle_callbacks K U h) h) (\<lambda>_. skip),
     bind (this_gets h px_user_stopped) (\<lambda>user. if user
       then user_stopped K (handle_callbacks K U h) h else stopped N K (handle_callbacks K U h) h)])"
    unfolding loop_io_def watch_member_def se_construct_def se_destruct_def se_add_read_event_def
    by (intro est.step_intros est.R_handler est.R_stops triple_ext [OF triple_stops(3)] ext_upd_sel
        | simp)+
qed (rule est.R_handler)

subsection \<open>Preparing the arguments\<close>

lemma triple_stage_light:
  "light f \<Longrightarrow> triple (stage g h X) (this_upd h f) (\<lambda>_. stage g h X)"
  by (rule triple_calm_stage [OF calm_this_upd])

lemma triple_stage_give_up:
  "triple (stage g h X) (give_up K (handle_callbacks K U h) h e)
     (\<lambda>ok s. if ok then Q s else over g h None {} True s)"
  by (rule triple_weaken [OF triple_stops(4)]) (auto dest: stage_mid)

lemma triple_prepare_args:
  "triple (stage g h {}) (prepare_args K (handle_callbacks K U h) h)
     (\<lambda>ok s. if ok then stage g h {} s else over g h None {} True s)"
proof -
  let ?S = "stage g h {}" and ?Q = "\<lambda>ok s. if ok then stage g h {} s else over g h None {} True s"
  have c: "triple (\<lambda>s. ?S s \<and> px_args_c (objs s h) = cs)
      (if length cs < 2 then give_up K (handle_callbacks K U h) h ARG_PARSE_C_ERROR else ret True) ?Q" for cs
    by (rule triple_if; rule triple_pre [OF triple_stage_give_up [where X = "{}"]] triple_ret) simp_all
  have a: "triple (\<lambda>s. ?S s \<and> px_args (objs s h) = as)
      (if as = [] then give_up K (handle_callbacks K U h) h ARG_PARSE_ERROR
        else seq (this_upd h (\<lambda>x. x\<lparr>px_args_c := arg2argc as\<rparr>))
          (bind (gets (\<lambda>s. px_args_c (objs s h))) (\<lambda>cs. if length cs < 2
             then give_up K (handle_callbacks K U h) h ARG_PARSE_C_ERROR else ret True))) ?Q" for as
    by (rule triple_if; rule triple_pre [OF triple_stage_give_up [where X = "{}"]]
        triple_pre [OF triple_seq [OF triple_stage_light triple_gets [OF c]]]) (simp_all add: light_def)
  have "triple (\<lambda>s. ?S s \<and> px_spawn_process_arg (objs s h) = arg)
      (seq (this_upd h (\<lambda>x. x\<lparr>px_args := str2arg arg\<rparr>)) (bind (gets (\<lambda>s. px_args (objs s h)))
         (\<lambda>as. if as = [] then give_up K (handle_callbacks K U h) h ARG_PARSE_ERROR
            else seq (this_upd h (\<lambda>x. x\<lparr>px_args_c := arg2argc as\<rparr>))
             (bind (gets (\<lambda>s. px_args_c (objs s h))) (\<lambda>cs. if length cs < 2
               then give_up K (handle_callbacks K U h) h ARG_PARSE_C_ERROR else ret True))))) ?Q" for arg
    by (rule triple_pre [OF triple_seq [OF triple_stage_light triple_gets [OF a]]]) (simp_all add: light_def)
  then show ?thesis unfolding prepare_args_def this_gets_def by (rule triple_gets)
qed

end

subsection \<open>The child exists\<close>

text \<open>
  The program runs, as process \<open>pid\<close>, with all its pipes; but the manager does not know it yet.
  Only a positive number is that of a child.
\<close>

definition born :: "ground \<Rightarrow> nat \<Rightarrow> bool \<Rightarrow> int \<Rightarrow> ('k, 'z) multi_world_scheme \<Rightarrow> bool" where
  "born g h b pid s \<longleftrightarrow>
     mid g h None {h} {} b s \<and> (\<forall>n. n \<noteq> PSignal \<longrightarrow> 0 \<le> fst (pipe_of n h s)) \<and>
     (0 < pid \<longrightarrow> pid \<in> live_pids (trace s) \<and> pid \<notin> fst ` set (mu_active s))"

lemma calm_born:
  assumes c: "calm H s t" and b: "born g h b pid s"
  shows "born g h b pid t"
proof -
  have "nonblocking h s" using b by (simp add: born_def mid_iff at_def)
  then have "kept_self h s t" using c by (simp add: calm_def)
  moreover from c obtain es where "trace t = es @ trace s" "\<forall>e \<in> set es. calm_event e"
    by (auto simp: calm_def)
  ultimately show ?thesis
    using b calm_mid [OF c] calm_kept [OF c] calm_projections [of es "trace s"]
    by (simp add: born_def kept_self_def kept_books_def del: pipe_of.simps)
qed

lemma triple_calm_born: "pres (calm H) m \<Longrightarrow> triple (born g h b pid) m (\<lambda>_. born g h b pid)"
  by (auto simp: triple_def pres_def intro: calm_extends calm_born)

lemma parts_fork: "parts B p tr \<Longrightarrow> parts B p (EFork pid # tr)"
  by (simp add: parts_def)

lemma fork_mid:
  fixes s t :: "('k, 'z) multi_world_scheme"
  assumes "mid g h q {h} {} b s" and "world.more t = world.more s"
    and "trace t = EFork pid # trace s"
  shows "mid g h q {h} {} b t"
proof -
  have live: "live_pids (trace s) \<subseteq> live_pids (trace t)" using assms(3) by auto
  note m = more_multi [OF assms(2)] more_pexec [OF assms(2)] more_sigchld [OF assms(2)]
  have side: "aside h s t" using m live by (simp add: aside_def kept_books_def)
  have slots: "slot_pipe t = slot_pipe s" by (rule slot_pipe_frame) (simp_all add: m)
  have "ground_ok g t"
    using assms(1,3) m slots parts_fork [of "g_open g" "slot_pipe s" "trace s" pid]
    by (simp add: mid_iff at_def books_def ground_ok_def)
  moreover have "open_ok {h} t"
    using assms(1) by (intro aside_open [OF side]) (simp_all add: mid_iff at_def books_def)
  ultimately have "at g h q {h} {} t" using assms(1) by (intro aside_at [OF side]) (simp_all add: mid_iff)
  with assms(1) m show ?thesis by (simp add: mid_iff unborn_def ended_def)
qed

lemma triple_fork:
  "triple (stage g h all_pipes) (sys_fork K)
     (\<lambda>r s. case r of Inl _ \<Rightarrow> mid g h None {h} {} True s | Inr pid \<Rightarrow> born g h True pid s)"
proof (rule tripleI)
  show "sys_fork K s = Ret r t \<Longrightarrow> extends s t" for s r and t :: "('a, 'b) multi_world_scheme"
    by (auto simp: sys_fork_def ret_iffs extends_def split: sum.splits)
  fix s r and t :: "('a, 'b) multi_world_scheme"
  assume st: "stage g h all_pipes s" and run: "sys_fork K s = Ret r t" and sane: "sane (trace t)"
  then have more: "world.more t = world.more s"
    and tr: "case r of Inl _ \<Rightarrow> trace t = trace s | Inr pid \<Rightarrow> trace t = EFork pid # trace s"
    by (auto simp: sys_fork_def ret_iffs split: sum.splits)
  note m = more_multi [OF more] more_pexec [OF more]
  show "case r of Inl _ \<Rightarrow> mid g h None {h} {} True t | Inr pid \<Rightarrow> born g h True pid t"
  proof (cases r)
    case (Inl e)
    with more tr have "adds calm_event s t" by (simp add: adds_def)
    with st Inl show ?thesis using calm_mid [OF calm_adds] stage_mid by fastforce
  next
    case (Inr pid)
    have "pipe_of n h t = pipe_of n h s" if "n \<noteq> PSignal" for n
      using that m by (intro pipe_of_objs) simp_all
    moreover have "n \<in> all_pipes \<longleftrightarrow> n \<noteq> PSignal" for n by (cases n) auto
    moreover have "pid \<notin> fst ` set (mu_active s)" if "0 < pid"
      using that sane tr Inr stage_mid [OF st]
      by (auto simp: sane_def mid_iff at_def books_def children_ok_def)
    ultimately show ?thesis
      using Inr tr m st fork_mid [OF stage_mid [OF st] more, of pid]
      by (simp add: born_def stage_def del: pipe_of.simps)
  qed
qed

lemma triple_child_branch: "triple P (child_branch K h) Q"
  by (auto simp: triple_def child_branch_def ret_iffs)

text \<open>The object knows its process, and then the record of the handle does.\<close>

definition named :: "ground \<Rightarrow> nat \<Rightarrow> int \<Rightarrow> ('k, 'z) multi_world_scheme \<Rightarrow> bool" where
  "named g h pid s \<longleftrightarrow> born g h False pid s \<and> ps_pid (px_proc (objs s h)) = pid"

lemma calm_named: "calm H s t \<Longrightarrow> named g h pid s \<Longrightarrow> named g h pid t"
proof -
  assume c: "calm H s t" and n: "named g h pid s"
  then have "kept_self h s t" by (simp add: calm_def named_def born_def mid_iff at_def)
  with n calm_born [OF c] show "named g h pid t" by (simp add: named_def kept_self_def)
qed

lemma triple_calm_named: "pres (calm H) m \<Longrightarrow> triple (named g h pid) m (\<lambda>_. named g h pid)"
  by (auto simp: triple_def pres_def intro: calm_extends calm_named)

definition enlisted :: "ground \<Rightarrow> nat \<Rightarrow> ('k, 'z) multi_world_scheme \<Rightarrow> bool" where
  "enlisted g h s \<longleftrightarrow> (0 < handle_pid_of h s \<longrightarrow> born g h False (handle_pid_of h s) s)"

lemma over_enlisted: "over g h None {} True s \<Longrightarrow> enlisted g h s"
  by (simp add: over_def held_def unborn_def enlisted_def)

text \<open>Then the handle knows the descriptors.\<close>

definition equipped :: "ground \<Rightarrow> nat \<Rightarrow> int \<Rightarrow> ('k, 'z) multi_world_scheme \<Rightarrow> bool" where
  "equipped g h pid s \<longleftrightarrow> born g h False pid s \<and> has_pipes h s"

lemma start_nonblocking: "stage g h X s \<Longrightarrow> nonblocking h s" "over g h q P b s \<Longrightarrow> nonblocking h s"
  by (simp_all add: stage_def over_def mid_iff held_def at_def)

context multi_client begin

lemma triple_spawn_proc:
  "triple (stage g h all_pipes) (spawn_proc K (handle_callbacks K U h) h)
     (\<lambda>ok s. if ok then born g h True (px_proc_pid (objs s h)) s else over g h None {} True s)"
  unfolding spawn_proc_def
proof (rule triple_bind [OF triple_fork])
  fix r :: "int + int"
  let ?m = "this_upd h (\<lambda>x. x\<lparr>px_proc_pid := (case r of Inl _ \<Rightarrow> -1 | Inr pid \<Rightarrow> pid)\<rparr>)"
  let ?Q = "\<lambda>ok s. if ok then born g h True (px_proc_pid (objs s h)) s else over g h None {} True s"
  have light: "light (\<lambda>x. x\<lparr>px_proc_pid := (case r of Inl _ \<Rightarrow> -1 | Inr pid \<Rightarrow> pid)\<rparr>)"
    by (simp add: light_def)
  show "triple (\<lambda>s. case r of Inl _ \<Rightarrow> mid g h None {h} {} True s | Inr pid \<Rightarrow> born g h True pid s)
      (seq ?m (case r of Inl _ \<Rightarrow> give_up K (handle_callbacks K U h) h FORK_ERROR
         | Inr pid \<Rightarrow> if pid = 0 then child_branch K h else ret True)) ?Q"
  proof (cases r)
    case (Inl e)
    have "triple (mid g h None {h} {} True) (give_up K (handle_callbacks K U h) h FORK_ERROR) ?Q"
      by (rule triple_post [OF triple_stops(4)]) simp
    with Inl triple_seq [OF triple_light [OF light] this] show ?thesis by simp
  next
    case (Inr pid)
    let ?M = "\<lambda>s. born g h True pid s \<and> px_proc_pid (objs s h) = pid"
    have "triple (born g h True pid) ?m (\<lambda>_. ?M)"
    proof (rule tripleI)
      fix s r t
      assume b: "born g h True pid s" and run: "?m s = Ret r t"
      then have "born g h True pid t" by (intro calm_born [OF presD [OF calm_this_upd [OF light] run]])
      with run Inr show "?M t" by (auto simp: this_upd_def ret_iffs)
    qed (rule presD [OF ext_this(1)])
    moreover have "triple ?M (if pid = 0 then child_branch K h else ret True) ?Q"
      by (rule triple_if) (auto intro: triple_child_branch triple_ret)
    ultimately have "triple (born g h True pid) (seq ?m (if pid = 0 then child_branch K h else ret True)) ?Q"
      by (rule triple_seq)
    with Inr show ?thesis by (simp only: sum.case)
  qed
qed

lemma triple_exec_started:
  "triple (\<lambda>s. born g h True (px_proc_pid (objs s h)) s \<and> nonblocking h s)
     (exec_started N K (handle_callbacks K U h) h) (\<lambda>_. enlisted g h)"
proof (rule triple_value [where f = "\<lambda>s. px_proc_pid (objs s h)"])
  fix pid
  have name: "triple (\<lambda>s :: ('k, 'z) multi_world_scheme. (born g h True (px_proc_pid (objs s h)) s \<and> nonblocking h s) \<and>
        px_proc_pid (objs s h) = pid)
      (this_upd h (\<lambda>x. x\<lparr>px_proc := (px_proc x)\<lparr>ps_pid := px_proc_pid x\<rparr>\<rparr>)) (\<lambda>_. named g h pid)"
    unfolding this_upd_def
  proof (rule triple_upd)
    fix s :: "('k, 'z) multi_world_scheme"
    let ?f = "\<lambda>x. x\<lparr>px_proc := (px_proc x)\<lparr>ps_pid := px_proc_pid x\<rparr>\<rparr>"
    let ?t = "s\<lparr>objs := (objs s)(h := ?f (objs s h))\<rparr>"
    assume b: "(born g h True (px_proc_pid (objs s h)) s \<and> nonblocking h s) \<and> px_proc_pid (objs s h) = pid"
    then have "at g h None {h} {} ?t"
      by (intro quiet_this_upd) (simp_all add: born_def mid_iff)
    moreover have "pipe_of n h ?t = pipe_of n h s" for n by (cases n) simp_all
    ultimately show "named g h pid ?t"
      using b by (auto simp: named_def born_def mid_iff unborn_def ended_def simp del: pipe_of.simps)
  qed simp
  let ?E = "\<lambda>s. enlisted g h s \<and> nonblocking h s"
  have state: "triple (named g h pid) (call_state (handle_callbacks K U h) h STARTED) (\<lambda>_. ?E)"
  proof (rule tripleI)
    show "call_state (handle_callbacks K U h) h STARTED s = Ret r t \<Longrightarrow> extends s t" for s r t
      by (rule presD [OF ext_call_state])
    fix s r t
    assume n: "named g h pid s" and run: "call_state (handle_callbacks K U h) h STARTED s = Ret r t"
    have "nonblocking h s" "\<not> ended h s" using n by (simp_all add: named_def born_def mid_iff at_def)
    from calm_call_state(1,2) [OF _ this run]
    have "calm {h} s t" "handle_pid_of h t = ps_pid (px_proc (objs s h))" by (simp_all add: final_state_def)
    then show "?E t"
      using n calm_named [of "{h}" s t g h pid]
      by (simp add: enlisted_def named_def born_def mid_iff at_def)
  qed
  let ?rest = "\<lambda>ty. onlyif (ty = BLOCKING) (block [loop_io N K (handle_callbacks K U h) h,
     bind (reset_sigchld_signal_handler K (handle_callbacks K U h) h) (\<lambda>_. skip),
     bind (this_gets h px_user_stopped) (\<lambda>user. if user
       then user_stopped K (handle_callbacks K U h) h else stopped N K (handle_callbacks K U h) h)])"
  have rest: "triple ?E (bind (this_gets h px_type) ?rest) (\<lambda>_. enlisted g h)"
    unfolding this_gets_def
    by (intro triple_gets triple_onlyif triple_never [OF ext_blocking(1) [unfolded this_gets_def]]) auto
  show "triple (\<lambda>s. (born g h True (px_proc_pid (objs s h)) s \<and> nonblocking h s) \<and>
        px_proc_pid (objs s h) = pid)
      (exec_started N K (handle_callbacks K U h) h) (\<lambda>_. enlisted g h)"
    unfolding exec_started_def
    by (intro triple_Cons [OF name] triple_Cons [OF triple_calm_named [OF calm_this_upd]]
        triple_Cons [OF state] triple_Cons [OF rest] triple_Nil) (simp_all add: light_def)
qed

text \<open>The whole of \<open>exec\<close>, from a handle that was taken off the queue.\<close>

lemma triple_exec:
  "triple (stage g h {}) (pexec_exec N K (handle_callbacks K U h) h arg) (\<lambda>_. enlisted g h)"
proof -
  let ?C = "handle_callbacks K U h" and ?Q = "\<lambda>_::unit. enlisted g h"
  let ?R = "\<lambda>ok s. if ok then born g h True (px_proc_pid (objs s h)) s else over g h None {} True s"
  have started: "triple (?R ok) (onlyif ok (exec_started N K ?C h)) ?Q" for ok
    by (rule triple_onlyif; rule triple_pre [OF triple_exec_started] over_enlisted)
       (simp_all add: born_def mid_iff at_def)
  have spawned: "triple (\<lambda>s. if ok then stage g h all_pipes s else over g h None {} True s)
      (onlyif ok (bind (spawn_proc K ?C h) (\<lambda>ok. onlyif ok (exec_started N K ?C h)))) ?Q" for ok
    by (rule triple_onlyif; rule triple_pre [OF triple_bind [OF triple_spawn_proc started]] over_enlisted)
       simp_all
  have handler: "triple (\<lambda>s. stage g h all_pipes s \<and> px_type (objs s h) = ty)
      (if ty = BLOCKING then set_sigchld_signal_handler K ?C h else ret True)
      (\<lambda>r s. if r then stage g h all_pipes s else over g h None {} True s)" for ty
    by (rule triple_if; rule triple_never [OF ext_blocking(2)] triple_ret)
       (auto dest: start_nonblocking split: if_splits)
  note forked = triple_gets [OF triple_bind [OF handler spawned]]
  have pipes: "triple (\<lambda>s. if ok then stage g h all_pipes s else over g h None {} True s)
      (onlyif ok (bind (gets (\<lambda>s. px_type (objs s h))) (\<lambda>ty.
        bind (if ty = BLOCKING then set_sigchld_signal_handler K ?C h else ret True)
          (\<lambda>ok. onlyif ok (bind (spawn_proc K ?C h) (\<lambda>ok. onlyif ok (exec_started N K ?C h))))))) ?Q"
    for ok
    by (rule triple_onlyif; rule triple_pre [OF forked] over_enlisted) simp_all
  have signals: "triple (stage g h {}) (prepare_signal_set h) (\<lambda>_. stage g h {})"
    unfolding prepare_signal_set_def
    by (intro triple_Cons [OF triple_stage_light] triple_Nil) (simp_all add: light_def)
  note opened = triple_seq [OF signals triple_bind [OF triple_prepare_fork_pipes pipes]]
  have args: "triple (\<lambda>s. if ok then stage g h {} s else over g h None {} True s)
      (onlyif ok (seq (prepare_signal_set h) (bind (prepare_fork_pipes K ?C h) (\<lambda>ok.
        onlyif ok (bind (gets (\<lambda>s. px_type (objs s h))) (\<lambda>ty.
          bind (if ty = BLOCKING then set_sigchld_signal_handler K ?C h else ret True)
            (\<lambda>ok. onlyif ok (bind (spawn_proc K ?C h) (\<lambda>ok. onlyif ok (exec_started N K ?C h)))))))))) ?Q"
    for ok
    by (rule triple_onlyif; rule triple_pre [OF opened] over_enlisted) simp_all
  show ?thesis
    unfolding pexec_exec_def this_gets_def
    by (intro triple_seq [OF triple_stage_light] triple_bind [OF triple_prepare_args args])
       (simp_all add: light_def)
qed

lemma triple_handle_exec:
  "triple (stage g h {}) (handle_exec N K U h)
     (\<lambda>_ s. 0 < handle_pid_of h s \<longrightarrow> equipped g h (handle_pid_of h s) s)"
  unfolding handle_exec_def handle_gets_def get_fds_def this_gets_def
proof (rule triple_gets, rule triple_seq [OF triple_pre [OF triple_exec] triple_gets])
  fix fds
  let ?f = "\<lambda>x. x\<lparr>mh_fds := fds\<rparr>"
  show "triple (\<lambda>s :: ('k, 'z) multi_world_scheme. enlisted g h s \<and> \<lparr>stdout_read_fd = fst (px_pipe_stdout (objs s h)),
      stderr_read_fd = fst (px_pipe_stderr (objs s h)), stdin_write_fd = snd (px_pipe_stdin (objs s h)),
      watch_close_write_fd = fst (px_pipe_close_watch (objs s h))\<rparr> = fds) (handle_upd h ?f)
     (\<lambda>_ s. 0 < handle_pid_of h s \<longrightarrow> equipped g h (handle_pid_of h s) s)"
    unfolding handle_upd_def
  proof (rule triple_upd)
    fix s :: "('k, 'z) multi_world_scheme"
    let ?t = "s\<lparr>mu_handles := (mu_handles s)(h := ?f (mu_handles s h))\<rparr>"
    assume e: "enlisted g h s \<and> \<lparr>stdout_read_fd = fst (px_pipe_stdout (objs s h)),
      stderr_read_fd = fst (px_pipe_stderr (objs s h)), stdin_write_fd = snd (px_pipe_stdin (objs s h)),
      watch_close_write_fd = fst (px_pipe_close_watch (objs s h))\<rparr> = fds"
    show "0 < handle_pid_of h ?t \<longrightarrow> equipped g h (handle_pid_of h ?t) ?t"
    proof
      assume "0 < handle_pid_of h ?t"
      with e have b: "born g h False (handle_pid_of h s) s" by (simp add: enlisted_def)
      have pipes: "pipe_of n h ?t = pipe_of n h s" for n by (cases n) simp_all
      have a: "at g h None {h} {} s" using b by (simp add: born_def mid_iff)
      then have "h \<notin> active_handles s" by (auto simp: at_def books_def active_ok_def)
      then have "at g h None {h} {} ?t"
        by (intro aside_quiet [OF _ a, where es = "[]"] pipes) (simp_all add: aside_def kept_books_def)
      with b e pipes [of PWatch] pipes [of PStdout] pipes [of PStderr] show "equipped g h (handle_pid_of h ?t) ?t"
        by (auto simp: equipped_def born_def mid_iff unborn_def ended_def has_pipes_def pipes simp del: pipe_of.simps)
           auto
    qed
  qed simp
qed simp

end

end
