(* ===== verification/Multi_Enrol.thy ===== *)
theory Multi_Enrol
  imports Multi_Start
begin

section \<open>The registry while the loop runs\<close>

text \<open>
  A descriptor says which pipe it belongs to, so two registered functions never share one.
  With this the manager can file a program that was just started, and can take its own pipes
  out of the registry at the end of the loop, without touching what is registered for others.
\<close>

subsection \<open>Descriptors and pipes\<close>

fun slot_of :: "reg_cb \<Rightarrow> slot" where
  "slot_of RSignal = SignalPipe"
| "slot_of RControl = ControlPipe"
| "slot_of (RClose h) = ProcPipe h PWatch"
| "slot_of (RStdout h) = ProcPipe h PStdout"
| "slot_of (RStderr h) = ProcPipe h PStderr"

lemma slot_of_inject: "slot_of c = slot_of d \<longleftrightarrow> c = d"
  by (cases c; cases d) auto

lemma slot_unique:
  assumes "ground_ok g s" and "0 \<le> fst (slot_pipe s i)" and "fst (slot_pipe s i) = fst (slot_pipe s j)"
  shows "i = j"
proof (rule ccontr)
  assume "i \<noteq> j"
  then have "fds_of (slot_pipe s i) \<inter> fds_of (slot_pipe s j) = {}"
    using assms(1) by (intro parts_disjoint) (auto simp: ground_ok_def)
  with assms(2,3) show False by (auto simp: fds_of_def)
qed

lemma serves_slot:
  assumes b: "books g F P s" and "active_handles s \<inter> F = {}" and "serves_fd c fd s"
  shows "fd = fst (slot_pipe s (slot_of c))" "0 \<le> fd"
proof -
  have "nonblocking h s \<and> has_pipes h s" if "h \<in> active_handles s" for h
  proof -
    have "h \<in> active_handles s - F" using assms(2) that by blast
    with b show ?thesis using active_nonblocking by (auto simp: books_def open_ok_def)
  qed
  then have "fd = fst (slot_pipe s (slot_of c)) \<and> 0 \<le> fd"
    using assms by (cases c) (auto simp: books_def ground_ok_def has_pipes_def simp del: pipe_of.simps)
  then show "fd = fst (slot_pipe s (slot_of c))" "0 \<le> fd" by blast+
qed

lemma registered_slot:
  assumes b: "books g F P s" and f: "active_handles s \<inter> F = {}" and "map_of (mu_registered s) fd = Some c"
  shows "fd = fst (slot_pipe s (slot_of c))" "0 \<le> fd"
proof -
  have "serves_fd c fd s" using assms registered_serves by (auto simp: books_def)
  from serves_slot [OF b f this] show "fd = fst (slot_pipe s (slot_of c))" "0 \<le> fd" by blast+
qed

text \<open>A pipe whose function is not registered has a descriptor that is not registered.\<close>

lemma slot_free:
  assumes b: "books g F P s" and f: "active_handles s \<inter> F = {}" and "0 \<le> fst (slot_pipe s i)"
    and "\<And>c. slot_of c = i \<Longrightarrow> \<not> serves_fd c (fst (slot_pipe s i)) s"
  shows "map_of (mu_registered s) (fst (slot_pipe s i)) = None"
proof (rule ccontr)
  assume "map_of (mu_registered s) (fst (slot_pipe s i)) \<noteq> None"
  then obtain c where c: "map_of (mu_registered s) (fst (slot_pipe s i)) = Some c" by blast
  have "i = slot_of c"
    using b assms(3) registered_slot(1) [OF b f c] by (intro slot_unique) (auto simp: books_def)
  moreover have "serves_fd c (fst (slot_pipe s i)) s"
    using b c registered_serves by (auto simp: books_def)
  ultimately show False using assms(4) by blast
qed

subsection \<open>Adding functions\<close>

lemma add_all_eval:
  fixes s :: "('k, 'z) multi_world_scheme"
  assumes "own_loop s" and "se_wf (sel s)" and "distinct (map fst cs)"
    and "\<forall>fd \<in> set (map fst cs). se_lookup (sel s) fd = None"
  shows "block (map (\<lambda>(fd, c). mu_add_read_event K U fd c) cs) s =
    Ret () (s\<lparr>mu_registered := fold (\<lambda>(fd, c). AList.update fd c) cs (mu_registered s),
      sel := fold (\<lambda>(fd, c). add_event K fd (Some DoAction)) cs (sel s)\<rparr>)"
  using assms
proof (induction cs arbitrary: s)
  case Nil
  then show ?case by (simp add: prog_simps)
next
  case (Cons p cs)
  obtain fd c where p: "p = (fd, c)" by (cases p)
  let ?s = "s\<lparr>mu_registered := AList.update fd c (mu_registered s),
    sel := add_event K fd (Some DoAction) (sel s)\<rparr>"
  have free: "se_lookup (sel s) fd = None" using Cons.prems p by simp
  have "own_loop ?s" using Cons.prems(1) by (simp add: own_loop_def)
  moreover have "se_wf (sel ?s)" using se.wf_add [OF Cons.prems(2) free] by simp
  moreover have "\<forall>fd' \<in> set (map fst cs). se_lookup (sel ?s) fd' = None"
    using Cons.prems p by (auto simp: se.lookup_add [OF Cons.prems(2) free])
  ultimately show ?case
    using Cons.IH [of ?s] Cons.prems p mu_add_read_event_eval [OF Cons.prems(1) free, of K U c]
    by (simp add: prog_simps)
qed

lemma registered_added:
  fixes s t :: "('k, 'z) multi_world_scheme"
  assumes ok: "registered_ok s"
    and t: "mu_registered t = fold (\<lambda>(fd, c). AList.update fd c) cs (mu_registered s)"
    and new: "distinct (map fst cs)" "\<forall>fd \<in> set (map fst cs). map_of (mu_registered s) fd = None"
    and stay: "\<And>c fd. serves_fd c fd s \<Longrightarrow> serves_fd c fd t"
    and serve: "\<And>c fd. (fd, c) \<in> set cs \<Longrightarrow> serves_fd c fd t"
    and known: "\<And>h c fd. h \<in> active_handles t \<Longrightarrow> c \<in> proc_functions h \<Longrightarrow> serves_fd c fd t \<Longrightarrow>
      (fd, c) \<in> set cs \<or> h \<in> active_handles s \<and> serves_fd c fd s"
  shows "registered_ok t" "map_of (mu_registered t) = map_of (mu_registered s) ++ map_of cs"
proof -
  show reg: "map_of (mu_registered t) = map_of (mu_registered s) ++ map_of cs"
    unfolding t using rg.add_all [where r = "mu_registered s" and cs = cs] new by simp
  have "distinct (map fst (fold (\<lambda>(fd, c). AList.update fd c) cs xs))" if "distinct (map fst xs)"
    for cs xs :: "(int \<times> reg_cb) list"
    using that by (induction cs arbitrary: xs) (auto simp: distinct_update)
  then have "distinct (map fst (mu_registered t))" using ok by (simp add: registered_ok_def t)
  moreover have "serves_fd c fd t" if "map_of (mu_registered t) fd = Some c" for fd c
    using that stay serve registered_serves [OF ok] unfolding reg
    by (auto simp: map_add_Some_iff dest: map_of_SomeD)
  moreover have "map_of (mu_registered t) fd = Some c"
    if "h \<in> active_handles t" "c \<in> proc_functions h" "serves_fd c fd t" for h c fd
    using known [OF that]
  proof
    assume "(fd, c) \<in> set cs"
    then show ?thesis unfolding reg using new(1) by (simp add: map_add_Some_iff)
  next
    assume "h \<in> active_handles s \<and> serves_fd c fd s"
    then have old: "map_of (mu_registered s) fd = Some c"
      using registered_known [OF ok _ that(2)] by blast
    with new(2) have "fd \<notin> set (map fst cs)" by (metis option.distinct(1))
    then have "map_of cs fd = None" by (simp add: map_of_eq_None_iff)
    with old show ?thesis unfolding reg by (simp add: map_add_Some_iff)
  qed
  ultimately show "registered_ok t" unfolding registered_ok_def by blast
qed

lemma fold_add_control:
  "se_control_pipe (fold (\<lambda>(fd, c). add_event K fd (Some DoAction)) cs e) = se_control_pipe e"
  by (induction cs arbitrary: e) (auto simp: add_event_def)

lemma loop_added:
  fixes s t :: "('k, 'z) multi_world_scheme"
  assumes ok: "loop_ok s" and own: "own_loop t"
    and reg: "map_of (mu_registered t) = map_of (mu_registered s) ++ map_of cs"
    and sel: "sel t = fold (\<lambda>(fd, c). add_event K fd (Some DoAction)) cs (sel s)"
    and new: "distinct (map fst cs)" "\<forall>fd \<in> set (map fst cs). map_of (mu_registered s) fd = None"
    and other: "fst (se_control_pipe (sel s)) \<notin> set (map fst cs)"
  shows "loop_ok t" "\<forall>fd \<in> set (map fst cs). se_lookup (sel s) fd = None"
proof -
  let ?c = "fst (se_control_pipe (sel s))" and ?cs = "map (\<lambda>(fd, c). (fd, Some DoAction)) cs"
  have s: "se_wf (sel s)" "map_of (mu_registered s) ?c = None"
    "se_lookup (sel s) = (map_option (\<lambda>_. Some DoAction) \<circ> map_of (mu_registered s)) (?c \<mapsto> None)"
    using ok by (auto simp: loop_ok_def)
  show free: "\<forall>fd \<in> set (map fst cs). se_lookup (sel s) fd = None"
    using new(2) other by (force simp: s(3))
  have keys: "map fst ?cs = map fst cs" by auto
  have f: "fold (\<lambda>(fd, c). add_event K fd c) ?cs e = fold (\<lambda>(fd, c). add_event K fd (Some DoAction)) cs e" for e
    by (induction cs arbitrary: e) auto
  have t: "se_wf (sel t)" "se_lookup (sel t) = se_lookup (sel s) ++ map_of ?cs"
    using se.add_all [where cs = ?cs and K = K, OF s(1)] new(1) free
    unfolding sel keys f by simp_all
  have m: "map_of ?cs fd = map_option (\<lambda>_. Some DoAction) (map_of cs fd)" for fd
    by (induction cs) auto
  have none: "map_of cs ?c = None" using other by (simp add: map_of_eq_None_iff)
  have "se_lookup (sel t) fd = ((map_option (\<lambda>_. Some DoAction) \<circ> map_of (mu_registered t)) (?c \<mapsto> None)) fd" for fd
    using none by (auto simp: t(2) s(3) reg m map_add_def split: option.splits)
  then have "se_lookup (sel t) = (map_option (\<lambda>_. Some DoAction) \<circ> map_of (mu_registered t)) (?c \<mapsto> None)"
    by (rule ext)
  moreover have "se_control_pipe (sel t) = se_control_pipe (sel s)"
    unfolding sel by (rule fold_add_control)
  moreover have "map_of (mu_registered t) ?c = None"
    unfolding reg using s(2) none by (simp add: map_add_None)
  ultimately show "loop_ok t" using t(1) own by (simp add: loop_ok_def)
qed

subsection \<open>A new program\<close>

definition proc_events :: "nat \<Rightarrow> pexec_fds \<Rightarrow> (int \<times> reg_cb) list" where
  "proc_events h fds =
     [(watch_close_write_fd fds, RClose h), (stdout_read_fd fds, RStdout h),
      (stderr_read_fd fds, RStderr h)]"

text \<open>What \<open>job_spawn_proc\<close> does after \<open>exec\<close>, before the descriptors are watched and after.\<close>

definition listed :: "'k platform \<Rightarrow> nat \<Rightarrow> int \<Rightarrow> ('k, 'z) multi_world_scheme \<Rightarrow> ('k, 'z) multi_world_scheme" where
  "listed K h pid s = s\<lparr>mu_active := put_active K pid h (mu_active s),
     mu_handles := (mu_handles s)(h := (mu_handles s h)\<lparr>mh_proc_stopped := Some pid\<rparr>)\<rparr>"

definition enrolled :: "'k platform \<Rightarrow> nat \<Rightarrow> int \<Rightarrow> ('k, 'z) multi_world_scheme \<Rightarrow> ('k, 'z) multi_world_scheme" where
  "enrolled K h pid s = (let cs = proc_events h (mh_fds (mu_handles s h)); t = listed K h pid s in
     t\<lparr>mu_registered := fold (\<lambda>(fd, c). AList.update fd c) cs (mu_registered t),
       sel := fold (\<lambda>(fd, c). add_event K fd (Some DoAction)) cs (sel t)\<rparr>)"

lemma put_active_new:
  assumes "distinct (map fst ps)" "distinct (map snd ps)" "pid \<notin> fst ` set ps" "h \<notin> snd ` set ps"
  shows "set (put_active K pid h ps) = insert (pid, h) (set ps)"
    "distinct (map fst (put_active K pid h ps))" "distinct (map snd (put_active K pid h ps))"
proof -
  define i where "i = map_place K (map fst ps) pid"
  have p: "put_active K pid h ps = take i ps @ (pid, h) # drop i ps"
    using assms(3) by (simp add: put_active_def map_of_eq_None_iff i_def Let_def)
  have m: "mset (put_active K pid h ps) = add_mset (pid, h) (mset ps)"
    unfolding p using mset_append [of "take i ps" "drop i ps"] by simp
  then show "set (put_active K pid h ps) = insert (pid, h) (set ps)"
    by (metis set_mset_add_mset_insert set_mset_mset)
  have "mset (map fst (put_active K pid h ps)) = mset (pid # map fst ps)"
    "mset (map snd (put_active K pid h ps)) = mset (h # map snd ps)"
    using m by (simp_all add: mset_map)
  from this [THEN mset_eq_imp_distinct_iff] assms
  show "distinct (map fst (put_active K pid h ps))" "distinct (map snd (put_active K pid h ps))" by auto
qed

lemma enrolled_simps [simp]:
  "objs (enrolled K h pid s) = objs s" "trace (enrolled K h pid s) = trace s"
  "mu_control_pipe (enrolled K h pid s) = mu_control_pipe s" "mu_loop (enrolled K h pid s) = mu_loop s"
  "sigchld_pipe_signal (enrolled K h pid s) = sigchld_pipe_signal s"
  "sigchld_sa_prev (enrolled K h pid s) = sigchld_sa_prev s"
  "sigchld_active (enrolled K h pid s) = sigchld_active s" "mu_sigchld (enrolled K h pid s) = mu_sigchld s"
  "se_control_pipe (sel (enrolled K h pid s)) = se_control_pipe (sel s)"
  "mu_buffer (enrolled K h pid s) = mu_buffer s" "mu_register (enrolled K h pid s) = mu_register s"
  "mu_active (enrolled K h pid s) = put_active K pid h (mu_active s)"
  "mu_handles (enrolled K h pid s) =
     (mu_handles s)(h := (mu_handles s h)\<lparr>mh_proc_stopped := Some pid\<rparr>)"
  "own_loop (enrolled K h pid s) = own_loop s"
  by (simp_all add: enrolled_def listed_def Let_def fold_add_control own_loop_def)

text \<open>The descriptors of a program that was just started are new to the registry.\<close>

lemma equipped_events:
  assumes r: "equipped g h pid s"
  defines "cs \<equiv> proc_events h (mh_fds (mu_handles s h))"
  shows "distinct (map fst cs)" "\<forall>fd \<in> set (map fst cs). map_of (mu_registered s) fd = None"
    "fst (se_control_pipe (sel s)) \<notin> set (map fst cs)"
    "h \<notin> active_handles s"
proof -
  have b: "books g {h} {} s" and nb: "nonblocking h s" and open4: "\<And>n. n \<noteq> PSignal \<Longrightarrow> 0 \<le> fst (pipe_of n h s)"
    and hp: "has_pipes h s"
    using r by (auto simp: equipped_def born_def mid_iff at_def)
  have gr: "ground_ok g s" and loop: "mu_loop s" using b by (auto simp: books_def loop_ok_def own_loop_def)
  show act: "h \<notin> active_handles s"
    using r by (auto simp: equipped_def born_def mid_iff at_def books_def active_ok_def)
  have fst_cs: "map fst cs = map (\<lambda>n. fst (slot_pipe s (ProcPipe h n))) [PWatch, PStdout, PStderr]"
    using hp nb by (simp add: cs_def proc_events_def has_pipes_def)
  have pos: "0 \<le> fst (slot_pipe s (ProcPipe h n))" if "n \<noteq> PSignal" for n
    using open4 [OF that] that nb by simp
  have diff: "fst (slot_pipe s (ProcPipe h n)) \<noteq> fst (slot_pipe s i)"
    if "n \<noteq> PSignal" "i \<noteq> ProcPipe h n" for n i
    using slot_unique [OF gr pos] that by metis
  show "distinct (map fst cs)" unfolding fst_cs using diff by (simp del: slot_pipe.simps)
  have "map_of (mu_registered s) (fst (slot_pipe s (ProcPipe h n))) = None" if "n \<noteq> PSignal" for n
  proof (rule slot_free [OF b _ pos [OF that]])
    show "active_handles s \<inter> {h} = {}" using act by simp
    fix c
    assume "slot_of c = ProcPipe h n"
    then show "\<not> serves_fd c (fst (slot_pipe s (ProcPipe h n))) s"
      using act by (cases c) (simp_all del: slot_pipe.simps)
  qed
  then show "\<forall>fd \<in> set (map fst cs). map_of (mu_registered s) fd = None"
    unfolding fst_cs by (simp del: slot_pipe.simps)
  have "fst (se_control_pipe (sel s)) = fst (slot_pipe s LoopPipe)" using loop by simp
  then show "fst (se_control_pipe (sel s)) \<notin> set (map fst cs)"
    unfolding fst_cs using diff [of PWatch LoopPipe] diff [of PStdout LoopPipe] diff [of PStderr LoopPipe]
    by (simp del: slot_pipe.simps)
qed

lemma enrolled_serves:
  assumes "h \<notin> active_handles s" and "active_handles (enrolled K h pid s) = insert h (active_handles s)"
  shows "serves_fd c fd (enrolled K h pid s) \<longleftrightarrow>
    serves_fd c fd s \<or> (fd, c) \<in> set (proc_events h (mh_fds (mu_handles s h)))"
  using assms by (cases c) (auto simp: proc_events_def)

lemma books_enrolled:
  assumes r: "equipped g h pid s" and pos: "0 < pid"
  shows "books g {} {} (enrolled K h pid s)"
proof -
  let ?t = "enrolled K h pid s" and ?cs = "proc_events h (mh_fds (mu_handles s h))"
  have b: "ground_ok g s" "queue_ok s" "active_ok s" "children_ok {} s" "registered_ok s"
      "loop_ok s" "open_ok {h} s"
    and h: "nonblocking h s" "h \<notin> set (queued s)" "has_pipes h s" "\<not> ended h s"
    and pid: "pid \<in> live_pids (trace s)" "pid \<notin> fst ` set (mu_active s)"
    using r pos by (auto simp: equipped_def born_def mid_iff at_def books_def)
  note ev = equipped_events [OF r]
  have "distinct (map fst (mu_active s))" "distinct (map snd (mu_active s))"
    using b(3) by (auto simp: active_ok_def)
  note act = put_active_new [OF this pid(2) ev(4), of K]
  have acts: "active_handles ?t = insert h (active_handles s)" using act(1) by simp
  note serves = enrolled_serves [OF ev(4) acts]
  have pipes: "pipe_of n h' ?t = pipe_of n h' s" if "n \<noteq> PSignal" for n h'
    using that by (intro pipe_of_objs) simp_all
  have reg: "mu_registered ?t = fold (\<lambda>(fd, c). AList.update fd c) ?cs (mu_registered s)"
    and sel: "sel ?t = fold (\<lambda>(fd, c). add_event K fd (Some DoAction)) ?cs (sel s)"
    by (simp_all add: enrolled_def listed_def Let_def)
  have known: "(fd, c) \<in> set ?cs \<or> h' \<in> active_handles s \<and> serves_fd c fd s"
    if "h' \<in> active_handles ?t" "c \<in> proc_functions h'" "serves_fd c fd ?t" for h' c fd
    using that serves [of c fd] by (auto simp: proc_functions_def)
  have stay: "serves_fd c fd ?t" if "serves_fd c fd s" for c fd using that by (simp add: serves)
  have new: "serves_fd c fd ?t" if "(fd, c) \<in> set ?cs" for c fd using that by (simp add: serves)
  note added = registered_added [OF b(5) reg ev(1,2) stay new known]
  have own: "own_loop ?t" using b(6) by (simp add: loop_ok_def)
  note loop = loop_added [OF b(6) own added(2) sel ev(1-3)]
  have "slot_pipe ?t = slot_pipe s" by (rule slot_pipe_frame) simp_all
  then have "ground_ok g ?t" using b(1) by (simp add: ground_ok_def)
  moreover have "queue_ok ?t"
  proof -
    have "untouched h' ?t" if "untouched h' s" "h' \<noteq> h" for h'
      using that settled_cong(1) [of ?t h' s] by simp
    with b(2) h(2) show ?thesis by (auto simp: queue_ok_def)
  qed
  moreover have "active_ok ?t"
    using b(3) act pos h(1) ev(4) by (auto simp: active_ok_def)
  moreover have "children_ok {} ?t" using b(4) act(1) pid(1) by (auto simp: children_ok_def)
  moreover have "open_ok {} ?t"
  proof -
    have "has_pipes h' ?t \<longleftrightarrow> has_pipes h' s" "ended h' ?t \<longleftrightarrow> ended h' s" for h'
      by (rule has_pipes_cong [OF pipes]) (simp_all add: ended_def)
    moreover have "settled h' ?t \<longleftrightarrow> settled h' s" if "h' \<noteq> h" for h'
      using that by (intro settled_cong(2)) simp_all
    ultimately show ?thesis using b(7) h(3,4) acts by (auto simp: open_ok_def)
  qed
  ultimately show ?thesis using added(1) loop(1) by (simp add: books_def)
qed

text \<open>The rest of \<open>job_spawn_proc\<close>.\<close>

lemma enrol_run:
  assumes r: "equipped g h pid s"
  shows "seq (block [upd (\<lambda>s. s\<lparr>mu_active := put_active K pid h (mu_active s)\<rparr>), on_proc_stopped h pid])
      (bind (handle_gets h mh_fds) (\<lambda>fds.
         seq (block [mu_add_read_event K U (watch_close_write_fd fds) (RClose h),
                     mu_add_read_event K U (stdout_read_fd fds) (RStdout h),
                     mu_add_read_event K U (stderr_read_fd fds) (RStderr h)])
             (ret NOTHING))) s = Ret NOTHING (enrolled K h pid s)"
proof -
  let ?cs = "proc_events h (mh_fds (mu_handles s h))" and ?u = "listed K h pid s"
  have loop: "loop_ok s" using r by (simp add: equipped_def born_def mid_iff at_def books_def)
  have u: "mu_registered ?u = mu_registered s" "sel ?u = sel s" "own_loop ?u = own_loop s"
    by (simp_all add: listed_def own_loop_def)
  note ev = equipped_events [OF r]
  have "\<forall>fd \<in> set (map fst ?cs). se_lookup (sel ?u) fd = None"
    using loop ev(2,3) unfolding u by (force simp: loop_ok_def)
  then have "block (map (\<lambda>(fd, c). mu_add_read_event K U fd c) ?cs) ?u = Ret () (enrolled K h pid s)"
    using add_all_eval [of ?u ?cs K U] loop ev(1) u by (simp add: loop_ok_def enrolled_def Let_def)
  moreover have "mh_fds (mu_handles ?u h) = mh_fds (mu_handles s h)" by (simp add: listed_def)
  ultimately show ?thesis
    by (simp add: prog_simps handle_gets_def on_proc_stopped_def handle_upd_def listed_def proc_events_def
        cong: if_cong)
qed

end
