(* ===== verification/Multi_Loop.thy ===== *)
theory Multi_Loop
  imports Multi_Enrol
begin

section \<open>The event loop keeps the books\<close>

text \<open>
  Jobs, the end of the loop, signals and the functions of the descriptors, put together: a
  round of the event loop, with any callbacks that keep to the contract, leaves the books as
  they should be, so that every descriptor that becomes ready has its function.
\<close>

subsection \<open>Jobs\<close>

text \<open>A change of the queue, of the flags, of the registry and the loop's map together.\<close>

definition same_owners :: "('k, 'z) multi_world_scheme \<Rightarrow> ('k, 'z) multi_world_scheme \<Rightarrow> bool" where
  "same_owners s t \<longleftrightarrow>
     objs t = objs s \<and> mu_handles t = mu_handles s \<and>
     mu_control_pipe t = mu_control_pipe s \<and> mu_sigchld t = mu_sigchld s \<and>
     mu_loop t = mu_loop s \<and> mu_active t = mu_active s \<and> mu_register t = mu_register s \<and>
     sigchld_pipe_signal t = sigchld_pipe_signal s \<and> sigchld_sa_prev t = sigchld_sa_prev s \<and>
     sigchld_active t = sigchld_active s \<and> se_control_pipe (sel t) = se_control_pipe (sel s)"

lemma same_owners_books:
  fixes s t :: "('k, 'z) multi_world_scheme"
  assumes same: "same_owners s t"
  shows "trace t = trace s \<Longrightarrow> ground_ok g t \<longleftrightarrow> ground_ok g s" "active_ok t \<longleftrightarrow> active_ok s"
    "trace t = trace s \<Longrightarrow> children_ok P t \<longleftrightarrow> children_ok P s" "open_ok F t \<longleftrightarrow> open_ok F s"
    "untouched h t \<longleftrightarrow> untouched h s" "serves_fd c fd t \<longleftrightarrow> serves_fd c fd s"
    "own_loop t \<longleftrightarrow> own_loop s" "slot_pipe t = slot_pipe s"
proof -
  note k = same [unfolded same_owners_def]
  have pipes: "pipe_of n h' t = pipe_of n h' s" if "n \<noteq> PSignal" for n h'
    using that k by (intro pipe_of_objs) simp_all
  show slots: "slot_pipe t = slot_pipe s" using k by (intro slot_pipe_frame) simp_all
  show "trace t = trace s \<Longrightarrow> ground_ok g t \<longleftrightarrow> ground_ok g s" by (simp add: ground_ok_def slots k)
  show "active_ok t \<longleftrightarrow> active_ok s" by (simp add: active_ok_def k)
  show "trace t = trace s \<Longrightarrow> children_ok P t \<longleftrightarrow> children_ok P s" by (simp add: children_ok_def k)
  show "serves_fd c fd t \<longleftrightarrow> serves_fd c fd s" by (cases c) (simp_all add: k)
  show "own_loop t \<longleftrightarrow> own_loop s" by (simp add: own_loop_def k)
  have "has_pipes h' t \<longleftrightarrow> has_pipes h' s" for h'
    by (rule has_pipes_cong [OF pipes]) (simp_all add: k)
  moreover have shut: "shut h' t \<longleftrightarrow> shut h' s" for h' by (rule shut_cong [OF pipes])
  moreover have ended: "ended h' t \<longleftrightarrow> ended h' s" for h' by (simp add: ended_def k)
  moreover have untouched: "untouched h' t \<longleftrightarrow> untouched h' s" for h'
    by (simp add: untouched_def shut ended k)
  moreover have "settled h' t \<longleftrightarrow> settled h' s" for h'
    by (simp add: settled_def shut ended untouched)
  ultimately show "open_ok F t \<longleftrightarrow> open_ok F s" by (simp add: open_ok_def k)
  show "untouched h t \<longleftrightarrow> untouched h s" by (rule untouched)
qed

lemma same_registry:
  fixes s t :: "('k, 'z) multi_world_scheme"
  assumes same: "same_owners s t" and "mu_registered t = mu_registered s" and "sel t = sel s"
  shows "registered_ok t \<longleftrightarrow> registered_ok s" "loop_ok t \<longleftrightarrow> loop_ok s"
proof -
  have "active_handles t = active_handles s" using same by (simp add: same_owners_def)
  then show "registered_ok t \<longleftrightarrow> registered_ok s"
    unfolding registered_ok_def same_owners_books(6) [OF same] assms(2) by simp
  show "loop_ok t \<longleftrightarrow> loop_ok s" by (simp add: loop_ok_def same_owners_books(7) [OF same] assms)
qed

text \<open>Taking a job off the queue.\<close>

lemma pop_books:
  assumes b: "books g {} {} s" and q: "qb_remove (mu_buffer s) = Some (job, q)"
  shows "books g {} {} (s\<lparr>mu_buffer := q\<rparr>)" (is "books g {} {} ?t")
    and "\<forall>h. job = Some (Spawn h) \<longrightarrow> stage g h {} (s\<lparr>mu_buffer := q\<rparr>)"
proof -
  have buf: "qb_buffer (mu_buffer s) = job # qb_buffer q"
    using q by (auto simp: qb_remove_def split: list.splits)
  have k: "same_owners s ?t" by (simp add: same_owners_def)
  note light = same_owners_books [OF k] same_registry [OF k]
  have same: "queued s = spawns [job] @ queued ?t"
    using buf spawns_append [of "[job]" "qb_buffer q"] by simp
  have "queue_ok ?t" using b same light(5) by (simp add: books_def queue_ok_def)
  with b light show t: "books g {} {} ?t" by (simp add: books_def)
  show "\<forall>h. job = Some (Spawn h) \<longrightarrow> stage g h {} ?t"
  proof (intro allI impI)
    fix h
    assume "job = Some (Spawn h)"
    with b same have u: "untouched h s" "h \<notin> set (queued ?t)" by (auto simp: books_def queue_ok_def)
    with light(5) have "untouched h ?t" by simp
    with u(2) t show "stage g h {} ?t"
      by (auto simp: stage_def mid_iff at_def unborn_def untouched_def shut_def books_def open_ok_def
          simp del: pipe_of.simps)
  qed
qed

lemma calm_cleanup: "pres (calm {} :: ('k, 'z) multi_world_scheme \<Rightarrow> _) (cleanup K)"
proof -
  have "pres (calm {} :: ('k, 'z) multi_world_scheme \<Rightarrow> _) (user_stop K p)" for p
    unfolding user_stop_def by (intro ca.pres_intros calm_sys)
  moreover have "pres (calm {} :: ('k, 'z) multi_world_scheme \<Rightarrow> _) (upd (\<lambda>s. s\<lparr>mu_stopping := True\<rparr>))"
    by (rule calm_upd) (simp add: kept_books_def)
  ultimately show ?thesis
    unfolding cleanup_def handle_gets_def
    by (auto intro!: ca.pres_intros calm_sys split: stop_flag.split)
qed

lemma calm_jobs:
  "pres (calm {} :: ('k, 'z) multi_world_scheme \<Rightarrow> _) (job_nullptr_stop K)"
  "pres (calm {} :: ('k, 'z) multi_world_scheme \<Rightarrow> _) (job_stop K flag signum)"
proof -
  show n: "pres (calm {} :: ('k, 'z) multi_world_scheme \<Rightarrow> _) (job_nullptr_stop K)"
    unfolding job_nullptr_stop_def by (intro ca.pres_intros calm_cleanup)
  have "pres (calm {} :: ('k, 'z) multi_world_scheme \<Rightarrow> _) (upd (\<lambda>s. s\<lparr>mu_stop_flag := flag\<rparr>))"
    "pres (calm {} :: ('k, 'z) multi_world_scheme \<Rightarrow> _) (upd (\<lambda>s. s\<lparr>mu_stop_signum := signum\<rparr>))"
    by (rule calm_upd, simp add: kept_books_def)+
  with n show "pres (calm {} :: ('k, 'z) multi_world_scheme \<Rightarrow> _) (job_stop K flag signum)"
    unfolding job_stop_def by (intro ca.pres_intros)
qed

text \<open>A program that is not started after all, because the manager is stopping.\<close>

lemma stage_books: "stage g h {} s \<Longrightarrow> books g {} {} s"
proof -
  assume st: "stage g h {} s"
  then have "shut h s" by (simp add: stage_def shut_def)
  then have "settled h s"
    using st by (simp add: stage_def mid_iff at_def unborn_def settled_def untouched_def)
  moreover have "h \<notin> active_handles s"
    using st by (auto simp: stage_def mid_iff at_def books_def active_ok_def)
  ultimately show "books g {} {} s" using st by (auto simp: stage_def mid_iff at_def books_def open_ok_def)
qed

context multi_client begin

lemma triple_job_spawn_proc:
  "triple (stage g h {}) (job_spawn_proc N K U h) (\<lambda>_. books g {} {})"
proof -
  let ?R = "\<lambda>s. 0 < handle_pid_of h s \<longrightarrow> equipped g h (handle_pid_of h s) s"
  have enrol: "triple (\<lambda>s. ?R s \<and> handle_pid_of h s = pid)
      (seq (block [assertion (0 < pid),
                    upd (\<lambda>s. s\<lparr>mu_active := put_active K pid h (mu_active s)\<rparr>),
                    on_proc_stopped h pid])
        (bind (handle_gets h mh_fds) (\<lambda>fds.
         seq (block [mu_add_read_event K U (watch_close_write_fd fds) (RClose h),
                     mu_add_read_event K U (stdout_read_fd fds) (RStdout h),
                     mu_add_read_event K U (stderr_read_fd fds) (RStderr h)])
             (ret NOTHING)))) (\<lambda>_. books g {} {})" (is "triple ?P ?m _") for pid
  proof (rule tripleI)
    show "?m s = Ret r t \<Longrightarrow> extends s t" for s r t
      unfolding on_proc_stopped_def handle_gets_def
      by (erule presD [rotated]) (intro ex.pres_intros ext_register ext_upd ext_this; simp)
    fix s r t
    assume P: "?P s" and run: "?m s = Ret r t"
    from run have pos: "0 < pid" by (auto simp: ret_iffs)
    with P have ready: "equipped g h pid s" by auto
    from run pos enrol_run [OF ready, of K U] have "t = enrolled K h pid s"
      by (simp add: prog_simps)
    with books_enrolled [OF ready pos] show "books g {} {} t" by simp
  qed
  have start: "triple (stage g h {}) (seq (handle_exec N K U h) (bind (gets (handle_pid_of h)) (\<lambda>pid.
       seq (block [assertion (0 < pid),
                    upd (\<lambda>s. s\<lparr>mu_active := put_active K pid h (mu_active s)\<rparr>),
                    on_proc_stopped h pid])
        (bind (handle_gets h mh_fds) (\<lambda>fds.
         seq (block [mu_add_read_event K U (watch_close_write_fd fds) (RClose h),
                     mu_add_read_event K U (stdout_read_fd fds) (RStdout h),
                     mu_add_read_event K U (stderr_read_fd fds) (RStderr h)])
             (ret NOTHING)))))) (\<lambda>_. books g {} {})"
    by (rule triple_seq [OF triple_handle_exec triple_gets [OF enrol]])
  have pid: "handle_pid h = gets (handle_pid_of h)"
    by (simp add: handle_pid_def handle_gets_def)
  show ?thesis
    unfolding job_spawn_proc_def pid
    by (intro triple_gets triple_if triple_ret triple_pre [OF start]) (auto intro: stage_books)
qed

lemma triple_dispatch_job:
  "triple (books g {} {}) (dispatch_job N K U) (\<lambda>_. books g {} {})"
  unfolding dispatch_job_def
proof (intro triple_gets triple_option triple_stuck triple_prod)
  fix v y and job :: "pexec_job option" and q :: "pexec_job option queue_buffer"
  assume v: "v = Some y" "y = (job, q)"
  let ?S = "\<lambda>s. books g {} {} s \<and> (\<forall>h. job = Some (Spawn h) \<longrightarrow> stage g h {} s)"
  have pop: "triple (\<lambda>s. books g {} {} s \<and> qb_remove (mu_buffer s) = v)
      (upd (\<lambda>s :: ('k, 'z) multi_world_scheme. s\<lparr>mu_buffer := q\<rparr>)) (\<lambda>_. ?S)"
    by (rule triple_upd) (use v in \<open>auto intro: pop_books simp: pop_books(2) [rule_format]\<close>)
  have "triple ?S (case job of None \<Rightarrow> job_nullptr_stop K
      | Some (Stop flag signum) \<Rightarrow> job_stop K flag signum
      | Some (Spawn h) \<Rightarrow> job_spawn_proc N K U h) (\<lambda>_. books g {} {})"
    by (cases job rule: option.exhaust [case_names None Some])
       (auto split: pexec_job.split intro: triple_pre [OF triple_calm(1) [OF calm_jobs(1)]]
         triple_pre [OF triple_calm(1) [OF calm_jobs(2)]] triple_pre [OF triple_job_spawn_proc])
  with pop show "triple (\<lambda>s. books g {} {} s \<and> qb_remove (mu_buffer s) = v)
      (seq (upd (\<lambda>s. s\<lparr>mu_buffer := q\<rparr>)) (case job of None \<Rightarrow> job_nullptr_stop K
        | Some (Stop flag signum) \<Rightarrow> job_stop K flag signum
        | Some (Spawn h) \<Rightarrow> job_spawn_proc N K U h)) (\<lambda>_. books g {} {})"
    by (rule triple_seq)
qed

end

subsection \<open>The end of the loop\<close>

lemma books_unwatch:
  fixes s :: "('k, 'z) multi_world_scheme"
  assumes b: "books g {} {} s" and run: "mu_remove_read_event K U fd s = Ret r t"
    and fd: "fd = fst (slot_pipe s i)" and i: "i = SignalPipe \<or> i = ControlPipe"
  shows "books g {} {} t"
proof -
  have ok: "ground_ok g s" "registered_ok s" "loop_ok s" using b by (auto simp: books_def)
  have pos: "0 \<le> fst (slot_pipe s i)" using ok(1) i by (auto simp: ground_ok_def)
  have own: "own_loop s" using ok(3) by (simp add: loop_ok_def)
  then have look: "se_lookup (sel s) fd \<noteq> None"
    using run by (auto simp: mu_remove_read_event_def register_call_def se_remove_read_event_def
        own_loop_def se_lookup_def ret_iffs)
  from mu_remove_read_event_eval [OF own this] run
  have t: "t = s\<lparr>mu_registered := AList.delete fd (mu_registered s), sel := erase_event fd (sel s)\<rparr>" by simp
  have same: "same_owners s t" by (simp add: same_owners_def t erase_event_control)
  have tr: "trace t = trace s" by (simp add: t)
  note light = same_owners_books [OF same]
  have "mu_loop s" using own by (simp add: own_loop_def)
  then have "fd \<noteq> fst (se_control_pipe (sel s))"
    using slot_unique [OF ok(1) pos, of LoopPipe] i fd by auto
  then have known: "\<forall>fd \<in> set [fd]. map_of (mu_registered s) fd \<noteq> None"
    using look ok(3) by (auto simp: loop_ok_def)
  have reg: "mu_registered t = fold AList.delete [fd] (mu_registered s)"
    and sel: "sel t = fold erase_event [fd] (sel s)" by (simp_all add: t)
  have stay: "serves_fd c fd' t" if "map_of (mu_registered s) fd' = Some c" for c fd'
    using that registered_serves [OF ok(2)] light(6) by blast
  have others: "h \<in> active_handles s \<and> serves_fd c fd' s \<and> fd' \<notin> set [fd]"
    if h: "h \<in> active_handles t" "c \<in> proc_functions h" "serves_fd c fd' t" for h c fd'
  proof -
    have s: "h \<in> active_handles s" "serves_fd c fd' s" using h light(6) same by (auto simp: same_owners_def)
    have "slot_of c \<noteq> i" using h(2) i by (auto simp: proc_functions_def)
    then have "fd' \<noteq> fd"
      using slot_unique [OF ok(1) pos, of "slot_of c"] serves_slot(1) [OF b _ s(2)] fd by auto
    with s show ?thesis by simp
  qed
  note removed = registered_removed [OF ok(2) reg stay others]
  have "loop_ok t" by (rule loop_removed [OF ok(3) _ removed(2) sel known]) (simp add: light own)
  moreover have "queue_ok t \<longleftrightarrow> queue_ok s" by (simp add: queue_ok_def light) (simp add: t)
  ultimately show ?thesis using b removed(1) by (simp add: books_def light tr)
qed

context multi_client begin

lemma triple_unwatch:
  assumes "i = SignalPipe \<or> i = ControlPipe"
  shows "triple (books g {} {}) (bind (gets (\<lambda>s. fst (slot_pipe s i))) (mu_remove_read_event K U))
    (\<lambda>_. books g {} {})"
proof (rule tripleI)
  show "bind (gets (\<lambda>s. fst (slot_pipe s i))) (mu_remove_read_event K U) s = Ret r t \<Longrightarrow> extends s t"
    for s r t by (erule presD [rotated]) (intro ex.pres_intros ext_register)
  show "books g {} {} s \<Longrightarrow> bind (gets (\<lambda>s. fst (slot_pipe s i))) (mu_remove_read_event K U) s = Ret r t \<Longrightarrow>
    books g {} {} t" for s r t
    by (auto simp: ret_iffs intro: books_unwatch [OF _ _ refl assms])
qed

lemma triple_handle_stop: "triple (books g {} {}) (handle_stop K U) (\<lambda>_. books g {} {})"
proof -
  have signal: "bind sh_get_read_fd (mu_remove_read_event K U) =
      bind (gets (\<lambda>s. fst (slot_pipe s SignalPipe))) (mu_remove_read_event K U)"
    and control: "bind (gets (\<lambda>s. fst (mu_control_pipe s))) (mu_remove_read_event K U) =
      bind (gets (\<lambda>s. fst (slot_pipe s ControlPipe))) (mu_remove_read_event K U)"
    by (simp_all add: sh_get_read_fd_def sigchld_get_signal_fd_def)
  have "pres (calm {} :: ('k, 'z) multi_world_scheme \<Rightarrow> _) (upd (\<lambda>s. s\<lparr>mu_stop_flag := STOP_WAIT\<rparr>))"
    "pres (calm {} :: ('k, 'z) multi_world_scheme \<Rightarrow> _) (upd (\<lambda>s. s\<lparr>mu_stop_signum := -1\<rparr>))"
    "pres (calm {} :: ('k, 'z) multi_world_scheme \<Rightarrow> _) (upd (\<lambda>s. s\<lparr>mu_stopping := False\<rparr>))"
    by (rule calm_upd, simp add: kept_books_def)+
  then have "pres (calm {} :: ('k, 'z) multi_world_scheme \<Rightarrow> _)
     (block [upd (\<lambda>s. s\<lparr>mu_stop_flag := STOP_WAIT\<rparr>),
            upd (\<lambda>s. s\<lparr>mu_stop_signum := -1\<rparr>),
            upd (\<lambda>s. s\<lparr>mu_stopping := False\<rparr>),
            bind (gets mu_type) (\<lambda>ty. onlyif (ty = DEFAULT)
              (bind (gets mu_loop) (\<lambda>loop. if loop then se_interrupt K else finish Aborted)))])"
    unfolding se_interrupt_def by (intro ca.pres_intros calm_sys)
  from triple_calm(1) [OF this] show ?thesis
    unfolding handle_stop_def signal control
    by (intro triple_Cons [OF triple_unwatch]) simp_all
qed

subsection \<open>Signals\<close>

text \<open>A handle that is active.\<close>

lemma active_mid:
  assumes "books g {} P s" and "(pid, h) \<in> set (mu_active s)"
  shows "mid g h (Some pid) {} P False s"
proof -
  have a: "nonblocking h s" "mh_proc_stopped (mu_handles s h) = Some pid"
    using assms by (auto simp: books_def active_ok_def)
  then have "h \<notin> set (queued s)" using assms(1) by (auto simp: books_def queue_ok_def untouched_def)
  moreover have "\<not> ended h s" using assms by (force simp: books_def open_ok_def)
  ultimately show ?thesis using a assms(1) by (simp add: mid_iff at_def unborn_def)
qed

lemma triple_sc_signal:
  "triple (books g {} (reaped pid st)) (bind (gets (\<lambda>s. map_of (mu_active s) pid)) (\<lambda>it. case it of
       None \<Rightarrow> skip | Some h \<Rightarrow> update_status N K (handle_callbacks K U h) h st)) (\<lambda>_. books g {} {})"
proof (intro triple_gets triple_option triple_skip)
  fix v :: "nat option" and s :: "('k, 'z) multi_world_scheme"
  assume "v = None" and b: "books g {} (reaped pid st) s \<and> map_of (mu_active s) pid = v"
  then have "pid \<notin> fst ` set (mu_active s)" by (simp add: map_of_eq_None_iff)
  with b show "books g {} {} s"
    using books_reaped by (cases "terminal_status st") (auto simp: reaped_def)
next
  fix v :: "nat option" and h
  assume "v = Some h"
  then show "triple (\<lambda>s. books g {} (reaped pid st) s \<and> map_of (mu_active s) pid = v)
      (update_status N K (handle_callbacks K U h) h st) (\<lambda>_. books g {} {})"
    by (auto intro!: triple_pre [OF triple_update_status] active_mid dest: map_of_SomeD)
qed

text \<open>\<open>waitpid\<close>: the child it names is gone if it has ended.\<close>

lemma books_waited:
  fixes s t :: "('k, 'z) multi_world_scheme"
  assumes b: "books g {} {} s" and more: "world.more t = world.more s"
    and tr: "trace t = EWait pid st # trace s"
  shows "books g {} (reaped pid st) t"
proof -
  note m = more_multi [OF more] more_pexec [OF more] more_sigchld [OF more]
  have same: "same_owners s t" by (simp add: same_owners_def m)
  note light = same_owners_books [OF same] same_registry [OF same]
  have "ground_ok g t"
    using b by (simp add: books_def ground_ok_def light(8) m tr parts_def)
  moreover have "children_ok (reaped pid st) t"
    using b by (auto simp: books_def children_ok_def m tr reaped_def)
  moreover have "queue_ok t" using b by (simp add: books_def queue_ok_def light(5)) (simp add: m)
  ultimately show ?thesis using b by (simp add: books_def light m)
qed

lemma triple_waitpid:
  fixes K :: "'k platform"
  shows "triple (books g {} {} :: ('k, 'z) multi_world_scheme \<Rightarrow> bool) (sys_waitpid K p)
    (\<lambda>r s. case r of Inl _ \<Rightarrow> books g {} {} s | Inr (pid, st) \<Rightarrow> books g {} (reaped pid st) s)"
proof (rule tripleI)
  fix s r and t :: "('k, 'z) multi_world_scheme"
  assume run: "sys_waitpid K p s = Ret r t"
  then have more: "world.more t = world.more s" and tr: "case r of Inl _ \<Rightarrow> trace t = trace s
      | Inr (pid, st) \<Rightarrow> trace t = EWait pid st # trace s"
    by (auto simp: sys_waitpid_def ret_iffs split: sum.splits prod.splits)
  then show "extends s t" by (auto simp: extends_def split: sum.splits)
  assume b: "books g {} {} s"
  show "case r of Inl _ \<Rightarrow> books g {} {} t | Inr (pid, st) \<Rightarrow> books g {} (reaped pid st) t"
  proof (cases r)
    case (Inl e)
    with more tr have "adds calm_event s t" by (simp add: adds_def)
    with b Inl show ?thesis using calm_books [OF calm_adds] by fastforce
  next
    case (Inr w)
    with b more tr show ?thesis by (auto intro: books_waited split: prod.splits)
  qed
qed

lemma books_no_child: "books g {} (reaped 0 st) s \<Longrightarrow> books g {} {} s"
proof -
  assume b: "books g {} (reaped 0 st) s"
  then have "0 \<notin> fst ` set (mu_active s)" by (auto simp: books_def active_ok_def)
  with b show "books g {} {} s" using books_reaped by (auto simp: reaped_def split: if_splits)
qed

lemma calm_sh_error: "pres (calm {}) (sh_process_error (sigchld_cbs N K U) e)"
proof -
  have "pres (calm {} :: ('k, 'z) multi_world_scheme \<Rightarrow> _) (upd (\<lambda>s. s\<lparr>sh_err := e\<rparr>))"
    by (rule calm_upd) (simp add: kept_books_def)
  then show ?thesis
    unfolding sh_process_error_def sigchld_cbs_def
    by (auto intro!: ca.pres_seq calm_mu_process_error)
qed

lemma triple_reap_loop:
  "triple (books g {} {}) (reap_loop m K (sigchld_cbs N K U)) (\<lambda>_. books g {} {})"
proof (induction m)
  case 0
  show ?case by (simp add: triple_stuck)
next
  case (Suc m)
  let ?C = "sigchld_cbs N K U" and ?B = "books g {} {}"
  have cb: "(case sc_signal ?C of None \<Rightarrow> skip | Some cb \<Rightarrow> cb pid st) =
      bind (gets (\<lambda>s. map_of (mu_active s) pid)) (\<lambda>it. case it of
        None \<Rightarrow> skip | Some h \<Rightarrow> update_status N K (handle_callbacks K U h) h st)" for pid st
    by (simp add: sigchld_cbs_def)
  have "triple (\<lambda>s. case r of Inl _ \<Rightarrow> ?B s | Inr (pid, st) \<Rightarrow> books g {} (reaped pid st) s)
     (case r of
        Inl e \<Rightarrow>
          if e = ECHILD then skip
          else if e = EINTR then reap_loop m K ?C
          else sh_process_error ?C WAITPID_ERROR
      | Inr (pid, status) \<Rightarrow>
          if pid = 0 then skip
          else seq (case sc_signal ?C of None \<Rightarrow> skip | Some cb \<Rightarrow> cb pid status)
                   (reap_loop m K ?C)) (\<lambda>_. ?B)" for r
  proof (cases r)
    case (Inl e)
    then show ?thesis
      by (auto intro!: triple_if triple_skip Suc triple_calm(1) [OF calm_sh_error])
  next
    case (Inr w)
    obtain pid st where w: "w = (pid, st)" by (cases w)
    show ?thesis
      unfolding Inr w sum.case prod.case cb
      by (intro triple_if triple_skip triple_seq [OF triple_sc_signal Suc]) (auto intro: books_no_child)
  qed
  from triple_bind [OF triple_waitpid this] show ?case
    by (simp add: triple_seq [OF triple_calm(1) [OF calm_sys(8)]])
qed

lemma triple_read_signal:
  "triple (books g {} {}) (sh_read_signal N K (sigchld_cbs N K U)) (\<lambda>_. books g {} {})"
proof -
  let ?C = "sigchld_cbs N K U"
  have mask: "pres (calm {}) (sh_block_sigchld K ?C)" "pres (calm {}) (sh_unblock_sigchld K ?C)"
    unfolding sh_block_sigchld_def sh_unblock_sigchld_def
    by (intro ca.pres_intros calm_sys calm_sh_error)+
  have "triple (books g {} {}) (sh_handle_sigchld N K ?C) (\<lambda>_. books g {} {})"
    unfolding sh_handle_sigchld_def
    by (intro triple_seq [OF triple_calm(1) [OF mask(1)]] triple_gets
        triple_Cons [OF triple_pre [OF triple_reap_loop]]
        triple_Cons [OF triple_calm(1) [OF calm_sys(8)]]
        triple_Cons [OF triple_calm(1) [OF mask(2)]] triple_Nil) simp_all
  then show ?thesis
    unfolding sh_read_signal_def
    by (intro triple_gets triple_bind [OF triple_pre [OF triple_calm(1) [OF calm_sys(7)]]] triple_if
        triple_ret triple_seq [OF _ triple_ret]) simp_all
qed

subsection \<open>Rounds of the event loop\<close>

lemma active_pid:
  assumes "books g {} P s" and "h \<in> active_handles s"
  shows "\<exists>pid. mid g h (Some pid) {} P False s"
proof -
  from assms(2) obtain pid where "(pid, h) \<in> set (mu_active s)" by auto
  from active_mid [OF assms(1) this] show ?thesis by blast
qed

lemma triple_active:
  assumes "\<And>pid. triple (mid g h (Some pid) {} {} False) m (\<lambda>_. books g {} {})"
  shows "triple (\<lambda>s. books g {} {} s \<and> h \<in> active_handles s) m (\<lambda>_. books g {} {})"
  using assms active_pid unfolding triple_def by blast

lemma triple_run_registered:
  "triple (\<lambda>s. books g {} {} s \<and> serves_fd c fd s) (run_registered N K U c fd) (\<lambda>_. books g {} {})"
proof (cases c)
  case RSignal
  then show ?thesis
    by (auto intro!: triple_pre [OF triple_bind [OF triple_read_signal triple_onlyif [OF triple_handle_stop]]])
next
  case RControl
  have "triple (books g {} {}) (bind (dispatch_job N K U) (\<lambda>r. onlyif (r = STOP_LOOP) (handle_stop K U)))
      (\<lambda>_. books g {} {})"
    by (rule triple_bind [OF triple_dispatch_job triple_onlyif [OF triple_handle_stop]])
  then have act: "triple (books g {} {}) (seq (assertion b) (bind (dispatch_job N K U)
      (\<lambda>r. onlyif (r = STOP_LOOP) (handle_stop K U)))) (\<lambda>_. books g {} {})" for b
    using triple_seq [OF triple_assertion [where Q = "\<lambda>_. books g {} {}"]] by blast
  have "triple (books g {} {}) (bind (read_retry N K fd 1) (\<lambda>r.
      seq (assertion (case r of Inl _ \<Rightarrow> False | Inr _ \<Rightarrow> True)) (bind (dispatch_job N K U)
        (\<lambda>r. onlyif (r = STOP_LOOP) (handle_stop K U))))) (\<lambda>_. books g {} {})"
    by (rule triple_bind [OF triple_calm(1) [OF calm_sys(6)] act])
  with RControl show ?thesis by (auto elim: triple_pre)
next
  case (RClose h)
  have "triple (\<lambda>s. books g {} {} s \<and> h \<in> active_handles s)
      (bind (read_close N K (handle_callbacks K U h) h) (\<lambda>_. skip)) (\<lambda>_. books g {} {})"
    by (intro triple_active triple_bind [OF triple_readers(3) triple_skip])
  with RClose show ?thesis by (auto elim: triple_pre)
next
  case (RStdout h)
  have "triple (\<lambda>s. books g {} {} s \<and> h \<in> active_handles s)
      (bind (read_stdout N K (handle_callbacks K U h) h) (\<lambda>_. skip)) (\<lambda>_. books g {} {})"
    by (intro triple_active triple_bind [OF triple_readers(1) triple_skip])
  with RStdout show ?thesis by (auto elim: triple_pre)
next
  case (RStderr h)
  have "triple (\<lambda>s. books g {} {} s \<and> h \<in> active_handles s)
      (bind (read_stderr N K (handle_callbacks K U h) h) (\<lambda>_. skip)) (\<lambda>_. books g {} {})"
    by (intro triple_active triple_bind [OF triple_readers(2) triple_skip])
  with RStderr show ?thesis by (auto elim: triple_pre)
qed

lemma triple_do_action:
  "triple (books g {} {}) (do_action N K U fd) (\<lambda>_. books g {} {})"
  unfolding do_action_def
proof (intro triple_gets triple_option triple_stuck)
  fix v :: "reg_cb option" and c
  assume "v = Some c"
  then show "triple (\<lambda>s. books g {} {} s \<and> map_of (mu_registered s) fd = v)
      (run_registered N K U c fd) (\<lambda>_. books g {} {})"
    by (auto intro!: triple_pre [OF triple_run_registered] registered_serves simp: books_def)
qed

end

text \<open>The books as a relation between the states before and after, for the loop.\<close>

definition keeps_books ::
  "ground \<Rightarrow> ('k, 'z) multi_world_scheme \<Rightarrow> ('k, 'z) multi_world_scheme \<Rightarrow> bool" where
  "keeps_books g s t \<longleftrightarrow>
     extends s t \<and> (sane (trace t) \<longrightarrow> books g {} {} s \<longrightarrow> books g {} {} t)"

lemma pres_keeps_books:
  "pres (keeps_books g) m \<longleftrightarrow> triple (books g {} {}) m (\<lambda>_. books g {} {})"
  by (simp add: pres_def triple_def keeps_books_def)

lemma calm_keeps_books: "pres (calm H) m \<Longrightarrow> pres (keeps_books g) m"
  by (simp add: pres_keeps_books triple_calm(1))

sublocale multi_client \<subseteq> bk: loop_client "keeps_books g" "\<lambda>_. True" N K "multi_callbacks N K U"
  for g :: ground and N :: nat and K :: "'k platform"
proof
  fix s t u :: "('k, 'z) multi_world_scheme"
  show "keeps_books g s s" by (simp add: keeps_books_def ex.R_refl)
  show "keeps_books g s t \<Longrightarrow> keeps_books g t u \<Longrightarrow> keeps_books g s u"
    unfolding keeps_books_def by (blast intro: ex.R_trans extends_sane)
next
  show "pres (keeps_books g) (upd_sel f :: (('k, 'z) multi_world_scheme, unit) prog)"
    if "\<And>e. se_cbs (f e) = se_cbs e \<and> se_control_pipe (f e) = se_control_pipe e" for f
    by (rule calm_keeps_books [OF calm_upd_sel]) (simp add: that)
next
  show "read_retry N K fd 1 s = Ret r t \<Longrightarrow> keeps_books g s t" for fd s r
    and t :: "('k, 'z) multi_world_scheme"
    by (rule presD [OF calm_keeps_books [OF calm_sys(6)]])
next
  show "hold (\<lambda>_. True) (keeps_books g) (lc_run (multi_callbacks N K U) c fd)" for c fd
    using triple_seq [OF triple_do_action triple_ret, of g "\<lambda>_. books g {} {}" NOTHING N K fd]
    by (auto simp: multi_callbacks_def pres_keeps_books triple_stuck intro!: hold_pres)
next
  show "lc_interrupt (multi_callbacks N K U) = Some k \<Longrightarrow> hold (\<lambda>_. True) (keeps_books g) k" for k
    by (auto simp: multi_callbacks_def pres_keeps_books intro!: hold_pres triple_ret)
next
  show "lc_error (multi_callbacks N K U) = Some k \<Longrightarrow> hold (\<lambda>_. True) (keeps_books g) k" for k
    by (auto simp: multi_callbacks_def intro!: hold_pres calm_keeps_books calm_mu_process_error)
qed (auto intro!: calm_keeps_books calm_sys)

context multi_client begin

lemma triple_se_loop:
  "triple (books g {} {}) (se_loop N K (multi_callbacks N K U)) (\<lambda>_. books g {} {})"
  using bk.hold_se_loop [of g N K] by (simp add: hold_def flip: pres_keeps_books) (simp add: pres_def)

end

end
