(* ===== verification/Multi_Life.thy ===== *)
theory Multi_Life
  imports Multi_Loop
begin

section \<open>A whole run of the process manager\<close>

text \<open>
  From a manager at rest, whose queue may hold programs, \<open>run\<close> opens the books: the pipe of the
  event loop, the signal pipe, the handler. The loop keeps them, and the end of the run closes
  them. What is open afterwards is what was open before, and the pipes of the programs
  that the loop left behind, if it was ended by an error.
\<close>

subsection \<open>A manager at rest\<close>

definition at_rest :: "('k, 'z) multi_world_scheme \<Rightarrow> bool" where
  "at_rest s \<longleftrightarrow>
     mu_type s = DEFAULT \<and> \<not> mu_loop s \<and> mu_sigchld s = NoSigchld \<and> \<not> sigchld_active s \<and>
     mu_active s = [] \<and> mu_registered s = [] \<and> queue_ok s \<and>
     (\<forall>h. nonblocking h s \<longrightarrow> settled h s) \<and> fds_of (sigchld_pipe_signal s) = {} \<and>
     fds_of (mu_control_pipe s) \<subseteq> open_fds (trace s) \<and> 0 \<le> fst (mu_control_pipe s) \<and>
     fst (mu_control_pipe s) \<noteq> snd (mu_control_pipe s) \<and> closes_own (trace s)"

text \<open>The pipes of the programs.\<close>

definition proc_fds :: "nat \<Rightarrow> ('k, 'z) multi_world_scheme \<Rightarrow> int set" where
  "proc_fds h s = (\<Union>n \<in> {PStdin, PStdout, PStderr, PWatch}. fds_of (pipe_of n h s))"

text \<open>The part of the books that outlives the loop.\<close>

definition pipes_ok :: "int set \<Rightarrow> ('k, 'z) multi_world_scheme \<Rightarrow> bool" where
  "pipes_ok B s \<longleftrightarrow> parts B (slot_pipe s) (trace s) \<and> active_ok s \<and> open_ok {} s \<and> queue_ok s"

lemma books_pipes: "books g {} P s \<Longrightarrow> pipes_ok (g_open g) s"
  by (simp add: books_def ground_ok_def pipes_ok_def)

lemma calm_pipes:
  assumes c: "calm H s t" and p: "pipes_ok B s"
  shows "pipes_ok B t"
proof -
  from c obtain es where es: "trace t = es @ trace s" "\<forall>e \<in> set es. calm_event e"
    by (auto simp: calm_def)
  have "parts B (slot_pipe s) (trace s)" using p by (simp add: pipes_ok_def)
  then have "parts B (slot_pipe t) (trace s)"
    by (rule parts_cong) (use calm_slots [OF c] in blast)
  then have "parts B (slot_pipe t) (trace t)" unfolding es(1) by (rule parts_calm [OF _ es(2)])
  with p show ?thesis using calm_active [OF c] calm_open [OF c] calm_queue [OF c] by (simp add: pipes_ok_def)
qed

lemma slots_union:
  "(\<Union>i. fds_of (slot_pipe s i)) = fds_of (mu_control_pipe s) \<union> fds_of (slot_pipe s LoopPipe) \<union>
     fds_of (sigchld_pipe_signal s) \<union> (\<Union>h \<in> {h. nonblocking h s}. proc_fds h s)"
proof -
  have proc: "(\<Union>n. fds_of (slot_pipe s (ProcPipe h n))) = (if nonblocking h s then proc_fds h s else {})" for h
  proof -
    have names: "(UNIV :: pipe_name set) = {PStdin, PStdout, PStderr, PWatch, PSignal}"
      using pipe_name.exhaust by blast
    have "fds_of (-1, -1) = {}" by (simp add: fds_of_def)
    then show ?thesis unfolding names by (simp add: proc_fds_def del: pipe_of.simps)
  qed
  have "(\<Union>i. fds_of (slot_pipe s i)) = fds_of (slot_pipe s ControlPipe) \<union> fds_of (slot_pipe s LoopPipe) \<union>
      fds_of (slot_pipe s SignalPipe) \<union> (\<Union>h. \<Union>n. fds_of (slot_pipe s (ProcPipe h n)))"
    (is "?L = ?R")
  proof
    show "?L \<subseteq> ?R"
    proof
      fix x
      assume "x \<in> ?L"
      then obtain i where "x \<in> fds_of (slot_pipe s i)" by blast
      then show "x \<in> ?R" by (cases i) blast+
    qed
  qed blast
  then show ?thesis unfolding proc by (auto split: if_splits)
qed

lemma union_support: "B \<subseteq> A \<Longrightarrow> (\<And>x. x \<in> A \<Longrightarrow> x \<notin> B \<Longrightarrow> f x = {}) \<Longrightarrow> \<Union> (f ` A) = \<Union> (f ` B)"
  by blast

lemma pipes_open_fds:
  assumes p: "pipes_ok B s"
  shows "open_fds (trace s) = B \<union> fds_of (mu_control_pipe s) \<union> fds_of (slot_pipe s LoopPipe) \<union>
    fds_of (sigchld_pipe_signal s) \<union> (\<Union>h \<in> active_handles s. proc_fds h s)"
proof -
  have closed: "proc_fds h s = {}" if "nonblocking h s" "h \<notin> active_handles s" for h
    using p that by (auto simp: pipes_ok_def open_ok_def settled_def shut_def proc_fds_def simp del: pipe_of.simps)
  have "active_handles s \<subseteq> {h. nonblocking h s}"
    using p active_nonblocking by (auto simp: pipes_ok_def)
  then have "(\<Union>h \<in> {h. nonblocking h s}. proc_fds h s) = (\<Union>h \<in> active_handles s. proc_fds h s)"
    by (rule union_support) (simp add: closed)
  moreover have "open_fds (trace s) = B \<union> (\<Union>i. fds_of (slot_pipe s i))"
    using p by (simp add: pipes_ok_def parts_def)
  ultimately show ?thesis unfolding slots_union by (simp only: Un_assoc)
qed

lemma rest_parts:
  assumes "at_rest s"
  shows "parts (open_fds (trace s) - fds_of (mu_control_pipe s)) (slot_pipe s) (trace s)"
proof -
  have none: "fds_of (slot_pipe s i) = {}" if "i \<noteq> ControlPipe" for i
  proof (cases i)
    case (ProcPipe h n)
    have "fds_of (-1, -1) = {}" by (simp add: fds_of_def)
    with assms ProcPipe show ?thesis by (simp add: at_rest_def settled_def shut_def del: pipe_of.simps)
  qed (use assms that in \<open>simp_all add: at_rest_def fds_of_def\<close>)
  have "fds_of (slot_pipe s i) \<inter> fds_of (slot_pipe s j) = {}" if "i \<noteq> j" for i j
    using none [of i] none [of j] that by blast
  moreover have "0 \<le> fst (slot_pipe s i) \<longrightarrow> fst (slot_pipe s i) \<noteq> snd (slot_pipe s i)" for i
  proof (cases "i = ControlPipe")
    case False
    from none [OF this] show ?thesis by (auto simp: fds_of_def)
  qed (use assms in \<open>simp add: at_rest_def\<close>)
  moreover have "(\<Union>i. fds_of (slot_pipe s i)) = fds_of (mu_control_pipe s)"
  proof -
    have "(\<Union>i. fds_of (slot_pipe s i)) = \<Union> ((\<lambda>i. fds_of (slot_pipe s i)) ` {ControlPipe})"
      by (rule union_support) (simp_all add: none)
    then show ?thesis by simp
  qed
  ultimately show ?thesis using assms unfolding parts_def by (auto simp: at_rest_def)
qed

subsection \<open>The beginning of a run\<close>

text \<open>What the handler of SIGCHLD and its object do not touch.\<close>

definition run_rest :: "('k, 'z) multi_world_scheme \<Rightarrow> ('k, 'z) multi_world_scheme \<Rightarrow> bool" where
  "run_rest s t \<longleftrightarrow>
     objs t = objs s \<and> mu_handles t = mu_handles s \<and> mu_buffer t = mu_buffer s \<and>
     mu_active t = mu_active s \<and> mu_registered t = mu_registered s \<and>
     mu_control_pipe t = mu_control_pipe s \<and> mu_loop t = mu_loop s \<and>
     mu_register t = mu_register s \<and> mu_type t = mu_type s \<and> sel t = sel s"

interpretation rr: step_rel "run_rest :: ('k, 'z) multi_world_scheme \<Rightarrow> _"
  by unfold_locales (simp_all add: run_rest_def)

lemma run_rest_more: "world.more t = world.more s \<Longrightarrow> run_rest s t"
  for s t :: "('k, 'z) multi_world_scheme"
  using more_multi [of t s] more_pexec [of t s] more_sigchld [of t s] by (simp add: run_rest_def)

lemma rest_adds: "pres (adds P) m \<Longrightarrow> pres run_rest m"
  for m :: "(('k, 'z) multi_world_scheme, 'a) prog"
  by (erule pres_mono) (simp add: adds_def run_rest_more)

lemma rest_close: "pres run_rest (close_pipe K p :: (('k, 'z) multi_world_scheme, _) prog)"
  by (auto simp: pres_def dest!: close_pipe_Ret intro: run_rest_more)

lemma rest_construct: "pres run_rest (sh_construct K :: (('k, 'z) multi_world_scheme, _) prog)"
proof -
  have sys: "pres run_rest (sys_pipe2 K flags :: (('k, 'z) multi_world_scheme, _) prog)"
    "pres run_rest (sys_sigaction K hd :: (('k, 'z) multi_world_scheme, _) prog)" for flags hd
    by (rule rest_adds [where P = "\<lambda>_. True"], intro adds_intros; simp)+
  have set: "pres run_rest (sigchld_set_signal_handler K :: (('k, 'z) multi_world_scheme, _) prog)"
    unfolding sigchld_set_signal_handler_def
    by (intro rr.pres_intros sys rest_close | rule pres_upd; simp add: run_rest_def)+
  show ?thesis
    unfolding sh_construct_def sh_prepare_signal_set_def sh_process_error_def no_callbacks_def
      sigchld_callbacks.simps option.case
    by (intro rr.pres_intros set | rule pres_upd; simp add: run_rest_def)+
qed

text \<open>The handler that was there before, as \<open>sigaction\<close> gave it.\<close>

definition installed :: "'k platform \<Rightarrow> ('k, 'z) multi_world_scheme \<Rightarrow> bool" where
  "installed K s \<longleftrightarrow> (\<exists>k k'. k_sigaction K MULTI_HANDLER k = (Inr (sigchld_sa_prev s), k'))"

text \<open>The signal pipe is opened and the handler installed, or nothing stays behind.\<close>

lemma new_sigchld_Ret:
  fixes s t :: "('k, 'z) multi_world_scheme"
  assumes run: "new_sigchld N K U s = Ret r t" and none: "mu_sigchld s = NoSigchld"
  shows "run_rest s t" "mu_sigchld t = BareSigchld"
    "if sh_valid t
     then (\<exists>c d. sigchld_pipe_signal t = (c, d) \<and> sigchld_active t \<and>
       trace t = [ESigaction MULTI_HANDLER, EPipe c d] @ trace s) \<and> installed K t
     else sigchld_active t = sigchld_active s \<and>
       (trace t = trace s \<and> sigchld_pipe_signal t = sigchld_pipe_signal s \<or>
        (\<exists>a b. trace t = close_events (a, b) @ EPipe a b # trace s \<and>
           sigchld_pipe_signal t = (closed_fd a, closed_fd b)))"
proof -
  from run none obtain u where u: "sh_construct K s = Ret () u"
    and t: "t = u\<lparr>sh_err := sh_err u, sh_signal_set := sh_signal_set u, mu_sigchld := BareSigchld\<rparr>"
    by (auto simp: new_sigchld_def destroy_sigchld_def ret_iffs)
  show "run_rest s t" using presD [OF rest_construct u] by (simp add: run_rest_def t)
  show "mu_sigchld t = BareSigchld" by (simp add: t)
  let ?s = "s\<lparr>sh_err := NO_ERROR, sh_signal_set := {SIGCHLD}\<rparr>"
  from u have "\<exists>ok v. sigchld_set_signal_handler K ?s = Ret ok v \<and>
      u = (if ok then v else v\<lparr>sh_err := SIGACTION_SET_ERROR\<rparr>)"
    by (force simp: sh_construct_def sh_prepare_signal_set_def sh_process_error_def no_callbacks_def
        ret_iffs split: if_splits)
  then obtain ok v where v: "sigchld_set_signal_handler K ?s = Ret ok v"
    and rest: "u = (if ok then v else v\<lparr>sh_err := SIGACTION_SET_ERROR\<rparr>)" by blast
  note w = set_signal_handler_Ret [OF v]
  have "sh_valid t \<longleftrightarrow> ok" using w(2) rest by (simp add: t sh_valid_def)
  with w(1) rest show "if sh_valid t
     then (\<exists>c d. sigchld_pipe_signal t = (c, d) \<and> sigchld_active t \<and>
       trace t = [ESigaction MULTI_HANDLER, EPipe c d] @ trace s) \<and> installed K t
     else sigchld_active t = sigchld_active s \<and>
       (trace t = trace s \<and> sigchld_pipe_signal t = sigchld_pipe_signal s \<or>
        (\<exists>a b. trace t = close_events (a, b) @ EPipe a b # trace s \<and>
           sigchld_pipe_signal t = (closed_fd a, closed_fd b)))"
    by (cases ok) (auto simp: t installed_def)
qed

lemma new_loop_Ret:
  fixes s t :: "('k, 'z) multi_world_scheme"
  assumes run: "new_loop K s = Ret r t" and none: "\<not> mu_loop s"
  shows "\<exists>a b. trace t = EPipe a b # trace s \<and> run_rest (s\<lparr>mu_loop := True,
      sel := init_select_event\<lparr>se_control_pipe := (a, b), se_cbs := [(a, None)]\<rparr>\<rparr>) t"
    "sigchld_pipe_signal t = sigchld_pipe_signal s" "sigchld_active t = sigchld_active s"
    "mu_sigchld t = mu_sigchld s"
proof -
  let ?s = "s\<lparr>sel := init_select_event\<rparr>"
  from run none obtain q u v where q: "sys_pipe2 K (O_CLOEXEC OR O_NONBLOCK) ?s = Ret q u"
    and rest: "(case q of Inl _ \<Rightarrow> assertion False
      | Inr p \<Rightarrow> block [upd_sel (\<lambda>e. e\<lparr>se_control_pipe := p\<rparr>), se_add_read_event K (fst p) None]) u =
        Ret () v" and t: "t = v\<lparr>mu_loop := True\<rparr>"
    by (auto simp: new_loop_def se_construct_def upd_sel_def ret_iffs)
  note u = sys_pipe2_Ret [OF q]
  note m = more_multi [of u ?s] more_pexec [of u ?s] more_sigchld [of u ?s]
  from rest obtain a b where ab: "q = Inr (a, b)" by (cases q) (auto simp: ret_iffs)
  with rest u m have v: "v = u\<lparr>sel := init_select_event\<lparr>se_control_pipe := (a, b), se_cbs := [(a, None)]\<rparr>\<rparr>"
    by (auto simp: upd_sel_def se_add_read_event_def insert_node_def init_select_event_def ret_iffs)
  show "\<exists>a b. trace t = EPipe a b # trace s \<and> run_rest (s\<lparr>mu_loop := True,
      sel := init_select_event\<lparr>se_control_pipe := (a, b), se_cbs := [(a, None)]\<rparr>\<rparr>) t"
    using u m ab by (intro exI [of _ a] exI [of _ b]) (simp add: t v run_rest_def)
  show "sigchld_pipe_signal t = sigchld_pipe_signal s" "sigchld_active t = sigchld_active s"
    "mu_sigchld t = mu_sigchld s" using u m by (simp_all add: t v)
qed

text \<open>The event loop exists and watches nothing but its own pipe.\<close>

definition launched :: "int set \<Rightarrow> ('k, 'z) multi_world_scheme \<Rightarrow> bool" where
  "launched B s \<longleftrightarrow>
     parts B (slot_pipe s) (trace s) \<and> own_loop s \<and> mu_type s = DEFAULT \<and>
     se_cbs (sel s) = [(fst (se_control_pipe (sel s)), None)] \<and> 0 \<le> fst (se_control_pipe (sel s)) \<and>
     mu_active s = [] \<and> mu_registered s = [] \<and> queue_ok s \<and> (\<forall>h. nonblocking h s \<longrightarrow> settled h s) \<and>
     0 \<le> fst (mu_control_pipe s)"

lemma proc_slot_objs: "objs t = objs s \<Longrightarrow> slot_pipe t (ProcPipe h n) = slot_pipe s (ProcPipe h n)"
  using pipe_of_objs [of t s n h] by (cases "n = PSignal") (simp_all del: pipe_of.simps)

lemma slots_run_rest:
  assumes "run_rest s t"
  shows "slot_pipe t = (slot_pipe s)(SignalPipe := sigchld_pipe_signal t)"
proof
  fix i
  show "slot_pipe t i = ((slot_pipe s)(SignalPipe := sigchld_pipe_signal t)) i"
  proof (cases i)
    case (ProcPipe h n)
    have "objs t = objs s" using assms by (simp add: run_rest_def)
    from proc_slot_objs [OF this, of h n] show ?thesis unfolding ProcPipe by simp
  qed (use assms in \<open>simp_all add: run_rest_def\<close>)
qed

lemma shut_objs: "objs t = objs s \<Longrightarrow> shut h t \<longleftrightarrow> shut h s"
  by (intro shut_cong pipe_of_objs)

lemma settled_same:
  "objs t = objs s \<Longrightarrow> mu_handles t = mu_handles s \<Longrightarrow> settled h t \<longleftrightarrow> settled h s"
  "objs t = objs s \<Longrightarrow> mu_handles t = mu_handles s \<Longrightarrow> untouched h t \<longleftrightarrow> untouched h s"
  by (rule settled_cong; simp)+

lemma queue_objs:
  "objs t = objs s \<Longrightarrow> mu_handles t = mu_handles s \<Longrightarrow> mu_buffer t = mu_buffer s \<Longrightarrow>
   queue_ok t \<longleftrightarrow> queue_ok s"
  by (simp add: queue_ok_def settled_same(2) [of t s])

lemma launched_loop:
  fixes s u :: "('k, 'z) multi_world_scheme"
  assumes rest: "at_rest s" and run: "new_loop K s = Ret () u" and fresh: "fresh_pipes (trace u)"
  defines "t \<equiv> u\<lparr>mu_register := LoopRegister\<rparr>"
  shows "launched (open_fds (trace s) - fds_of (mu_control_pipe s)) t"
    "handlers_of (trace t) = handlers_of (trace s)" "mu_sigchld t = NoSigchld" "\<not> sigchld_active t"
    "fds_of (sigchld_pipe_signal t) = {}"
    "mu_control_pipe t = mu_control_pipe s" "objs t = objs s"
proof -
  have off: "\<not> mu_loop s" using rest by (simp add: at_rest_def)
  note l = new_loop_Ret [OF run off]
  from l(1) obtain a b where tr: "trace u = EPipe a b # trace s" and r: "run_rest (s\<lparr>mu_loop := True,
      sel := init_select_event\<lparr>se_control_pipe := (a, b), se_cbs := [(a, None)]\<rparr>\<rparr>) u" by blast
  have o: "objs t = objs s" "mu_handles t = mu_handles s" "mu_buffer t = mu_buffer s"
    using r by (simp_all add: run_rest_def t_def)
  have "slot_pipe t i = ((slot_pipe s)(LoopPipe := (a, b))) i" for i
  proof (cases i)
    case (ProcPipe h n)
    then show ?thesis using proc_slot_objs [OF o(1), of h n] by (simp del: slot_pipe.simps)
  qed (use r l(2) in \<open>simp_all add: run_rest_def t_def\<close>)
  then have slots: "slot_pipe t = (slot_pipe s)(LoopPipe := (a, b))" by (rule ext)
  have "fds_of (slot_pipe s LoopPipe) = {}" using off by (simp add: fds_of_def)
  moreover have "trace t = EPipe a b # trace s" by (simp add: t_def tr)
  ultimately have "parts (open_fds (trace s) - fds_of (mu_control_pipe s)) (slot_pipe t) (trace t)"
    using fresh tr unfolding slots by (auto intro!: parts_open rest_parts [OF rest])
  then show "launched (open_fds (trace s) - fds_of (mu_control_pipe s)) t"
    using rest r fresh queue_objs [OF o] settled_same(1) [OF o(1,2)] o
    by (simp add: launched_def at_rest_def run_rest_def own_loop_def t_def tr)
  show "handlers_of (trace t) = handlers_of (trace s)" by (simp add: t_def tr)
  show "mu_sigchld t = NoSigchld" "\<not> sigchld_active t" "fds_of (sigchld_pipe_signal t) = {}"
    "mu_control_pipe t = mu_control_pipe s" "objs t = objs s"
    using rest r l(2-4) by (simp_all add: t_def at_rest_def run_rest_def)
qed

lemma launched_sigchld:
  fixes s t :: "('k, 'z) multi_world_scheme"
  assumes l: "launched B s" and none: "mu_sigchld s = NoSigchld" "fds_of (sigchld_pipe_signal s) = {}"
    and run: "new_sigchld N K U s = Ret () t" and fresh: "fresh_pipes (trace t)"
  shows "launched B t"
    "sh_valid t \<Longrightarrow> sigchld_active t \<and> 0 \<le> fst (sigchld_pipe_signal t) \<and> installed K t \<and>
       handlers_of (trace t) = handlers_of (trace s) @ [MULTI_HANDLER]"
    "\<not> sh_valid t \<Longrightarrow> sigchld_active t = sigchld_active s \<and> fds_of (sigchld_pipe_signal t) = {} \<and>
       handlers_of (trace t) = handlers_of (trace s)"
proof -
  note r = new_sigchld_Ret [OF run none(1)]
  note slots = slots_run_rest [OF r(1)]
  have p: "parts B (slot_pipe s) (trace s)" using l by (simp add: launched_def)
  have "parts B (slot_pipe t) (trace t)"
  proof (cases "sh_valid t")
    case True
    with r(3) obtain c d where cd: "sigchld_pipe_signal t = (c, d)"
      "trace t = ESigaction MULTI_HANDLER # EPipe c d # trace s" by auto
    have "parts B ((slot_pipe s)(SignalPipe := (c, d))) (EPipe c d # trace s)"
      using fresh none(2) cd by (intro parts_open [OF p]) simp_all
    then show ?thesis unfolding slots cd by (simp add: parts_def)
  next
    case False
    with r(3) consider "trace t = trace s" "sigchld_pipe_signal t = sigchld_pipe_signal s"
      | a b where "trace t = close_events (a, b) @ EPipe a b # trace s"
        "sigchld_pipe_signal t = (closed_fd a, closed_fd b)" by auto
    then show ?thesis
    proof cases
      case 1
      with p show ?thesis unfolding slots by (simp add: fun_upd_idem)
    next
      case (2 a b)
      have "parts B ((slot_pipe s)(SignalPipe := (a, b))) (EPipe a b # trace s)"
        using fresh_pipes_append [of "close_events (a, b)" "EPipe a b # trace s"] fresh none(2) 2
        by (intro parts_open [OF p]) simp_all
      from parts_close [OF this, of SignalPipe] show ?thesis unfolding slots 2 by simp
    qed
  qed
  then show "launched B t"
    using l r(1) queue_objs [of t s] settled_same(1) [of t s]
    by (simp add: launched_def run_rest_def own_loop_def)
  show "sh_valid t \<Longrightarrow> sigchld_active t \<and> 0 \<le> fst (sigchld_pipe_signal t) \<and> installed K t \<and>
       handlers_of (trace t) = handlers_of (trace s) @ [MULTI_HANDLER]"
    using r(3) fresh by auto
  show "\<not> sh_valid t \<Longrightarrow> sigchld_active t = sigchld_active s \<and> fds_of (sigchld_pipe_signal t) = {} \<and>
       handlers_of (trace t) = handlers_of (trace s)"
    using r(3) none(2) live_pids_close(2) by auto
qed

text \<open>The manager watches its two pipes.\<close>

lemma books_wired:
  fixes s :: "('k, 'z) multi_world_scheme"
  assumes l: "launched B s" and "sigchld_active s" and "0 \<le> fst (sigchld_pipe_signal s)"
  shows "books \<lparr>g_open = B, g_control = mu_control_pipe s, g_handlers = handlers_of (trace s),
    g_prev = sigchld_sa_prev s\<rparr> {} {} (s\<lparr>mu_sigchld := WiredSigchld\<rparr>)" (is "books ?g {} {} ?t")
proof -
  have slots: "slot_pipe ?t = slot_pipe s" by (rule slot_pipe_frame) simp_all
  have "ground_ok ?g ?t" using assms unfolding ground_ok_def slots by (simp add: launched_def)
  moreover have "queue_ok ?t" using l queue_objs [of ?t s] by (simp add: launched_def)
  moreover have "active_ok ?t" "children_ok {} ?t" "registered_ok ?t"
    using l by (simp_all add: launched_def active_ok_def children_ok_def registered_ok_def)
  moreover have "loop_ok ?t"
    using l by (auto simp: launched_def loop_ok_def own_loop_def se_wf_def se_lookup_def fun_eq_iff)
  moreover have "open_ok {} ?t" using l settled_same(1) [of ?t s] by (simp add: launched_def open_ok_def)
  ultimately show ?thesis by (simp add: books_def)
qed

lemma books_watch:
  fixes s :: "('k, 'z) multi_world_scheme"
  assumes b: "books g {} {} s" and i: "slot_of c = SignalPipe \<or> slot_of c = ControlPipe"
    and fd: "fd = fst (slot_pipe s (slot_of c))" and free: "map_of (mu_registered s) fd = None"
    and run: "mu_add_read_event K U fd c s = Ret r t"
  shows "books g {} {} t" "mu_registered t = AList.update fd c (mu_registered s)"
    "slot_pipe t = slot_pipe s" "mu_type t = mu_type s"
proof -
  have ok: "ground_ok g s" "registered_ok s" "loop_ok s" using b by (auto simp: books_def)
  have own: "own_loop s" using ok(3) by (simp add: loop_ok_def)
  have "0 \<le> fst (slot_pipe s (slot_of c))" using ok(1) i by (auto simp: ground_ok_def)
  then have other: "fst (se_control_pipe (sel s)) \<noteq> fd"
    using slot_unique [OF ok(1), of "slot_of c" LoopPipe] i fd own by (auto simp: own_loop_def)
  have new: "distinct (map fst [(fd, c)])" "\<forall>fd \<in> set (map fst [(fd, c)]). map_of (mu_registered s) fd = None"
    "fst (se_control_pipe (sel s)) \<notin> set (map fst [(fd, c)])" using free other by simp_all
  have "se_lookup (sel s) fd = None" using ok(3) free other by (simp add: loop_ok_def)
  from mu_add_read_event_eval [OF own this] run
  have t: "t = s\<lparr>mu_registered := AList.update fd c (mu_registered s),
      sel := add_event K fd (Some DoAction) (sel s)\<rparr>" by simp
  show "mu_registered t = AList.update fd c (mu_registered s)" "mu_type t = mu_type s" by (simp_all add: t)
  have same: "same_owners s t" by (simp add: same_owners_def t add_event_def)
  note light = same_owners_books [OF same]
  show "slot_pipe t = slot_pipe s" by (rule light(8))
  have tr: "trace t = trace s" by (simp add: t)
  have serve: "serves_fd c' fd' t" if "(fd', c') \<in> set [(fd, c)]" for c' fd'
    using that i fd by (cases c) (auto simp: light(6))
  have reg: "mu_registered t = fold (\<lambda>(fd, c). AList.update fd c) [(fd, c)] (mu_registered s)"
    and sel: "sel t = fold (\<lambda>(fd, c). add_event K fd (Some DoAction)) [(fd, c)] (sel s)"
    by (simp_all add: t)
  have stay: "serves_fd c' fd' t" if "serves_fd c' fd' s" for c' fd' using that by (simp add: light(6))
  have known: "(fd', c') \<in> set [(fd, c)] \<or> h \<in> active_handles s \<and> serves_fd c' fd' s"
    if "h \<in> active_handles t" "serves_fd c' fd' t" for h c' fd'
    using that same by (simp add: light(6) same_owners_def)
  note added = registered_added [OF ok(2) reg new(1,2) stay serve known]
  have "own_loop t" by (simp add: light own)
  note loop = loop_added [OF ok(3) this added(2) sel new]
  have "queue_ok t" using b queue_objs [of t s] by (simp add: books_def t)
  then show "books g {} {} t" using b added(1) loop(1) by (simp add: books_def light tr)
qed

lemma books_watch_both:
  fixes s :: "('k, 'z) multi_world_scheme"
  assumes b: "books g {} {} s" and none: "mu_registered s = []"
    and u: "mu_add_read_event K U (fst (slot_pipe s SignalPipe)) RSignal s = Ret () u"
    and v: "mu_add_read_event K U (fst (slot_pipe u ControlPipe)) RControl u = Ret () v"
  shows "books g {} {} v" "mu_type v = mu_type s"
proof -
  note bu = books_watch [OF b _ _ _ u, simplified none, simplified]
  have "0 \<le> fst (slot_pipe s ControlPipe)" using b by (auto simp: books_def ground_ok_def)
  then have "fst (slot_pipe s ControlPipe) \<noteq> fst (slot_pipe s SignalPipe)"
    using b slot_unique [of g s ControlPipe SignalPipe] by (auto simp: books_def)
  then have free: "map_of (mu_registered u) (fst (slot_pipe u ControlPipe)) = None"
    using bu(2,3) by simp
  show "books g {} {} v" "mu_type v = mu_type s"
    using books_watch [OF bu(1) _ _ free v] bu(4) by simp_all
qed

subsection \<open>The end of a run\<close>

text \<open>What is left when the event loop and the handler of SIGCHLD are gone.\<close>

definition finished :: "ground \<Rightarrow> ('k, 'z) multi_world_scheme \<Rightarrow> bool" where
  "finished g s \<longleftrightarrow>
     pipes_ok (g_open g) s \<and> mu_control_pipe s = g_control g \<and> \<not> mu_loop s \<and> mu_sigchld s = NoSigchld \<and>
     sigchld_sa_prev s = g_prev g \<and>
     (if sigchld_active s then handlers_of (trace s) = g_handlers g
      else fds_of (sigchld_pipe_signal s) = {} \<and> handlers_of (trace s) = g_handlers g @ [g_prev g])"

lemma pipes_owners:
  assumes "objs t = objs s" "mu_handles t = mu_handles s" "mu_active t = mu_active s" "mu_buffer t = mu_buffer s"
  shows "active_ok t \<longleftrightarrow> active_ok s" "open_ok F t \<longleftrightarrow> open_ok F s" "queue_ok t \<longleftrightarrow> queue_ok s"
proof -
  show "queue_ok t \<longleftrightarrow> queue_ok s" by (rule queue_objs [OF assms(1,2,4)])
  show "active_ok t \<longleftrightarrow> active_ok s" by (simp add: active_ok_def assms)
  have "has_pipes h t \<longleftrightarrow> has_pipes h s" for h
    by (rule has_pipes_cong [OF pipe_of_objs]) (simp_all add: assms)
  then show "open_ok F t \<longleftrightarrow> open_ok F s"
    using settled_same(1) [OF assms(1,2)] by (simp add: open_ok_def ended_def assms)
qed

lemma drop_loop_Ret:
  fixes s t :: "('k, 'z) multi_world_scheme"
  assumes run: "drop_loop K s = Ret r t" and loop: "mu_loop s"
  shows "trace t = close_events (se_control_pipe (sel s)) @ trace s"
    "objs t = objs s" "mu_handles t = mu_handles s" "mu_active t = mu_active s"
    "mu_control_pipe t = mu_control_pipe s" "sigchld_pipe_signal t = sigchld_pipe_signal s"
    "sigchld_active t = sigchld_active s" "sigchld_sa_prev t = sigchld_sa_prev s"
    "mu_sigchld t = mu_sigchld s" "\<not> mu_loop t" "mu_buffer t = mu_buffer s"
proof -
  from run loop obtain p u where c: "close_pipe K (se_control_pipe (sel s)) s = Ret p u"
    and t: "t = u\<lparr>sel := (sel u)\<lparr>se_control_pipe := p\<rparr>, mu_loop := False\<rparr>"
    by (auto simp: drop_loop_def se_destruct_def upd_sel_def ret_iffs)
  note m = close_pipe_Ret [OF c] more_multi [of u s] more_pexec [of u s] more_sigchld [of u s]
  show "trace t = close_events (se_control_pipe (sel s)) @ trace s"
    "objs t = objs s" "mu_handles t = mu_handles s" "mu_active t = mu_active s"
    "mu_control_pipe t = mu_control_pipe s" "sigchld_pipe_signal t = sigchld_pipe_signal s"
    "sigchld_active t = sigchld_active s" "sigchld_sa_prev t = sigchld_sa_prev s"
    "mu_sigchld t = mu_sigchld s" "\<not> mu_loop t" "mu_buffer t = mu_buffer s"
    using m by (simp_all add: t)
qed

text \<open>Closing one of the manager's own pipes.\<close>

lemma pipes_close:
  assumes p: "pipes_ok B s" and same: "objs t = objs s" "mu_handles t = mu_handles s" "mu_active t = mu_active s"
      "mu_buffer t = mu_buffer s"
    and tr: "trace t = close_events (slot_pipe s i) @ es @ trace s"
    and es: "open_fds (es @ trace s) = open_fds (trace s)" "closes_own (es @ trace s) = closes_own (trace s)"
    and slots: "fds_of (slot_pipe t i) = {}" "\<And>j. j \<noteq> i \<Longrightarrow> slot_pipe t j = slot_pipe s j"
  shows "pipes_ok B t"
proof -
  have "parts B (slot_pipe s) (es @ trace s)" using p es by (simp add: pipes_ok_def parts_def)
  from parts_close [OF this, of i] have
    "parts B ((slot_pipe s)(i := (closed_fd (fst (slot_pipe s i)), closed_fd (snd (slot_pipe s i))))) (trace t)"
    by (simp add: tr)
  then have "parts B (slot_pipe t) (trace t)"
    by (rule parts_cong) (use slots in auto)
  with p pipes_owners [OF same] show ?thesis by (simp add: pipes_ok_def)
qed

lemma drop_loop_pipes:
  fixes s t :: "('k, 'z) multi_world_scheme"
  assumes p: "pipes_ok B s" and run: "drop_loop K s = Ret r t" and loop: "mu_loop s"
  shows "pipes_ok B t"
proof (rule pipes_close [OF p, where i = LoopPipe and es = "[]"])
  note d = drop_loop_Ret [OF run loop]
  show "trace t = close_events (slot_pipe s LoopPipe) @ [] @ trace s" using d(1) loop by simp
  show "fds_of (slot_pipe t LoopPipe) = {}" using d(10) by (simp add: fds_of_def)
  show "slot_pipe t j = slot_pipe s j" if "j \<noteq> LoopPipe" for j
  proof (cases j)
    case (ProcPipe h n)
    then show ?thesis using proc_slot_objs [OF d(2)] by (simp del: slot_pipe.simps)
  qed (use d that in simp_all)
qed (use drop_loop_Ret [OF run loop] in simp_all)

lemma sigchld_reset_pipes:
  fixes s t :: "('k, 'z) multi_world_scheme"
  assumes p: "pipes_ok B s" and run: "sigchld_reset_signal_handler K s = Ret ok t" and act: "sigchld_active s"
  shows "pipes_ok B t" "run_rest s t" "sigchld_active t \<longleftrightarrow> \<not> ok"
    "handlers_of (trace t) = handlers_of (trace s) @ (if ok then [sigchld_sa_prev s] else [])"
    "ok \<Longrightarrow> fds_of (sigchld_pipe_signal t) = {}" "sigchld_sa_prev t = sigchld_sa_prev s"
proof -
  from act run obtain q u where q: "sys_sigaction K (sigchld_sa_prev s) s = Ret q u"
    and rest: "(case q of Inl _ \<Rightarrow> ret False
       | Inr _ \<Rightarrow> bind (gets sigchld_pipe_signal) (\<lambda>p. bind (close_pipe K p) (\<lambda>p.
             seq (upd (\<lambda>s. s\<lparr>sigchld_pipe_signal := p, sigchld_active := False\<rparr>)) (ret True)))) u = Ret ok t"
    by (auto simp: sigchld_reset_signal_handler_def ret_iffs)
  note u = sys_sigaction_Ret [OF q]
  have m: "run_rest s u" "sigchld_pipe_signal u = sigchld_pipe_signal s" "sigchld_active u = sigchld_active s"
    "sigchld_sa_prev u = sigchld_sa_prev s"
    using u run_rest_more more_sigchld [of u s] by auto
  have "pipes_ok B t \<and> run_rest s t \<and> (sigchld_active t \<longleftrightarrow> \<not> ok) \<and>
    handlers_of (trace t) = handlers_of (trace s) @ (if ok then [sigchld_sa_prev s] else []) \<and>
    (ok \<longrightarrow> fds_of (sigchld_pipe_signal t) = {}) \<and> sigchld_sa_prev t = sigchld_sa_prev s"
  proof (cases q)
    case (Inl e)
    with rest have t: "t = u" "\<not> ok" by (auto simp: ret_iffs)
    have "trace u = trace s" using u Inl by simp
    moreover have "slot_pipe u = slot_pipe s"
      using slots_run_rest [OF m(1)] m(2) by (simp add: fun_upd_idem)
    moreover have "active_ok u = active_ok s" "open_ok {} u = open_ok {} s" "queue_ok u = queue_ok s"
      using m(1) by (intro pipes_owners; simp add: run_rest_def)+
    ultimately show ?thesis using p m act unfolding t by (simp add: pipes_ok_def t)
  next
    case (Inr old)
    with rest obtain p' v where c: "close_pipe K (sigchld_pipe_signal u) u = Ret p' v"
      and t: "t = v\<lparr>sigchld_pipe_signal := p', sigchld_active := False\<rparr>" "ok" by (auto simp: ret_iffs)
    note v = close_pipe_Ret [OF c] more_sigchld [of v u]
    have "run_rest u v" using v run_rest_more by blast
    then have r: "run_rest s t" using m(1) by (simp add: run_rest_def t)
    have tr: "trace t = close_events (slot_pipe s SignalPipe) @ [ESigaction (sigchld_sa_prev s)] @ trace s"
      using u v Inr m(2) by (simp add: t)
    have closed: "fds_of (sigchld_pipe_signal t) = {}" using v by (simp add: t)
    have "pipes_ok B t"
      by (rule pipes_close [OF p _ _ _ _ tr])
         (use r closed slots_run_rest [OF r] in \<open>simp_all add: run_rest_def\<close>)
    with r tr closed v m(4) show ?thesis by (simp add: t live_pids_close)
  qed
  then show "pipes_ok B t" "run_rest s t" "sigchld_active t \<longleftrightarrow> \<not> ok"
    "handlers_of (trace t) = handlers_of (trace s) @ (if ok then [sigchld_sa_prev s] else [])"
    "ok \<Longrightarrow> fds_of (sigchld_pipe_signal t) = {}" "sigchld_sa_prev t = sigchld_sa_prev s" by blast+
qed

context multi_client begin

lemma drops_finished:
  assumes b: "books g {} {} s" and run: "block [drop_loop K, drop_sigchld N K U] s = Ret r t"
  shows "finished g t"
proof -
  from run obtain u where u: "drop_loop K s = Ret () u" and d: "drop_sigchld N K U u = Ret () t"
    by (auto simp: ret_iffs)
  have loop: "mu_loop s" using b by (simp add: books_def loop_ok_def own_loop_def)
  note l = drop_loop_Ret [OF u loop]
  note p = drop_loop_pipes [OF books_pipes [OF b] u loop]
  have act: "sigchld_active u" and wired: "mu_sigchld u = WiredSigchld" and ctl: "mu_control_pipe u = g_control g"
    and prev: "sigchld_sa_prev u = g_prev g" and hs: "handlers_of (trace u) = g_handlers g"
    using b l by (simp_all add: books_def ground_ok_def live_pids_close)
  from d wired obtain ok v w where v: "sigchld_reset_signal_handler K u = Ret ok v"
    and e: "onlyif (\<not> ok) (sh_process_error (sigchld_cbs N K U) SIGACTION_RESET_ERROR) v = Ret () w"
    and t: "t = w\<lparr>mu_sigchld := NoSigchld\<rparr>"
    by (auto simp: drop_sigchld_def destroy_sigchld_def sh_destruct_def ret_iffs)
  note r = sigchld_reset_pipes [OF p v act]
  have c: "calm {} v w"
    using e presD [OF calm_sh_error] by (auto simp: ret_iffs ca.R_refl split: if_splits)
  have pw: "pipes_ok (g_open g) w" by (rule calm_pipes [OF c r(1)])
  have k: "kept_books v w" by (rule calm_kept [OF c])
  from c obtain es where es: "trace w = es @ trace v" "\<forall>e \<in> set es. calm_event e" by (auto simp: calm_def)
  have "handlers_of (trace w) = handlers_of (trace v)"
    using es calm_projections [OF es(2), of "trace v"] by simp
  moreover have "slot_pipe t = slot_pipe w" by (rule slot_pipe_frame) (simp_all add: t)
  moreover have "active_ok t = active_ok w" "open_ok {} t = open_ok {} w" "queue_ok t = queue_ok w" by (rule pipes_owners; simp add: t)+
  ultimately show ?thesis
    using pw k r l(10) ctl prev hs
    by (simp add: finished_def pipes_ok_def kept_books_def run_rest_def t)
qed

lemma ext_drops:
  "pres extends (drop_loop K :: (('k, 'z) multi_world_scheme, _) prog)"
  "pres extends (drop_sigchld N K U)"
proof -
  have close: "pres extends (close_pipe K p :: (('k, 'z) multi_world_scheme, _) prog)" for p
    by (auto simp: pres_def extends_def dest!: close_pipe_Ret)
  have sa: "pres extends (sys_sigaction K hd :: (('k, 'z) multi_world_scheme, _) prog)" for hd
    by (auto simp: pres_def extends_def dest!: sys_sigaction_Ret split: sum.splits)
  have reset: "pres extends (sigchld_reset_signal_handler K :: (('k, 'z) multi_world_scheme, _) prog)"
    unfolding sigchld_reset_signal_handler_def by (intro ex.pres_intros sa close ext_upd; simp)
  have "pres extends (sh_process_error no_callbacks e :: (('k, 'z) multi_world_scheme, _) prog)" for e
    unfolding sh_process_error_def no_callbacks_def by (auto intro!: ex.pres_intros ext_upd)
  then have "pres extends (destroy_sigchld N K U ptr)" for ptr
    unfolding destroy_sigchld_def sh_destruct_def
    by (cases ptr) (auto intro!: ex.pres_intros reset ext_calm [OF calm_sh_error])
  then show "pres extends (drop_sigchld N K U)"
    unfolding drop_sigchld_def by (intro ex.pres_intros ext_upd; simp)
  show "pres extends (drop_loop K :: (('k, 'z) multi_world_scheme, _) prog)"
    unfolding drop_loop_def se_destruct_def by (intro ex.pres_intros close ext_upd_sel ext_upd; simp)
qed

text \<open>The run once the handler is installed.\<close>

lemma run_body:
  fixes s t :: "('k, 'z) multi_world_scheme"
  assumes b: "books g {} {} s" and none: "mu_registered s = []" and ty: "mu_type s = DEFAULT"
    and run: "block [bind sh_get_read_fd (\<lambda>fd. mu_add_read_event K U fd RSignal),
        bind (gets (\<lambda>s. fst (mu_control_pipe s))) (\<lambda>fd. mu_add_read_event K U fd RControl),
        bind (gets mu_type) (\<lambda>ty. onlyif (ty = DEFAULT)
          (block [se_loop N K (multi_callbacks N K U), drop_loop K, drop_sigchld N K U]))] s = Ret r t"
    and sane: "sane (trace t)"
  shows "finished g t"
proof -
  from run obtain u v where u: "mu_add_read_event K U (fst (slot_pipe s SignalPipe)) RSignal s = Ret () u"
    and v: "mu_add_read_event K U (fst (slot_pipe u ControlPipe)) RControl u = Ret () v"
    and rest: "onlyif (mu_type v = DEFAULT)
      (block [se_loop N K (multi_callbacks N K U), drop_loop K, drop_sigchld N K U]) v = Ret () t"
    by (auto simp: sh_get_read_fd_def sigchld_get_signal_fd_def ret_iffs)
  from books_watch_both [OF b none u v] ty
  have bv: "books g {} {} v" and "mu_type v = DEFAULT" by simp_all
  with rest obtain w where w: "se_loop N K (multi_callbacks N K U) v = Ret () w"
    and d: "block [drop_loop K, drop_sigchld N K U] w = Ret () t" by (auto simp: ret_iffs)
  have "pres extends (block [drop_loop K, drop_sigchld N K U])" by (intro ex.pres_intros ext_drops)
  from extends_sane [OF presD [OF this d] sane] have "sane (trace w)" .
  then have "books g {} {} w" by (rule tripleD [OF triple_se_loop bv w])
  then show ?thesis by (rule drops_finished [OF _ d])
qed

text \<open>The whole run: either the handler could not be installed, or the run was finished.\<close>

lemma run_steps:
  fixes s t :: "('k, 'z) multi_world_scheme"
  assumes idle: "mu_type s = DEFAULT" "\<not> mu_loop s" "mu_sigchld s = NoSigchld"
    and run: "run N K U s = Ret r t"
  obtains u v where "new_loop K s = Ret () u"
    "new_sigchld N K U (u\<lparr>mu_register := LoopRegister\<rparr>) = Ret () v"
    "(if \<not> sh_valid v then bind (gets sh_last_error) (mu_process_error U)
      else block
       [upd (\<lambda>s. s\<lparr>mu_sigchld := WiredSigchld\<rparr>),
        bind sh_get_read_fd (\<lambda>fd. mu_add_read_event K U fd RSignal),
        bind (gets (\<lambda>s. fst (mu_control_pipe s))) (\<lambda>fd. mu_add_read_event K U fd RControl),
        bind (gets mu_type) (\<lambda>ty. onlyif (ty = DEFAULT)
          (block [se_loop N K (multi_callbacks N K U), drop_loop K, drop_sigchld N K U]))]) v = Ret () t"
    "extends s u" "extends (u\<lparr>mu_register := LoopRegister\<rparr>) v" "extends v t"
proof -
  let ?rest = "\<lambda>v. if \<not> sh_valid v then bind (gets sh_last_error) (mu_process_error U)
      else block
       [upd (\<lambda>s. s\<lparr>mu_sigchld := WiredSigchld\<rparr>),
        bind sh_get_read_fd (\<lambda>fd. mu_add_read_event K U fd RSignal),
        bind (gets (\<lambda>s. fst (mu_control_pipe s))) (\<lambda>fd. mu_add_read_event K U fd RControl),
        bind (gets mu_type) (\<lambda>ty. onlyif (ty = DEFAULT)
          (block [se_loop N K (multi_callbacks N K U), drop_loop K, drop_sigchld N K U]))]"
  from run idle(1) obtain u v where u: "new_loop K s = Ret () u"
    and v: "new_sigchld N K U (u\<lparr>mu_register := LoopRegister\<rparr>) = Ret () v" and body: "?rest v v = Ret () t"
    by (auto simp: run_def ret_iffs)
  have "pres extends (?rest v)"
    by (intro pres_if ex.pres_intros ext_calm [OF calm_mu_process_error [where H = "{}"]] ext_upd ext_register
        triple_ext [OF triple_se_loop] ext_drops) (simp_all add: sh_get_read_fd_def sigchld_get_signal_fd_def ex.pres_gets)
  then have vt: "extends v t" using body by (rule presD)
  have uv: "extends (u\<lparr>mu_register := LoopRegister\<rparr>) v"
    using new_sigchld_Ret(3) [OF v] new_loop_Ret(4) [OF u idle(2)] idle(3)
    by (auto simp: extends_def split: if_splits)
  have "extends s u" using new_loop_Ret(1) [OF u idle(2)] by (auto simp: extends_def)
  from that [OF u v body this uv vt] show ?thesis .
qed

lemma run_extends:
  fixes s t :: "('k, 'z) multi_world_scheme"
  assumes "mu_type s = DEFAULT" "\<not> mu_loop s" "mu_sigchld s = NoSigchld" "run N K U s = Ret r t"
  shows "extends s t"
  by (rule run_steps [OF assms]) (auto simp: extends_def)

lemma run_Ret:
  fixes s t :: "('k, 'z) multi_world_scheme"
  assumes rest: "at_rest s" and run: "run N K U s = Ret r t" and sane: "sane (trace t)"
  defines "B \<equiv> open_fds (trace s) - fds_of (mu_control_pipe s)"
  shows "pipes_ok B t \<and> mu_control_pipe t = mu_control_pipe s \<and>
     (if mu_loop t then \<not> sigchld_active t \<and> fds_of (sigchld_pipe_signal t) = {} \<and> mu_active t = [] \<and>
        handlers_of (trace t) = handlers_of (trace s)
      else installed K t \<and> mu_sigchld t = NoSigchld \<and> (sigchld_active t \<or> fds_of (sigchld_pipe_signal t) = {}) \<and>
        handlers_of (trace t) = handlers_of (trace s) @
          (if sigchld_active t then [MULTI_HANDLER] else [MULTI_HANDLER, sigchld_sa_prev t]))"
proof -
  let ?body = "[upd (\<lambda>s. s\<lparr>mu_sigchld := WiredSigchld\<rparr>),
        bind sh_get_read_fd (\<lambda>fd. mu_add_read_event K U fd RSignal),
        bind (gets (\<lambda>s. fst (mu_control_pipe s))) (\<lambda>fd. mu_add_read_event K U fd RControl),
        bind (gets mu_type) (\<lambda>ty. onlyif (ty = DEFAULT)
          (block [se_loop N K (multi_callbacks N K U), drop_loop K, drop_sigchld N K U]))]"
  have idle: "mu_type s = DEFAULT" "\<not> mu_loop s" "mu_sigchld s = NoSigchld"
    using rest by (simp_all add: at_rest_def)
  from run obtain u0 v where u0: "new_loop K s = Ret () u0"
    and v: "new_sigchld N K U (u0\<lparr>mu_register := LoopRegister\<rparr>) = Ret () v"
    and body: "(if \<not> sh_valid v then bind (gets sh_last_error) (mu_process_error U) else block ?body) v = Ret () t"
    and uv: "extends (u0\<lparr>mu_register := LoopRegister\<rparr>) v" and vt: "extends v t"
    by (rule run_steps [OF idle])
  from vt have fv: "fresh_pipes (trace v)" using extends_fresh sane by (auto simp: sane_def)
  have fu: "fresh_pipes (trace u0)" using extends_fresh [OF uv fv] by simp
  note l = launched_loop [OF rest u0 fu]
  note m = launched_sigchld [OF l(1,3,5) v fv]
  have r: "run_rest (u0\<lparr>mu_register := LoopRegister\<rparr>) v" by (rule new_sigchld_Ret(1) [OF v l(3)])
  have ctl: "mu_control_pipe v = mu_control_pipe s" using r l(6) by (simp add: run_rest_def)
  show ?thesis
  proof (cases "sh_valid v")
    case False
    with body have "mu_process_error U (sh_last_error v) v = Ret () t" by (simp add: prog_simps)
    from presD [OF calm_mu_process_error this] have c: "calm {} v t" .
    have "pipes_ok B v"
      using m(1) by (simp add: pipes_ok_def launched_def active_ok_def open_ok_def B_def)
    with c have "pipes_ok B t" by (rule calm_pipes)
    moreover from c obtain es where "trace t = es @ trace v" "\<forall>e \<in> set es. calm_event e"
      by (auto simp: calm_def)
    moreover have "mu_loop v" "mu_active v = []" using m(1) by (simp_all add: launched_def own_loop_def)
    ultimately show ?thesis
      using calm_kept [OF c] m(3) [OF False] l(2,4) ctl calm_projections [of es "trace v"]
      by (simp add: kept_books_def)
  next
    case True
    let ?v = "v\<lparr>mu_sigchld := WiredSigchld\<rparr>"
    let ?g = "\<lparr>g_open = B, g_control = mu_control_pipe v, g_handlers = handlers_of (trace v),
      g_prev = sigchld_sa_prev v\<rparr>"
    have b: "books ?g {} {} ?v"
      unfolding B_def using m(2) [OF True] by (intro books_wired m(1)) simp_all
    have "mu_registered ?v = []" "mu_type ?v = DEFAULT" using m(1) by (simp_all add: launched_def)
    moreover have "block (tl ?body) ?v = Ret () t" using body True by (simp add: prog_simps)
    ultimately have "finished ?g t" using sane by (intro run_body [OF b]) simp_all
    with m(2) [OF True] l(2) ctl show ?thesis
      by (auto simp: finished_def installed_def)
  qed
qed

end

end
