(* ===== verification/Multi_Program.thy ===== *)
theory Multi_Program
  imports Multi_Life
begin

section \<open>The program around a run\<close>

text \<open>
  The lemmas on what comes before and after \<open>run\<close>: constructing the manager, queueing programs
  and a stop job, destroying the manager.
\<close>

subsection \<open>Queueing programs\<close>

lemma fresh_handle:
  fixes s t :: "('k, 'z) multi_world_scheme"
  assumes run: "make_handle h args s = Ret r t" and new: "\<not> nonblocking h s"
  shows "calm {} s t" "untouched h t" "mu_buffer t = mu_buffer s" "mu_type t = mu_type s"
    "h' \<noteq> h \<Longrightarrow> objs t h' = objs s h'"
proof -
  let ?x = "(init_pexec 1024)\<lparr>px_type := NONBLOCKING\<rparr>"
  from run obtain y where t: "t = s\<lparr>mu_handles := (mu_handles s)(h := y), objs := (objs s)(h := ?x)\<rparr>"
    and y: "mh_proc_stopped y = None" "ps_pid (st_proc (mh_ret y)) = 0" "st_state (mh_ret y) = STARTED"
    by (auto simp: make_handle_def handle_upd_def set_type_def this_upd_def ret_iffs
        init_pexec_status_def init_proc_status_def)
  have "pipe_of n h t = (-1, -1)" if "n \<noteq> PSignal" for n
    using that by (cases n) (simp_all add: t init_pexec_def)
  then have "shut h t" by (simp add: shut_def fds_of_def del: pipe_of.simps)
  with y show u: "untouched h t"
    by (simp add: untouched_def ended_def final_state_def t init_pexec_def init_proc_status_def)
  show "mu_buffer t = mu_buffer s" "mu_type t = mu_type s" "h' \<noteq> h \<Longrightarrow> objs t h' = objs s h'"
    by (simp_all add: t)
  have "kept_self h' s t" if "nonblocking h' s" for h'
    using that new by (intro kept_self_same) (auto simp: t)
  moreover have "untouched h' t" if "\<not> nonblocking h' s" "nonblocking h' t" for h'
    using that u by (cases "h' = h") (auto simp: t)
  ultimately show "calm {} s t"
    using new by (auto simp: calm_def kept_books_def more_jobs_def t)
qed

text \<open>A new handle whose job comes after whatever a callback did with it.\<close>

lemma calm_spawn:
  fixes s u :: "('k, 'z) multi_world_scheme"
  assumes run: "make_handle h args s = Ret r u" and new: "\<not> nonblocking h s"
    and cb: "calm {} u v" and job: "send_job K (Some (Spawn h)) v = Ret r' t"
  shows "calm {} s t" "mu_type t = mu_type v" "objs t = objs v"
proof -
  note f = fresh_handle [OF run new]
  from job obtain q w where q: "qb_add (Some (Spawn h)) (mu_buffer v) = Some q"
    and w: "mu_interrupt K (v\<lparr>mu_buffer := q\<rparr>) = Ret () w" and t: "t = w"
    by (auto simp: send_job_def ret_iffs split: option.splits)
  let ?v = "v\<lparr>mu_buffer := q\<rparr>"
  have buf: "qb_buffer q = qb_buffer (mu_buffer v) @ [Some (Spawn h)]"
    using q by (auto simp: qb_add_def split: if_splits)
  have sv: "calm {} s v" using f(1) cb by (rule ca.R_trans)
  have hv: "untouched h v" by (rule calm_keeps_untouched [OF cb f(2)])
  have same: "untouched h' ?v \<longleftrightarrow> untouched h' v" "kept_self h' s ?v \<longleftrightarrow> kept_self h' s v" for h'
    using shut_cong [OF pipe_of_objs, of ?v v h'] pipe_of_objs [of ?v v _ h']
    by (auto simp: untouched_def kept_self_def ended_def simp del: pipe_of.simps)
  from cb f(3) obtain js where js: "qb_buffer (mu_buffer v) = qb_buffer (mu_buffer s) @ js"
    "distinct (spawns js)" "\<forall>h \<in> set (spawns js). \<not> nonblocking h u \<and> untouched h v"
    by (auto simp: calm_def more_jobs_def)
  have "nonblocking h u" using f(2) by (simp add: untouched_def)
  moreover have "\<not> nonblocking h' s" if "\<not> nonblocking h' u" for h'
    using that calm_nonblocking [OF f(1)] by blast
  ultimately have "more_jobs s ?v"
    using js new hv buf unfolding more_jobs_def same by (intro exI [of _ "js @ [Some (Spawn h)]"]) auto
  with sv have "calm {} s ?v" by (simp add: calm_def same kept_books_def)
  moreover have "pres (calm {} :: ('k, 'z) multi_world_scheme \<Rightarrow> _) (mu_interrupt K)"
    unfolding mu_interrupt_def by (intro ca.pres_intros calm_sys)
  ultimately show "calm {} s t" using w unfolding t by (blast intro: ca.R_trans presD)
  show "mu_type t = mu_type v" "objs t = objs v"
    using w sys_write_effect [of K "snd (mu_control_pipe ?v)" "[NUL]" ?v] more_multi [of w ?v]
      more_pexec [of w ?v]
    by (auto simp: mu_interrupt_def ret_iffs t)
qed

lemma calm_multi_exec:
  fixes s t :: "('k, 'z) multi_world_scheme"
  assumes "multi_exec K h args s = Ret r t" and "\<not> nonblocking h s"
  shows "calm {} s t" "mu_type t = mu_type s" "h' \<noteq> h \<Longrightarrow> objs t h' = objs s h'" "nonblocking h t"
proof -
  from assms(1) obtain u where "make_handle h args s = Ret () u" "send_job K (Some (Spawn h)) u = Ret () t"
    by (auto simp: multi_exec_def ret_iffs)
  from calm_spawn [OF this(1) assms(2) ca.R_refl this(2)] fresh_handle(2,4,5) [OF this(1) assms(2)]
  show "calm {} s t" "mu_type t = mu_type s" "h' \<noteq> h \<Longrightarrow> objs t h' = objs s h'" "nonblocking h t"
    by (simp_all add: untouched_def)
qed

lemma calm_multi_exec_proc:
  fixes s t :: "('k, 'z) multi_world_scheme"
  assumes "multi_exec_proc K h args cb s = Ret r t" and "\<not> nonblocking h s" and "pres (calm {}) (cb h)"
  shows "calm {} s t"
proof -
  from assms(1) obtain u v where "make_handle h args s = Ret () u" "cb h u = Ret () v"
    "send_job K (Some (Spawn h)) v = Ret () t"
    by (auto simp: multi_exec_proc_def ret_iffs)
  from calm_spawn(1) [OF this(1) assms(2) presD [OF assms(3) this(2)] this(3)] show ?thesis .
qed

lemma calm_multi_stop: "pres (calm H :: ('k, 'z) multi_world_scheme \<Rightarrow> _) (multi_stop K sf sig)"
  for K :: "'k platform"
  unfolding multi_stop_def by (rule calm_send_job) simp

lemma send_job_type:
  fixes s t :: "('k, 'z) multi_world_scheme"
  assumes "send_job K ptr s = Ret r t"
  shows "mu_type t = mu_type s"
proof -
  from assms obtain q where w: "mu_interrupt K (s\<lparr>mu_buffer := q\<rparr>) = Ret () t"
    by (auto simp: send_job_def ret_iffs split: option.splits)
  from w sys_write_effect [of K "snd (mu_control_pipe s)" "[NUL]" "s\<lparr>mu_buffer := q\<rparr>"]
    more_multi [of t "s\<lparr>mu_buffer := q\<rparr>"]
  show ?thesis by (auto simp: mu_interrupt_def ret_iffs)
qed

text \<open>Any number of programs may be queued, each with a handle of its own.\<close>

definition enqueue :: "'k platform \<Rightarrow> (nat \<times> string) list \<Rightarrow> (('k, 'z) multi_world_scheme, unit) prog" where
  "enqueue K cmds = foreach cmds (\<lambda>c. multi_exec K (fst c) (snd c))"

lemma calm_enqueue:
  fixes s t :: "('k, 'z) multi_world_scheme"
  assumes "enqueue K cmds s = Ret r t" and "distinct (map fst cmds)"
    and "\<forall>h \<in> set (map fst cmds). \<not> nonblocking h s"
  shows "calm {} s t \<and> mu_type t = mu_type s \<and> (\<forall>h \<in> set (map fst cmds). nonblocking h t)"
  using assms
proof (induction cmds arbitrary: s)
  case Nil
  then show ?case by (simp add: enqueue_def ca.R_refl prog_simps)
next
  case (Cons c cmds)
  then obtain u where u: "multi_exec K (fst c) (snd c) s = Ret () u" and t: "enqueue K cmds u = Ret r t"
    by (auto simp: enqueue_def ret_iffs)
  have new: "\<not> nonblocking (fst c) s" using Cons.prems by simp
  note e = calm_multi_exec [OF u new]
  have "\<not> nonblocking h u" if "h \<in> set (map fst cmds)" for h
  proof -
    have "fst c \<notin> set (map fst cmds)" using Cons.prems(2) by simp
    with that have "h \<noteq> fst c" by blast
    with e(3) have "objs u h = objs s h" by blast
    with Cons.prems(3) that show ?thesis by force
  qed
  with Cons.IH [OF t] Cons.prems(2) have tu: "calm {} u t" "mu_type t = mu_type u"
    "\<forall>h \<in> set (map fst cmds). nonblocking h t" by simp_all
  moreover have "nonblocking (fst c) t" by (rule calm_nonblocking [OF tu(1) e(4)])
  ultimately show ?case using ca.R_trans [OF e(1) tu(1)] e(2) by simp
qed

subsection \<open>Around a run\<close>

text \<open>A process that has not used the library's manager.\<close>

definition no_manager :: "('k, 'z) multi_world_scheme \<Rightarrow> bool" where
  "no_manager s \<longleftrightarrow>
     (\<forall>h. \<not> nonblocking h s) \<and> \<not> sigchld_active s \<and> fds_of (sigchld_pipe_signal s) = {} \<and>
     closes_own (trace s)"

lemma construct_at_rest:
  fixes s t :: "('k, 'z) multi_world_scheme"
  assumes run: "mu_construct K s = Ret r t" and new: "no_manager s" and fresh: "fresh_pipes (trace t)"
  shows "at_rest t" "open_fds (trace t) = open_fds (trace s) \<union> fds_of (mu_control_pipe t)"
    "fds_of (mu_control_pipe t) \<inter> open_fds (trace s) = {}"
    "handlers_of (trace t) = handlers_of (trace s)"
proof -
  let ?s = "s\<lparr>mu_control_pipe := (-1, -1), mu_type := DEFAULT, mu_sigchld := NoSigchld,
            mu_loop := False, mu_buffer := empty_queue, mu_active := [], mu_err := NO_ERROR,
            mu_registered := [], mu_register := NoRegister, mu_stop_flag := STOP_WAIT,
            mu_stop_signum := 0, mu_stopping := False\<rparr>"
  from run obtain q u where q: "sys_pipe2 K (O_CLOEXEC OR O_NONBLOCK) ?s = Ret q u"
    and rest: "(case q of Inl _ \<Rightarrow> assertion False | Inr p \<Rightarrow> upd (\<lambda>s. s\<lparr>mu_control_pipe := p\<rparr>)) u = Ret () t"
    by (auto simp: mu_construct_def ret_iffs)
  note u = sys_pipe2_Ret [OF q]
  note m = more_multi [of u ?s] more_pexec [of u ?s] more_sigchld [of u ?s]
  from rest obtain a b where ab: "q = Inr (a, b)" by (cases q) (auto simp: ret_iffs)
  with rest have t: "t = u\<lparr>mu_control_pipe := (a, b)\<rparr>" by (simp add: ret_iffs)
  have tr: "trace t = EPipe a b # trace s" using u ab by (simp add: t)
  with fresh have f: "0 \<le> a" "0 \<le> b" "a \<noteq> b" "a \<notin> open_fds (trace s)" "b \<notin> open_fds (trace s)" by auto
  then have ab_fds: "fds_of (mu_control_pipe t) = {a, b}" by (auto simp: fds_of_def t)
  show "at_rest t"
    using new u m f tr ab_fds
    by (simp add: at_rest_def no_manager_def queue_ok_def t empty_queue_def)
  show "open_fds (trace t) = open_fds (trace s) \<union> fds_of (mu_control_pipe t)"
    "fds_of (mu_control_pipe t) \<inter> open_fds (trace s) = {}"
    "handlers_of (trace t) = handlers_of (trace s)"
    using f by (auto simp: ab_fds tr)
qed

text \<open>Jobs may be queued while no run goes on.\<close>

lemma calm_at_rest:
  fixes s t :: "('k, 'z) multi_world_scheme"
  assumes c: "calm H s t" and rest: "at_rest s" and ty: "mu_type t = mu_type s"
  shows "at_rest t" "open_fds (trace t) = open_fds (trace s)"
    "handlers_of (trace t) = handlers_of (trace s)" "mu_control_pipe t = mu_control_pipe s"
proof -
  from c obtain es where es: "trace t = es @ trace s" "\<forall>e \<in> set es. calm_event e"
    by (auto simp: calm_def)
  note p = calm_projections [OF es(2), of "trace s"]
  show o: "open_fds (trace t) = open_fds (trace s)" "handlers_of (trace t) = handlers_of (trace s)"
    using p es(1) by simp_all
  show "mu_control_pipe t = mu_control_pipe s" using calm_kept [OF c] by (simp add: kept_books_def)
  have "settled h t" if "nonblocking h t" for h
    using that rest by (intro calm_settled [OF c]) (simp_all add: at_rest_def)
  moreover have "queue_ok t" using calm_queue [OF c] rest by (simp add: at_rest_def)
  ultimately show "at_rest t"
    using rest calm_kept [OF c] ty o(1) p es(1) by (simp add: at_rest_def kept_books_def)
qed

text \<open>The destructor, after a run or after one that failed in the beginning.\<close>

lemma reset_inactive:
  "\<not> sigchld_active s \<Longrightarrow> sigchld_reset_signal_handler K s = Ret False s"
  by (simp add: sigchld_reset_signal_handler_def prog_simps)

context multi_client begin

lemma drop_sigchld_idle:
  fixes s t :: "('k, 'z) multi_world_scheme"
  assumes run: "drop_sigchld N K U s = Ret r t" and off: "\<not> sigchld_active s \<or> mu_sigchld s = NoSigchld"
  shows "\<exists>u. calm {} s u \<and> t = u\<lparr>mu_sigchld := NoSigchld\<rparr>"
proof (cases "mu_sigchld s = NoSigchld")
  case True
  with run have "t = s\<lparr>mu_sigchld := NoSigchld\<rparr>"
    by (auto simp: drop_sigchld_def destroy_sigchld_def ret_iffs)
  then show ?thesis using ca.R_refl by blast
next
  case False
  with off have inactive: "\<not> sigchld_active s" by blast
  have plain: "pres (calm {} :: ('k, 'z) multi_world_scheme \<Rightarrow> _) (sh_process_error no_callbacks e)" for e
  proof -
    have "pres (calm {} :: ('k, 'z) multi_world_scheme \<Rightarrow> _) (upd (\<lambda>s. s\<lparr>sh_err := e\<rparr>))"
      by (rule calm_upd) (simp add: kept_books_def)
    then show ?thesis unfolding sh_process_error_def no_callbacks_def by (auto intro!: ca.pres_intros)
  qed
  from run obtain u where u: "destroy_sigchld N K U (mu_sigchld s) s = Ret () u"
    and t: "t = u\<lparr>mu_sigchld := NoSigchld\<rparr>" by (auto simp: drop_sigchld_def ret_iffs)
  have "calm {} s u"
    using u False presD [OF plain] presD [OF calm_sh_error]
    by (cases "mu_sigchld s")
       (auto simp: destroy_sigchld_def sh_destruct_def ret_iffs reset_inactive [OF inactive])
  with t show ?thesis by blast
qed

text \<open>The user whose error callback is destroyed already is within the contract too.\<close>

lemma dead_client: "multi_client (dead_user U)"
  using user_stdout user_stderr user_error user_state user_stop user_register
  by unfold_locales (auto simp: dead_user_def ca.pres_finish)

lemma ext_destruct: "pres extends (mu_destruct N K U)"
proof -
  have "pres extends (close_pipe K p :: (('k, 'z) multi_world_scheme, _) prog)" for p
    by (auto simp: pres_def extends_def dest!: close_pipe_Ret)
  then show ?thesis
    unfolding mu_destruct_def
    by (intro ex.pres_intros ext_drops(1) multi_client.ext_drops(2) [OF dead_client] ext_upd; simp)
qed

lemma destruct_pipes:
  fixes s t :: "('k, 'z) multi_world_scheme"
  assumes p: "pipes_ok B s" and run: "mu_destruct N K U s = Ret r t"
    and off: "if mu_loop s then \<not> sigchld_active s else mu_sigchld s = NoSigchld"
  shows "pipes_ok B t" "fds_of (mu_control_pipe t) = {}" "\<not> mu_loop t"
    "sigchld_active t = sigchld_active s" "sigchld_pipe_signal t = sigchld_pipe_signal s"
    "handlers_of (trace t) = handlers_of (trace s)" "sigchld_sa_prev t = sigchld_sa_prev s"
proof -
  from run obtain q u0 v where c: "close_pipe K (mu_control_pipe s) s = Ret q u0"
    and l: "drop_loop K (u0\<lparr>mu_control_pipe := q\<rparr>) = Ret () v" and d: "drop_sigchld N K (dead_user U) v = Ret () t"
    by (auto simp: mu_destruct_def ret_iffs)
  let ?u = "u0\<lparr>mu_control_pipe := q\<rparr>"
  note u = close_pipe_Ret [OF c] more_multi [of u0 s] more_pexec [of u0 s] more_sigchld [of u0 s]
  have pu: "pipes_ok B ?u"
  proof (rule pipes_close [OF p, where i = ControlPipe and es = "[]"])
    show "slot_pipe ?u j = slot_pipe s j" if "j \<noteq> ControlPipe" for j
    proof (cases j)
      case (ProcPipe h n)
      then show ?thesis using proc_slot_objs [of ?u s h n] u by (simp del: slot_pipe.simps)
    qed (use u that in simp_all)
  qed (use u in simp_all)
  have v: "pipes_ok B v \<and> \<not> mu_loop v \<and> mu_control_pipe v = q \<and> mu_sigchld v = mu_sigchld s \<and>
     sigchld_active v = sigchld_active s \<and> sigchld_pipe_signal v = sigchld_pipe_signal s \<and>
     sigchld_sa_prev v = sigchld_sa_prev s \<and> handlers_of (trace v) = handlers_of (trace s)"
  proof (cases "mu_loop ?u")
    case True
    from drop_loop_pipes [OF pu l True] drop_loop_Ret [OF l True] u show ?thesis
      by (simp add: live_pids_close)
  next
    case False
    with l have "v = ?u" by (auto simp: drop_loop_def ret_iffs)
    with pu u False show ?thesis by (simp add: live_pids_close)
  qed
  have "\<not> sigchld_active v \<or> mu_sigchld v = NoSigchld" using v off by (auto split: if_splits)
  from multi_client.drop_sigchld_idle [OF dead_client d this] obtain w where w: "calm {} v w"
    and t: "t = w\<lparr>mu_sigchld := NoSigchld\<rparr>" by blast
  have k: "kept_books v w" by (rule calm_kept [OF w])
  from w obtain es where es: "trace w = es @ trace v" "\<forall>e \<in> set es. calm_event e" by (auto simp: calm_def)
  have pw: "pipes_ok B w" using calm_pipes [OF w] v by blast
  have "slot_pipe t = slot_pipe w" by (rule slot_pipe_frame) (simp_all add: t)
  moreover have "active_ok t = active_ok w" "open_ok {} t = open_ok {} w" "queue_ok t = queue_ok w" by (rule pipes_owners; simp add: t)+
  ultimately show "pipes_ok B t" using pw by (simp add: pipes_ok_def t)
  show "fds_of (mu_control_pipe t) = {}" "\<not> mu_loop t"
    "sigchld_active t = sigchld_active s" "sigchld_pipe_signal t = sigchld_pipe_signal s"
    "sigchld_sa_prev t = sigchld_sa_prev s"
    using k v u by (simp_all add: kept_books_def t)
  show "handlers_of (trace t) = handlers_of (trace s)"
    using v es calm_projections [OF es(2), of "trace v"] by (simp add: t)
qed

end

end
