(* ===== verification/Multi_Frame.thy ===== *)
theory Multi_Frame
  imports Multi_Jobs Pexec_Frame
begin

section \<open>What a relation needs to be respected by the manager\<close>

text \<open>
  The counterpart of \<open>px_frame\<close> for \<open>pexec_multi\<close>: from which steps it follows that a
  reflexive and transitive relation holds between the states before and after every operation
  of the manager, a whole \<open>run\<close> and the destructor. The locale \<open>job_steps\<close> is for
  relations that look at the queue: the steps are unreported events, changes of the
  manager's own state (the queue, the flag \<open>stopping_\<close> and the callback set when a program was
  started stay), a new job at the end of the queue, setting that callback, and each of the
  user's callbacks together with the event that announces it. Taking a job off the queue is
  none of them; \<open>job_frame\<close> adds what is needed of \<open>dispatch_job\<close>. A relation that does not
  look at the queue needs only \<open>manager_frame\<close>.
\<close>

definition user_state ::
  "('k, 'z) user \<Rightarrow> nat \<Rightarrow> pstate \<Rightarrow> proc_status \<Rightarrow> (('k, 'z) multi_world_scheme, proc_status) prog" where
  "user_state U h st p = (case hu_state (us_handle U h) of None \<Rightarrow> ret p | Some f \<Rightarrow> f st p)"

definition user_error :: "('k, 'z) user \<Rightarrow> nat \<Rightarrow> error \<Rightarrow> (('k, 'z) multi_world_scheme, unit) prog" where
  "user_error U h e = (case hu_error (us_handle U h) of None \<Rightarrow> skip | Some f \<Rightarrow> f e)"

definition user_output ::
  "('k, 'z) user \<Rightarrow> nat \<Rightarrow> channel \<Rightarrow> string \<Rightarrow> nat \<Rightarrow> (('k, 'z) multi_world_scheme, unit) prog" where
  "user_output U h ch buf n =
     (case (case ch of Stdout \<Rightarrow> hu_stdout (us_handle U h) | Stderr \<Rightarrow> hu_stderr (us_handle U h)) of
        None \<Rightarrow> skip | Some f \<Rightarrow> f buf n)"

locale job_steps = step_rel R
  for R :: "('k, 'z) multi_world_scheme \<Rightarrow> ('k, 'z) multi_world_scheme \<Rightarrow> bool" +
  fixes K :: "'k platform" and U :: "('k, 'z) user"
  assumes fit: "reads_fit K"
    and R_adds: "adds unreported s t \<Longrightarrow> R s t"
    and R_own: "trace t = trace s \<Longrightarrow> multi_world.more t = multi_world.more s \<Longrightarrow>
      (\<And>h. px_type (objs t h) = px_type (objs s h)) \<Longrightarrow> mu_buffer t = mu_buffer s \<Longrightarrow>
      mu_stopping t = mu_stopping s \<Longrightarrow>
      (\<And>h. mh_proc_stopped (mu_handles t h) = mh_proc_stopped (mu_handles s h)) \<Longrightarrow> R s t"
    and R_push: "qb_add ptr (mu_buffer s) = Some q \<Longrightarrow> R s (s\<lparr>mu_buffer := q\<rparr>)"
    and R_mark: "R s (s\<lparr>mu_handles := (mu_handles s)
      (h := (mu_handles s h)\<lparr>mh_proc_stopped := Some pid\<rparr>)\<rparr>)"
    and R_user_state: "pres R (seq (note_event (EState st p)) (user_state U h st p))"
    and R_user_error: "pres R (seq (note_event (EError e)) (user_error U h e))"
    and R_user_output: "n < length buf \<Longrightarrow> buf ! n = NUL \<Longrightarrow>
      pres R (seq (note_event (chan_event ch (take n buf))) (user_output U h ch buf n))"
    and R_user_stop: "hu_on_stop (us_handle U h) = Some f \<Longrightarrow> pres R (f rs)"
    and R_manager_error: "us_error U = Some g \<Longrightarrow> pres R (g e)"
    and R_user_register: "pres R (us_register U fd act what)"
begin

subsection \<open>The manager's own state\<close>

lemma R_upd:
  "(\<And>s. trace (f s) = trace s \<and> multi_world.more (f s) = multi_world.more s \<and> objs (f s) = objs s \<and>
     mu_buffer (f s) = mu_buffer s \<and> mu_stopping (f s) = mu_stopping s \<and> mu_handles (f s) = mu_handles s) \<Longrightarrow>
   pres R (upd f)"
  by (rule pres_upd) (simp add: R_own)

lemma R_handle_upd:
  "(\<And>x. mh_proc_stopped (f x) = mh_proc_stopped x) \<Longrightarrow> pres R (handle_upd h f)"
  "pres R (handle_gets h k)" "pres R (upd_sel g)"
  unfolding handle_upd_def handle_gets_def upd_sel_def
  by (auto intro!: pres_upd R_own pres_gets)

lemma R_this_upd: "(\<And>x. px_type (f x) = px_type x) \<Longrightarrow> pres R (this_upd h f)"
  unfolding this_upd_def by (rule pres_upd) (auto intro: R_own)

lemma R_sys: "pres (adds unreported) m \<Longrightarrow> pres R m"
  by (rule pres_mono [OF _ R_adds])

lemma R_calls:
  "pres R (sys_read K fd n)" "pres R (sys_write K fd d)" "pres R (sys_pipe2 K flags)"
  "pres R (sys_waitpid K pid)" "pres R (sys_sigaction K h)" "pres R (sys_sigprocmask K how sigs)"
  "pres R (sys_kill K pid sig)" "pres R (sys_select K nfds fds)" "pres R (read_retry m K fd n)"
  "pres R (close_pipe K p)" "pres R (set_errno e)" "pres R (note_event (ECall fd))"
  by (auto intro!: R_sys util_intros)

lemmas own_intros = pres_intros R_handle_upd R_calls

lemma R_interrupt: "pres R (mu_interrupt K)" "pres R (se_interrupt K)" "pres R (user_stop K p)"
  unfolding mu_interrupt_def se_interrupt_def user_stop_def by (intro own_intros)+

lemma R_send_job: "pres R (send_job K ptr)"
proof -
  have "pres R (bind (gets (\<lambda>s. qb_add ptr (mu_buffer s))) (\<lambda>q. case q of
      None \<Rightarrow> spin | Some q \<Rightarrow> upd (\<lambda>s. s\<lparr>mu_buffer := q\<rparr>)))"
    by (auto simp: pres_def ret_iffs intro: R_push split: option.splits)
  then show ?thesis unfolding send_job_def by (rule pres_seq) (rule R_interrupt)
qed

lemma R_register_call: "pres R (register_call K U fd act what)"
  unfolding register_call_def se_add_read_event_def se_remove_read_event_def
  by (auto intro!: own_intros R_user_register split: register_cb.split fd_action.split)

lemma R_register:
  "pres R (mu_add_read_event K U fd cb)" "pres R (mu_remove_read_event K U fd)"
  unfolding mu_add_read_event_def mu_remove_read_event_def
  by (intro own_intros R_register_call R_upd | simp)+

lemma R_proc_stopped: "pres R (proc_stopped K U h pid)"
  unfolding proc_stopped_def send_job_nullptr_stop_def
  by (intro own_intros R_register R_send_job R_upd | simp)+

subsection \<open>The callbacks of a handle\<close>

lemma R_seq_bind:
  "pres R (seq m k) \<Longrightarrow> (\<And>a. pres R (f a)) \<Longrightarrow> pres R (seq m (bind k f))"
  "pres R (seq m n) \<Longrightarrow> pres R k' \<Longrightarrow> pres R (seq m (seq n k'))"
  unfolding pres_def ret_iffs by (blast intro: R_trans)+

lemma R_seq_skip: "pres R (seq m skip) \<Longrightarrow> pres R m"
  by (simp add: pres_def ret_iffs)

lemma R_handle_final: "pres R (handle_final K U h)"
  unfolding handle_final_def by (intro own_intros R_user_stop R_proc_stopped | simp)+

lemma R_call_state: "pres R (call_state (handle_callbacks K U h) h st)"
proof -
  have "pres R (seq (note_event (EState st p)) (handle_state U h st p))" for p
    unfolding handle_state_def
    by (rule R_seq_bind(1) [OF R_user_state [unfolded user_state_def]]) (intro own_intros, simp_all)
  then have "pres R (seq (note_event (EState st p)) (pc_state (handle_callbacks K U h) st p))" for p
    unfolding handle_callbacks_def pexec_callbacks.simps
    by (rule R_seq_bind(1)) (intro own_intros R_handle_final)
  then have "pres R (seq (note_event (EState st p)) (bind (pc_state (handle_callbacks K U h) st p)
      (\<lambda>p'. this_upd h (\<lambda>x. x\<lparr>px_proc := p'\<rparr>))))" for p
    by (rule R_seq_bind(1)) (simp add: R_this_upd)
  then show ?thesis
    unfolding call_state_def this_gets_def by (intro pres_bind [OF pres_gets])
qed

lemma R_process_error: "pres R (process_error (handle_callbacks K U h) h e)"
proof -
  have "pres R (seq (note_event (EError e)) (pc_error (handle_callbacks K U h) e))"
  proof (cases "hu_error (us_handle U h)")
    case None
    with R_user_error [of e h] have "pres R (note_event (EError e))"
      by (simp add: user_error_def R_seq_skip)
    with None show ?thesis by (auto simp: handle_callbacks_def intro!: own_intros)
  next
    case (Some f)
    with R_user_error [of e h] show ?thesis by (simp add: user_error_def handle_callbacks_def)
  qed
  then have "pres R (seq (note_event (EError e)) (seq (pc_error (handle_callbacks K U h) e)
      (this_upd h (\<lambda>x. x\<lparr>px_state := e\<rparr>))))"
    by (rule R_seq_bind(2)) (simp add: R_this_upd)
  then show ?thesis
    unfolding process_error_def by (simp add: pres_def ret_iffs)
qed

lemma R_deliver:
  assumes "n < length (px_read_buffer (objs s h))"
    and "seq (terminate_buffer h n) (deliver (handle_callbacks K U h) h ch n) s = Ret r t"
  shows "R s t"
proof -
  let ?buf = "(px_read_buffer (objs s h))[n := NUL]" and ?C = "handle_callbacks K U h"
  let ?e = "chan_event ch (take n ?buf)"
  from assms(2) obtain u where u: "terminate_buffer h n s = Ret () u"
    and t: "seq (note_event ?e) (chan_cb ?C ch ?buf n) u = Ret r t"
    by (auto simp: terminate_buffer_def deliver_def this_gets_def this_upd_def ret_iffs)
  have "n < length ?buf" "?buf ! n = NUL" using assms(1) by simp_all
  note out = R_user_output [OF this, of ch h]
  have "pres R (seq (note_event ?e) (chan_cb ?C ch ?buf n))"
  proof (cases "(case ch of Stdout \<Rightarrow> hu_stdout (us_handle U h) | Stderr \<Rightarrow> hu_stderr (us_handle U h))")
    case None
    with out have "pres R (note_event ?e)" by (simp add: user_output_def R_seq_skip)
    with None show ?thesis by (cases ch) (auto simp: handle_callbacks_def intro!: own_intros)
  next
    case (Some f)
    with out show ?thesis by (cases ch) (simp_all add: user_output_def handle_callbacks_def)
  qed
  from presD [OF this t] have "R u t" .
  moreover have "pres R (terminate_buffer h n)"
    unfolding terminate_buffer_def by (rule R_this_upd) simp
  from presD [OF this u] have "R s u" .
  ultimately show "R s t" by (blast intro: R_trans)
qed

end

sublocale job_steps \<subseteq> fr: px_frame R "handle_callbacks K U h" h K for h
proof
  fix s t :: "('k, 'z) multi_world_scheme"
  show "adds unreported s t \<Longrightarrow> R s t" by (rule R_adds)
  show "R s (s\<lparr>objs := (objs s)(h := x)\<rparr>)" if "px_type x = px_type (objs s h)" for x
    using that by (intro R_own) simp_all
  show "R s (s\<lparr>sigchld_blocking_pipe_signal := p\<rparr>)" "R s (s\<lparr>sel := e\<rparr>)" for p e
    by (rule R_own; simp)+
  show "n < length (px_read_buffer (objs s h)) \<Longrightarrow>
      seq (terminate_buffer h n) (deliver (handle_callbacks K U h) h ch n) s = Ret r t \<Longrightarrow> R s t" for n ch r
    by (rule R_deliver)
qed (rule fit R_process_error R_call_state)+

subsection \<open>Every operation of the manager\<close>

context job_steps begin

lemma R_mu_process_error: "pres R (mu_process_error U e)"
  unfolding mu_process_error_def by (intro own_intros R_manager_error R_upd | simp)+

lemma R_handle_exec: "pres R (handle_exec N K U h)"
  unfolding handle_exec_def get_fds_def this_gets_def by (intro own_intros fr.R_exec | simp)+

lemma R_on_proc_stopped: "pres R (on_proc_stopped h pid)"
  unfolding on_proc_stopped_def handle_upd_def by (rule pres_upd) (rule R_mark)

lemma R_job_spawn_proc: "pres R (job_spawn_proc N K U h)"
  unfolding job_spawn_proc_def handle_pid_def
  by (intro own_intros R_handle_exec R_on_proc_stopped R_register R_upd | simp)+

lemma R_sh_process_error:
  "(\<And>f. sc_error C = Some f \<Longrightarrow> pres R (f e)) \<Longrightarrow> pres R (sh_process_error C e)"
  unfolding sh_process_error_def by (intro own_intros R_upd | simp)+

lemma R_cbs_error: "pres R (sh_process_error (sigchld_cbs N K U) e)" "pres R (sh_process_error no_callbacks e)"
  by (rule R_sh_process_error; auto simp: sigchld_cbs_def no_callbacks_def intro: R_mu_process_error)+

lemma R_signal: "sc_signal (sigchld_cbs N K U) = Some f \<Longrightarrow> pres R (f pid st)"
  by (auto simp: sigchld_cbs_def intro!: own_intros fr.R_update_status)

lemma R_reap_loop: "pres R (reap_loop m K (sigchld_cbs N K U))"
proof (induction m)
  case (Suc m)
  show ?case
    unfolding reap_loop.simps
    by (intro own_intros; (rule Suc.IH R_cbs_error | erule R_signal))
qed (simp add: pres_spin)

lemma R_read_signal_bytes: "pres R (read_signal_bytes m K fd got)"
  by (induction m arbitrary: got) (auto intro!: own_intros)

lemma R_read_signal: "pres R (sh_read_signal N K (sigchld_cbs N' K U))"
  unfolding sh_read_signal_def sh_handle_sigchld_def sh_block_sigchld_def sh_unblock_sigchld_def
  by (intro own_intros R_reap_loop R_read_signal_bytes R_cbs_error)

end

locale job_frame = job_steps R K U
  for R :: "('k, 'z) multi_world_scheme \<Rightarrow> ('k, 'z) multi_world_scheme \<Rightarrow> bool"
    and K :: "'k platform" and U :: "('k, 'z) user" +
  assumes R_unstop: "R s (s\<lparr>mu_stopping := False\<rparr>)"
    and R_dispatch_job: "pres R (dispatch_job N K U)"
begin

lemma R_handle_stop: "pres R (handle_stop K U)"
proof -
  have off: "pres R (upd (\<lambda>s. s\<lparr>mu_stopping := False\<rparr>))" by (rule pres_upd) (rule R_unstop)
  show ?thesis
    unfolding handle_stop_def sh_get_read_fd_def sigchld_get_signal_fd_def
    by (intro own_intros R_register R_interrupt; (rule off | (rule R_upd, simp)))
qed

lemma R_run_registered: "pres R (run_registered N K U c fd)"
  by (cases c)
     (auto intro!: own_intros R_read_signal R_handle_stop R_dispatch_job fr.R_read_close fr.R_read_channels)

lemma R_do_action: "pres R (do_action N K U fd)"
  unfolding do_action_def by (intro own_intros R_run_registered)

end

sublocale job_frame \<subseteq> ml: loop_client R "\<lambda>_. True" N K "multi_callbacks N K U" for N :: nat
proof
  show "pres R (upd_sel f)" for f by (rule R_handle_upd(3))
  show "read_retry N K fd 1 s = Ret r t \<Longrightarrow> R s t" for fd s r t by (rule presD [OF R_calls(9)])
  show "hold (\<lambda>_. True) R (lc_run (multi_callbacks N K U) c fd)" for c fd
    by (auto simp: multi_callbacks_def intro!: hold_pres own_intros R_do_action)
  show "lc_interrupt (multi_callbacks N K U) = Some g \<Longrightarrow> hold (\<lambda>_. True) R g" for g
    by (auto simp: multi_callbacks_def intro!: hold_pres own_intros)
  show "lc_error (multi_callbacks N K U) = Some g \<Longrightarrow> hold (\<lambda>_. True) R g" for g
    by (auto simp: multi_callbacks_def intro!: hold_pres R_mu_process_error)
qed (simp | rule R_calls)+

context job_frame begin

lemma R_se_loop: "pres R (se_loop N K (multi_callbacks N K U))"
  using ml.hold_se_loop by (simp add: hold_def pres_def)

lemma R_loop_object: "pres R (new_loop K)" "pres R (drop_loop K)"
  unfolding new_loop_def drop_loop_def se_construct_def se_destruct_def se_add_read_event_def
  by (intro own_intros R_upd | simp)+

lemma R_handler:
  "pres R (sigchld_set_signal_handler K)" "pres R (sigchld_reset_signal_handler K)"
  unfolding sigchld_set_signal_handler_def sigchld_reset_signal_handler_def
  by (intro own_intros R_upd | simp)+

lemma R_destroy_sigchld: "pres R (destroy_sigchld N K U ptr)"
  unfolding destroy_sigchld_def sh_destruct_def
  by (cases ptr) (auto intro!: own_intros R_handler R_cbs_error)

lemma R_dead_user: "pres R (sh_process_error (sigchld_cbs N K (dead_user U)) e)"
  unfolding sh_process_error_def mu_process_error_def sigchld_cbs_def dead_user_def
  by (auto intro!: own_intros R_upd)

lemma R_sigchld_object:
  "pres R (new_sigchld N K U)" "pres R (drop_sigchld N K U)" "pres R (drop_sigchld N K (dead_user U))"
proof -
  have "pres R (destroy_sigchld N K (dead_user U) ptr)" for ptr
    unfolding destroy_sigchld_def sh_destruct_def
    by (cases ptr) (auto intro!: own_intros R_handler R_cbs_error R_dead_user)
  then show "pres R (new_sigchld N K U)" "pres R (drop_sigchld N K U)" "pres R (drop_sigchld N K (dead_user U))"
    unfolding new_sigchld_def drop_sigchld_def sh_construct_def sh_prepare_signal_set_def
    by (intro own_intros R_handler R_cbs_error R_destroy_sigchld R_upd | simp)+
qed

lemma R_run: "pres R (run N K U)"
  unfolding run_def sh_get_read_fd_def sigchld_get_signal_fd_def
  by (intro own_intros R_loop_object R_sigchld_object R_mu_process_error R_register R_se_loop R_upd | simp)+

lemma R_destruct: "pres R (mu_destruct N K U)"
  unfolding mu_destruct_def
  by (intro own_intros R_loop_object R_sigchld_object R_upd | simp)+

lemma R_stop: "pres R (multi_stop K sf sig)"
  unfolding multi_stop_def by (rule R_send_job)

end

subsection \<open>A relation that does not look at the queue\<close>

locale manager_frame = step_rel R
  for R :: "('k, 'z) multi_world_scheme \<Rightarrow> ('k, 'z) multi_world_scheme \<Rightarrow> bool" +
  fixes K :: "'k platform" and U :: "('k, 'z) user"
  assumes fit: "reads_fit K"
    and R_adds: "adds unreported s t \<Longrightarrow> R s t"
    and R_own: "trace t = trace s \<Longrightarrow> multi_world.more t = multi_world.more s \<Longrightarrow>
      (\<And>h. px_type (objs t h) = px_type (objs s h)) \<Longrightarrow> R s t"
    and R_user_state: "pres R (seq (note_event (EState st p)) (user_state U h st p))"
    and R_user_error: "pres R (seq (note_event (EError e)) (user_error U h e))"
    and R_user_output: "n < length buf \<Longrightarrow> buf ! n = NUL \<Longrightarrow>
      pres R (seq (note_event (chan_event ch (take n buf))) (user_output U h ch buf n))"
    and R_user_stop: "hu_on_stop (us_handle U h) = Some f \<Longrightarrow> pres R (f rs)"
    and R_manager_error: "us_error U = Some g \<Longrightarrow> pres R (g e)"
    and R_user_register: "pres R (us_register U fd act what)"

sublocale manager_frame \<subseteq> js: job_steps R K U
  by unfold_locales
     (simp_all add: fit R_adds R_own R_user_state R_user_error R_user_output R_user_stop R_manager_error
       R_user_register)

context manager_frame begin

lemma R_any_upd:
  "(\<And>s. trace (f s) = trace s \<and> multi_world.more (f s) = multi_world.more s \<and> objs (f s) = objs s) \<Longrightarrow>
   pres R (upd f)"
  by (rule pres_upd) (simp add: R_own)

lemma R_cleanup: "pres R (cleanup K)"
  unfolding cleanup_def
  by (auto intro!: js.own_intros js.R_interrupt R_any_upd split: stop_flag.split)

lemma R_jobs: "pres R (job_nullptr_stop K)" "pres R (job_stop K flag signum)"
  unfolding job_stop_def job_nullptr_stop_def
  by (intro js.own_intros R_cleanup R_any_upd | simp)+

lemma R_dispatch: "pres R (dispatch_job N K U)"
  unfolding dispatch_job_def
  by (auto intro!: js.own_intros R_jobs js.R_job_spawn_proc R_any_upd split: pexec_job.split)

end

sublocale manager_frame \<subseteq> jf: job_frame R K U
  by unfold_locales (simp_all add: R_own R_dispatch)

context manager_frame begin

lemma R_handles: "pres R (handle_upd h f)"
  unfolding handle_upd_def by (rule R_any_upd) simp

lemmas own_intros = pres_intros R_handles js.R_handle_upd(2,3) js.R_calls

lemmas R_run = jf.R_run

lemmas R_send_job = js.R_send_job

lemma R_around: "pres R (mu_construct K)" "pres R (mu_destruct N K U)" "pres R (multi_stop K sf sig)"
proof -
  show "pres R (mu_construct K)"
    unfolding mu_construct_def by (intro own_intros R_any_upd | simp)+
qed (rule jf.R_destruct jf.R_stop)+

end

end
