(* ===== verification/Multi_Guarantees.thy ===== *)
theory Multi_Guarantees
  imports Multi_Program Multi_Frame
begin

section \<open>What the process manager guarantees\<close>

text \<open>
  User code for which the contract of \<open>Multi_Books\<close> holds, and the properties of the event
  handling, of a run, and of a program that makes a manager, queues programs, runs and destroys it.
\<close>

subsection \<open>User code\<close>

text \<open>No callback at all, and programs that run one after the other: each starts the next.\<close>

definition chain_user :: "'k platform \<Rightarrow> nat \<Rightarrow> string \<Rightarrow> ('k, 'z) user" where
  "chain_user K n args =
     silent_user\<lparr>us_handle := (\<lambda>h.
       \<lparr>hu_stdout = None, hu_stderr = None, hu_state = None, hu_error = None,
        hu_on_stop = Some (\<lambda>rs. bind (gets (\<lambda>s. nonblocking (Suc h) s)) (\<lambda>made.
          if made \<or> n \<le> Suc h then multi_stop K STOP_WAIT (-1) else multi_exec K (Suc h) args))\<rparr>)\<rparr>"

interpretation silent: multi_client "silent_user :: ('k, 'z) user"
  by unfold_locales (simp_all add: silent_user_def ca.pres_skip)

lemma calm_chain_stop:
  fixes K :: "'k platform"
  shows "pres (calm {} :: ('k, 'z) multi_world_scheme \<Rightarrow> _)
    (bind (gets (\<lambda>s. nonblocking (Suc h) s)) (\<lambda>made.
       if made \<or> n \<le> Suc h then multi_stop K STOP_WAIT (-1) else multi_exec K (Suc h) args))"
  using presD [OF calm_multi_stop] calm_multi_exec(1)
  by (auto simp: pres_def ret_iffs split: if_splits)

interpretation chain: multi_client "chain_user K n args :: ('k, 'z) user"
  by unfold_locales (auto simp: chain_user_def silent_user_def ca.pres_skip intro: calm_chain_stop)

subsection \<open>A program with a manager\<close>

text \<open>Make a manager, queue programs and a stop job, run, destroy the manager.\<close>

definition manager_program ::
  "nat \<Rightarrow> 'k platform \<Rightarrow> ('k, 'z) user \<Rightarrow> (nat \<times> string) list \<Rightarrow> stop_flag \<Rightarrow> int \<Rightarrow>
   (('k, 'z) multi_world_scheme, unit) prog" where
  "manager_program N K U cmds sf sig =
     block [mu_construct K, enqueue K cmds, multi_stop K sf sig, run N K U, mu_destruct N K U]"

lemma calm_queueing:
  fixes s t :: "('k, 'z) multi_world_scheme"
  assumes "block [enqueue K cmds, multi_stop K sf sig] s = Ret r t"
    and "distinct (map fst cmds)" and "\<forall>h \<in> set (map fst cmds). \<not> nonblocking h s"
  shows "calm {} s t" "mu_type t = mu_type s" "\<forall>h \<in> set (map fst cmds). nonblocking h t"
proof -
  from assms(1) obtain u where u: "enqueue K cmds s = Ret () u" and t: "multi_stop K sf sig u = Ret () t"
    by (auto simp: ret_iffs)
  have su: "calm {} s u" "mu_type u = mu_type s" "\<forall>h \<in> set (map fst cmds). nonblocking h u"
    using calm_enqueue [OF u assms(2,3)] by simp_all
  have ut: "calm {} u t" by (rule presD [OF calm_multi_stop t])
  show "calm {} s t" by (rule ca.R_trans [OF su(1) ut])
  show "\<forall>h \<in> set (map fst cmds). nonblocking h t" using su(3) calm_nonblocking [OF ut] by blast
  show "mu_type t = mu_type s" using send_job_type t su(2) unfolding multi_stop_def by fastforce
qed

text \<open>A run has returned: what the destructor leaves.\<close>

lemma destructed:
  fixes s t :: "('k, 'z) multi_world_scheme"
  assumes U: "multi_client U" and rest: "at_rest s" and run: "run N K U s = Ret () u"
    and destruct: "mu_destruct N K U u = Ret () t" and sane: "sane (trace t)"
  shows "pipes_ok (open_fds (trace s) - fds_of (mu_control_pipe s)) t" "fds_of (mu_control_pipe t) = {}"
    "\<not> mu_loop t" "sigchld_active t \<or> fds_of (sigchld_pipe_signal t) = {}"
    "handlers_of (trace t) = handlers_of (trace s) \<or>
     installed K t \<and> handlers_of (trace t) = handlers_of (trace s) @
       (if sigchld_active t then [MULTI_HANDLER] else [MULTI_HANDLER, sigchld_sa_prev t])"
proof -
  have "sane (trace u)"
    using presD [OF multi_client.ext_destruct [OF U] destruct] sane by (rule extends_sane)
  note r = multi_client.run_Ret [OF U rest run this]
  have "if mu_loop u then \<not> sigchld_active u else mu_sigchld u = NoSigchld" using r by auto
  note d = multi_client.destruct_pipes [OF U conjunct1 [OF r] destruct this]
  show "pipes_ok (open_fds (trace s) - fds_of (mu_control_pipe s)) t" "fds_of (mu_control_pipe t) = {}"
    "\<not> mu_loop t" using d by simp_all
  show "sigchld_active t \<or> fds_of (sigchld_pipe_signal t) = {}"
    using r d by (auto split: if_splits)
  show "handlers_of (trace t) = handlers_of (trace s) \<or>
     installed K t \<and> handlers_of (trace t) = handlers_of (trace s) @
       (if sigchld_active t then [MULTI_HANDLER] else [MULTI_HANDLER, sigchld_sa_prev t])"
    using r d by (auto simp: installed_def split: if_splits)
qed

text \<open>Before the run: a manager at rest.\<close>

lemma constructed:
  fixes s t :: "('k, 'z) multi_world_scheme"
  assumes "mu_construct K s = Ret r t"
  shows "objs t = objs s" "mu_type t = DEFAULT" "\<not> mu_loop t" "mu_sigchld t = NoSigchld"
  using assms
  by (auto simp: mu_construct_def ret_iffs split: sum.splits dest!: sys_pipe2_Ret dest: more_pexec more_multi)

lemma queued_calm:
  fixes s v :: "('k, 'z) multi_world_scheme"
  assumes new: "no_manager s" and cmds: "distinct (map fst cmds)"
    and u: "mu_construct K s = Ret () u" and v: "block [enqueue K cmds, multi_stop K sf sig] u = Ret () v"
  shows "calm {} u v" "mu_type v = mu_type u" "mu_type v = DEFAULT" "\<not> mu_loop v" "mu_sigchld v = NoSigchld"
    "\<forall>h \<in> set (map fst cmds). nonblocking h v"
proof -
  have "\<forall>h \<in> set (map fst cmds). \<not> nonblocking h u"
    using new constructed(1) [OF u] by (simp add: no_manager_def)
  note c = calm_queueing [OF v cmds this]
  show "calm {} u v" "mu_type v = mu_type u" "\<forall>h \<in> set (map fst cmds). nonblocking h v" by (rule c)+
  show "mu_type v = DEFAULT" "\<not> mu_loop v" "mu_sigchld v = NoSigchld"
    using c constructed [OF u] calm_kept [OF c(1)] by (simp_all add: kept_books_def)
qed

lemma queued_at_rest:
  fixes s t :: "('k, 'z) multi_world_scheme"
  assumes new: "no_manager s" and cmds: "distinct (map fst cmds)"
    and u: "mu_construct K s = Ret () u" and v: "block [enqueue K cmds, multi_stop K sf sig] u = Ret () v"
    and sane: "sane (trace v)"
  shows "at_rest v" "open_fds (trace v) - fds_of (mu_control_pipe v) = open_fds (trace s)"
    "handlers_of (trace v) = handlers_of (trace s)"
proof -
  note c = queued_calm [OF new cmds u v]
  have "extends u v" using c(1) by (auto simp: calm_def extends_def)
  then have "fresh_pipes (trace u)" using extends_sane sane by (auto simp: sane_def)
  note r = construct_at_rest [OF u new this]
  note q = calm_at_rest [OF c(1) r(1) c(2)]
  show "at_rest v" by (rule q(1))
  show "open_fds (trace v) - fds_of (mu_control_pipe v) = open_fds (trace s)"
    using q r(2,3) by auto
  show "handlers_of (trace v) = handlers_of (trace s)" using q r(4) by simp
qed

lemma manager_program_Ret:
  fixes s t :: "('k, 'z) multi_world_scheme"
  assumes "multi_client U" and "no_manager s" and "distinct (map fst cmds)"
    and "manager_program N K U cmds sf sig s = Ret () t" and "sane (trace t)"
  shows "pipes_ok (open_fds (trace s)) t" "fds_of (mu_control_pipe t) = {}" "\<not> mu_loop t"
    "sigchld_active t \<or> fds_of (sigchld_pipe_signal t) = {}"
    "handlers_of (trace t) = handlers_of (trace s) \<or>
     installed K t \<and> handlers_of (trace t) = handlers_of (trace s) @
       (if sigchld_active t then [MULTI_HANDLER] else [MULTI_HANDLER, sigchld_sa_prev t])"
proof -
  from assms(4) obtain u v w where u: "mu_construct K s = Ret () u"
    and v: "block [enqueue K cmds, multi_stop K sf sig] u = Ret () v"
    and w: "run N K U v = Ret () w" and t: "mu_destruct N K U w = Ret () t"
    by (auto simp: manager_program_def ret_iffs)
  have sane_w: "sane (trace w)"
    using presD [OF multi_client.ext_destruct [OF assms(1)] t] assms(5) by (rule extends_sane)
  have "sane (trace v)"
    using multi_client.run_extends [OF assms(1) queued_calm(3-5) [OF assms(2,3) u v] w] sane_w
    by (rule extends_sane)
  note r = queued_at_rest [OF assms(2,3) u v this]
  note d = destructed [OF assms(1) r(1) w t assms(5)]
  show "pipes_ok (open_fds (trace s)) t" "fds_of (mu_control_pipe t) = {}" "\<not> mu_loop t"
    "sigchld_active t \<or> fds_of (sigchld_pipe_signal t) = {}"
    "handlers_of (trace t) = handlers_of (trace s) \<or>
     installed K t \<and> handlers_of (trace t) = handlers_of (trace s) @
       (if sigchld_active t then [MULTI_HANDLER] else [MULTI_HANDLER, sigchld_sa_prev t])"
    using d r(2,3) by simp_all
qed

text \<open>A handle stays one of the manager's.\<close>

definition keeps_handles :: "('k, 'z) multi_world_scheme \<Rightarrow> ('k, 'z) multi_world_scheme \<Rightarrow> bool" where
  "keeps_handles s t \<longleftrightarrow> (\<forall>h. nonblocking h s \<longrightarrow> nonblocking h t)"

lemma calm_keeps_handles: "pres (calm H) m \<Longrightarrow> pres keeps_handles m"
  by (erule pres_mono) (auto simp: keeps_handles_def intro: calm_nonblocking)

locale multi_platform = multi_client U
  for U :: "('k, 'z) user" +
  fixes K :: "'k platform"
  assumes fit: "reads_fit K"

sublocale multi_platform \<subseteq> kh: manager_frame keeps_handles K U
proof
  fix s t u :: "('k, 'z) multi_world_scheme"
  show "keeps_handles s s" "keeps_handles s t \<Longrightarrow> keeps_handles t u \<Longrightarrow> keeps_handles s u"
    by (simp_all add: keeps_handles_def)
  show "adds unreported s t \<Longrightarrow> keeps_handles s t"
    using more_pexec [of t s] by (auto simp: adds_def keeps_handles_def)
  show "(\<And>h. px_type (objs t h) = px_type (objs s h)) \<Longrightarrow> keeps_handles s t"
    by (simp add: keeps_handles_def)
next
  have noted: "pres (keeps_handles :: ('k, 'z) multi_world_scheme \<Rightarrow> _) (seq (note_event e) m)"
    if "pres (calm {}) m" for e and m :: "(('k, 'z) multi_world_scheme, 'a) prog"
    using calm_keeps_handles [OF that] by (auto simp: pres_def note_event_def keeps_handles_def ret_iffs)
  show "pres keeps_handles (seq (note_event (EState st p)) (user_state U h st p))" for st p h
    using user_state [of h _ st p]
    by (intro noted) (auto simp: user_state_def pres_def ret_iffs ca.R_refl split: option.splits)
  show "pres keeps_handles (seq (note_event (EError e)) (user_error U h e))" for e h
    by (intro noted) (auto simp: user_error_def intro: user_error ca.pres_skip split: option.split)
  show "pres keeps_handles (seq (note_event (chan_event ch (take n buf))) (user_output U h ch buf n))"
    for n buf ch h
    by (intro noted)
       (auto simp: user_output_def intro: user_stdout user_stderr ca.pres_skip split: option.split channel.split)
qed (rule fit | erule calm_keeps_handles [OF user_stop] calm_keeps_handles [OF manager_error]
  | rule calm_keeps_handles [OF user_register])+

context multi_platform begin

lemma handles_run: "pres keeps_handles (run N K U)" "pres keeps_handles (mu_destruct N K U)"
  by (rule kh.R_run kh.R_around)+

end

lemma manager_program_handles:
  fixes s t :: "('k, 'z) multi_world_scheme"
  assumes "multi_client U" and "reads_fit K" and "no_manager s" and "distinct (map fst cmds)"
    and "manager_program N K U cmds sf sig s = Ret () t"
  shows "\<forall>h \<in> set (map fst cmds). nonblocking h t"
proof -
  have mp: "multi_platform U K"
    using assms(1,2) by (simp add: multi_platform_def multi_platform_axioms_def)
  from assms(5) obtain u v w where u: "mu_construct K s = Ret () u"
    and v: "block [enqueue K cmds, multi_stop K sf sig] u = Ret () v"
    and w: "run N K U v = Ret () w" and t: "mu_destruct N K U w = Ret () t"
    by (auto simp: manager_program_def ret_iffs)
  show ?thesis
    using queued_calm(6) [OF assms(3,4) u v] presD [OF multi_platform.handles_run(1) [OF mp] w]
      presD [OF multi_platform.handles_run(2) [OF mp] t]
    by (simp add: keeps_handles_def)
qed

text \<open>A manager that has finished its batch is at rest again.\<close>

definition clean :: "('k, 'z) multi_world_scheme \<Rightarrow> bool" where
  "clean s \<longleftrightarrow> mu_type s = DEFAULT \<and> mu_active s = [] \<and> mu_registered s = [] \<and> \<not> mu_loop s \<and> \<not> sigchld_active s"

lemma run_at_rest:
  fixes s t :: "('k, 'z) multi_world_scheme"
  assumes "multi_client U" and rest: "at_rest s" and "run N K U s = Ret () t" and "sane (trace t)"
    and clean: "clean t"
  shows "at_rest t" "open_fds (trace t) = open_fds (trace s)" "mu_control_pipe t = mu_control_pipe s"
    "handlers_of (trace t) = handlers_of (trace s) @ [MULTI_HANDLER, sigchld_sa_prev t]" "installed K t"
proof -
  note r = multi_client.run_Ret [OF assms(1-4)]
  then have p: "pipes_ok (open_fds (trace s) - fds_of (mu_control_pipe s)) t" by blast
  show ctl: "mu_control_pipe t = mu_control_pipe s" using r by blast
  show "handlers_of (trace t) = handlers_of (trace s) @ [MULTI_HANDLER, sigchld_sa_prev t]" "installed K t"
    using r clean by (simp_all add: clean_def)
  have off: "mu_sigchld t = NoSigchld" "fds_of (sigchld_pipe_signal t) = {}" using r clean by (simp_all add: clean_def)
  have c: "fds_of (mu_control_pipe s) \<subseteq> open_fds (trace s)" "0 \<le> fst (mu_control_pipe s)"
    "fst (mu_control_pipe s) \<noteq> snd (mu_control_pipe s)" using rest by (simp_all add: at_rest_def)
  show o: "open_fds (trace t) = open_fds (trace s)"
    using pipes_open_fds [OF p] off clean c(1) unfolding ctl by (auto simp: clean_def fds_of_def [of "(- 1, - 1)"])
  show "at_rest t"
    using clean off p c unfolding at_rest_def ctl o
    by (simp add: clean_def pipes_ok_def open_ok_def parts_def)
qed

text \<open>One batch: queue programs, queue a stop, run.\<close>

definition batch ::
  "nat \<Rightarrow> 'k platform \<Rightarrow> ('k, 'z) user \<Rightarrow> (nat \<times> string) list \<Rightarrow> stop_flag \<Rightarrow> int \<Rightarrow>
   (('k, 'z) multi_world_scheme, unit) prog" where
  "batch N K U cmds sf sig = block [enqueue K cmds, multi_stop K sf sig, run N K U]"

lemma queued_again:
  fixes s t :: "('k, 'z) multi_world_scheme"
  assumes "block [enqueue K cmds, multi_stop K sf sig] s = Ret r t" and "at_rest s"
    and "distinct (map fst cmds)" and "\<forall>h \<in> set (map fst cmds). \<not> nonblocking h s"
  shows "at_rest t" "open_fds (trace t) = open_fds (trace s)" "handlers_of (trace t) = handlers_of (trace s)"
    "mu_control_pipe t = mu_control_pipe s" "calm {} s t" "\<forall>h \<in> set (map fst cmds). nonblocking h t"
proof -
  note q = calm_queueing [OF assms(1,3,4)]
  show "calm {} s t" "\<forall>h \<in> set (map fst cmds). nonblocking h t" by (rule q)+
  show "at_rest t" "open_fds (trace t) = open_fds (trace s)" "handlers_of (trace t) = handlers_of (trace s)"
    "mu_control_pipe t = mu_control_pipe s" by (rule calm_at_rest [OF q(1) assms(2) q(2)])+
qed

lemma batch_at_rest:
  fixes s t :: "('k, 'z) multi_world_scheme"
  assumes U: "multi_client U" and K: "reads_fit K" and rest: "at_rest s" and new: "distinct (map fst cmds)"
    "\<forall>h \<in> set (map fst cmds). \<not> nonblocking h s"
    and run: "batch N K U cmds sf sig s = Ret () t" and sane: "sane (trace t)" and clean: "clean t"
  shows "at_rest t" "open_fds (trace t) = open_fds (trace s)" "mu_control_pipe t = mu_control_pipe s"
    "handlers_of (trace t) = handlers_of (trace s) @ [MULTI_HANDLER, sigchld_sa_prev t]" "installed K t"
    "keeps_handles s t" "\<forall>h \<in> set (map fst cmds). nonblocking h t"
proof -
  from run obtain u where u: "block [enqueue K cmds, multi_stop K sf sig] s = Ret () u"
    and t: "run N K U u = Ret () t" by (auto simp: batch_def ret_iffs)
  note q = queued_again [OF u rest new]
  note r = run_at_rest [OF U q(1) t sane clean]
  show "at_rest t" "installed K t" by (rule r)+
  show "open_fds (trace t) = open_fds (trace s)" "mu_control_pipe t = mu_control_pipe s"
    "handlers_of (trace t) = handlers_of (trace s) @ [MULTI_HANDLER, sigchld_sa_prev t]" using r q by simp_all
  have "multi_platform U K" using U K by (simp add: multi_platform_def multi_platform_axioms_def)
  from presD [OF multi_platform.handles_run(1) [OF this] t] have k: "keeps_handles u t" .
  with q(6) show "\<forall>h \<in> set (map fst cmds). nonblocking h t" by (simp add: keeps_handles_def)
  have "keeps_handles s u" using calm_nonblocking [OF q(5)] by (simp add: keeps_handles_def)
  with k show "keeps_handles s t" by (simp add: keeps_handles_def)
qed

text \<open>The example's platform reads as it should.\<close>

interpretation mp: multi_platform silent_user script_platform
  by unfold_locales (rule reads_fit_script)

subsection \<open>An example\<close>

text \<open>The example of \<open>Multi_Run\<close>, cut where the loop begins.\<close>

definition demo_begin :: "(script multi_world, unit) prog" where
  "demo_begin =
     block [new_loop script_platform, upd (\<lambda>s. s\<lparr>mu_register := LoopRegister\<rparr>),
            new_sigchld multi_fuel script_platform silent_user]"

definition demo_watch :: "(script multi_world, unit) prog" where
  "demo_watch =
     block [upd (\<lambda>s. s\<lparr>mu_sigchld := WiredSigchld\<rparr>),
            bind sh_get_read_fd (\<lambda>fd. mu_add_read_event script_platform silent_user fd RSignal),
            bind (gets (\<lambda>s. fst (mu_control_pipe s)))
              (\<lambda>fd. mu_add_read_event script_platform silent_user fd RControl)]"

lemma loop_begins:
  fixes s u v w :: "('k, 'z) multi_world_scheme"
  assumes U: "multi_client U" and rest: "at_rest s" and u: "new_loop K s = Ret () u"
    and v: "new_sigchld N K U (u\<lparr>mu_register := LoopRegister\<rparr>) = Ret () v" and valid: "sh_valid v"
    and fresh: "fresh_pipes (trace v)"
    and w: "block [bind sh_get_read_fd (\<lambda>fd. mu_add_read_event K U fd RSignal),
      bind (gets (\<lambda>s. fst (mu_control_pipe s))) (\<lambda>fd. mu_add_read_event K U fd RControl)]
      (v\<lparr>mu_sigchld := WiredSigchld\<rparr>) = Ret () w"
  shows "\<exists>g. books g {} {} w"
proof -
  have uv: "extends (u\<lparr>mu_register := LoopRegister\<rparr>) v"
    using new_sigchld_Ret(3) [OF v] new_loop_Ret(4) [OF u] rest valid
    by (auto simp: extends_def at_rest_def)
  have "fresh_pipes (trace u)" using extends_fresh [OF uv fresh] by simp
  note l = launched_loop [OF rest u this]
  note m = launched_sigchld [OF l(1,3,5) v fresh]
  let ?v = "v\<lparr>mu_sigchld := WiredSigchld\<rparr>"
  let ?g = "\<lparr>g_open = open_fds (trace s) - fds_of (mu_control_pipe s), g_control = mu_control_pipe v,
    g_handlers = handlers_of (trace v), g_prev = sigchld_sa_prev v\<rparr>"
  have b: "books ?g {} {} ?v" using m(2) [OF valid] by (intro books_wired m(1)) simp_all
  have none: "mu_registered ?v = []" using m(1) by (simp add: launched_def)
  from w obtain x where x: "mu_add_read_event K U (fst (slot_pipe ?v SignalPipe)) RSignal ?v = Ret () x"
    and y: "mu_add_read_event K U (fst (slot_pipe x ControlPipe)) RControl x = Ret () w"
    by (auto simp: sh_get_read_fd_def sigchld_get_signal_fd_def ret_iffs)
  from books_watch_both(1) [OF b none x y] show ?thesis by blast
qed

lemma demo_begins:
  "\<exists>u. block [mu_construct script_platform, multi_exec script_platform 0 ''true'',
      multi_stop script_platform STOP_WAIT (-1)] (demo_multi_world demo_multi_script) = Ret () u \<and>
    sane (trace u) \<and>
    (\<exists>v. demo_begin u = Ret () v \<and> sh_valid v \<and> fresh_pipes (trace v) \<and>
    (\<exists>w. demo_watch v = Ret () w \<and> se_lookup (sel w) 3 = Some (Some DoAction) \<and>
      (\<exists>t. do_action multi_fuel script_platform silent_user 3 w = Ret () t \<and> sane (trace t) \<and>
         mu_active t = [(42, 0)]) \<and>
      (\<exists>t. se_loop multi_fuel script_platform (multi_callbacks multi_fuel script_platform silent_user) w =
         Ret () t \<and> sane (trace t) \<and> mu_active t = []))) \<and>
    (\<exists>t. run multi_fuel script_platform silent_user u = Ret () t \<and> sane (trace t) \<and>
       mu_active t = [] \<and> \<not> mu_loop t \<and> \<not> sigchld_active t)"
  by (simp add: demo_multi_run demo_begin_def demo_watch_def sane_def terminal_status_def se_lookup_def del: multi_lazy)

lemma demo_rest:
  obtains u :: "script multi_world" where
    "block [mu_construct script_platform, multi_exec script_platform 0 ''true'',
      multi_stop script_platform STOP_WAIT (-1)] (demo_multi_world demo_multi_script) = Ret () u"
    "at_rest u"
proof -
  let ?s = "demo_multi_world demo_multi_script"
  from demo_begins obtain u where
    u: "block [mu_construct script_platform, multi_exec script_platform 0 ''true'',
      multi_stop script_platform STOP_WAIT (-1)] ?s = Ret () u" and sane: "sane (trace u)" by blast
  from u obtain c where c: "mu_construct script_platform ?s = Ret () c"
    and q: "block [enqueue script_platform [(0, ''true'')], multi_stop script_platform STOP_WAIT (-1)] c = Ret () u"
    by (auto simp: enqueue_def ret_iffs)
  have "no_manager ?s" by (simp add: no_manager_def demo_multi_world_def init_pexec_def fds_of_def)
  from that [OF u queued_at_rest(1) [OF this _ c q sane]] show ?thesis by simp
qed

lemma demo_watched:
  obtains g and w :: "script multi_world" where
    "books g {} {} w" "se_lookup (sel w) 3 = Some (Some DoAction)"
    "\<exists>t. do_action multi_fuel script_platform silent_user 3 w = Ret () t \<and> sane (trace t) \<and>
       mu_active t = [(42, 0)]"
    "\<exists>t. se_loop multi_fuel script_platform (multi_callbacks multi_fuel script_platform silent_user) w =
       Ret () t \<and> sane (trace t) \<and> mu_active t = []"
proof -
  obtain u :: "script multi_world" where u: "block [mu_construct script_platform, multi_exec script_platform 0 ''true'',
      multi_stop script_platform STOP_WAIT (-1)] (demo_multi_world demo_multi_script) = Ret () u"
    and rest: "at_rest u" by (rule demo_rest)
  with demo_begins obtain v w where v: "demo_begin u = Ret () v" "sh_valid v" "fresh_pipes (trace v)"
    and w: "demo_watch v = Ret () w" "se_lookup (sel w) 3 = Some (Some DoAction)"
      "\<exists>t. do_action multi_fuel script_platform silent_user 3 w = Ret () t \<and> sane (trace t) \<and>
         mu_active t = [(42, 0)]"
      "\<exists>t. se_loop multi_fuel script_platform (multi_callbacks multi_fuel script_platform silent_user) w =
         Ret () t \<and> sane (trace t) \<and> mu_active t = []"
    by auto
  from v(1) obtain x where "new_loop script_platform u = Ret () x"
    "new_sigchld multi_fuel script_platform silent_user (x\<lparr>mu_register := LoopRegister\<rparr>) = Ret () v"
    by (auto simp: demo_begin_def ret_iffs)
  from loop_begins [OF silent.multi_client_axioms rest this v(2,3)] w(1) obtain g where "books g {} {} w"
    by (auto simp: demo_watch_def ret_iffs)
  from that [OF this w(2-4)] show ?thesis .
qed

lemma demo_program:
  "\<exists>t. manager_program multi_fuel script_platform silent_user [(0, ''true'')] STOP_WAIT (-1)
      (demo_multi_world demo_multi_script) = Ret () t \<and> sane (trace t) \<and> mu_active t = [] \<and>
    \<not> sigchld_active t \<and> handle_pid_of 0 t = 42"
  by (simp add: manager_program_def enqueue_def demo_multi_run sane_def terminal_status_def del: multi_lazy)

lemma demo_batch:
  "\<exists>u t. mu_construct script_platform (demo_multi_world demo_multi_script) = Ret () u \<and> fresh_pipes (trace u) \<and>
    (\<forall>h. \<not> nonblocking h u) \<and>
    batch multi_fuel script_platform silent_user [(0, ''true'')] STOP_WAIT (-1) u = Ret () t \<and>
    sane (trace t) \<and> clean t \<and> handle_pid_of 0 t = 42"
  by (simp add: batch_def enqueue_def demo_multi_run sane_def terminal_status_def clean_def del: multi_lazy)

subsection \<open>Properties\<close>

text \<open>
  Property C2. What the manager watches has a function. As long as the books are right (each
  active program has its pipes and its process id, has not come to its end, and its child was not
  waited for; each registered descriptor is one of the manager's or of an active program, with the function for it;
  the loop watches just the registered ones; every other handle has all pipes closed, and was not
  started or has its final state), the event
  of any watched descriptor is given to the function that was registered for it, never to an
  empty one, and the books are right again when that function has returned: be it that a
  program was started, stopped, gave output, or that a child ended, and whatever the user's
  callbacks did within the contract.
\<close>

theorem event_handled:
  assumes "multi_client U" and "books g {} {} s" and "se_lookup (sel s) fd = Some (Some DoAction)"
  shows "\<exists>c. map_of (mu_registered s) fd = Some c \<and> serves_fd c fd s \<and>
    do_action N K U fd s = run_registered N K U c fd s \<and>
    (\<forall>t. do_action N K U fd s = Ret () t \<and> sane (trace t) \<longrightarrow> books g {} {} t)"
proof -
  from assms(2,3) obtain c where c: "map_of (mu_registered s) fd = Some c"
    by (auto simp: books_def loop_ok_def split: if_splits)
  moreover have "serves_fd c fd s" using assms(2) c by (simp add: books_def registered_ok_def)
  moreover have "do_action N K U fd s = run_registered N K U c fd s"
    using c by (simp add: do_action_def prog_simps)
  moreover have "books g {} {} t" if "do_action N K U fd s = Ret () t" "sane (trace t)" for t
    by (rule tripleD [OF multi_client.triple_do_action [OF assms(1)] assms(2) that])
  ultimately show ?thesis by blast
qed

theorem event_handled_witness:
  "\<exists>g w t. books g {} {} w \<and> do_action multi_fuel script_platform silent_user 3 w = Ret () t \<and>
     mu_active t = [(42, 0 :: nat)] \<and> books g {} {} (t :: script multi_world)"
proof -
  obtain g and w :: "script multi_world" where w: "books g {} {} w" "se_lookup (sel w) 3 = Some (Some DoAction)"
    and "\<exists>t. do_action multi_fuel script_platform silent_user 3 w = Ret () t \<and> sane (trace t) \<and>
       mu_active t = [(42, 0)]"
    by (rule demo_watched)
  then obtain t where t: "do_action multi_fuel script_platform silent_user 3 w = Ret () t"
    "sane (trace t)" "mu_active t = [(42, 0)]" by blast
  from event_handled [OF silent.multi_client_axioms w] t w(1) show ?thesis by blast
qed

text \<open>
  Property C9. The loop keeps the books. The manager's loop, from a state in which they are right,
  ends in one in which they are right again, over any number of rounds and of programs that
  start and end in them, however often the user's callbacks queue more.
\<close>

theorem loop_keeps_books:
  assumes "multi_client U" and "books g {} {} s"
    and "se_loop N K (multi_callbacks N K U) s = Ret () t" and "sane (trace t)"
  shows "books g {} {} t"
  by (rule tripleD [OF multi_client.triple_se_loop [OF assms(1)] assms(2-4)])

theorem loop_keeps_books_witness:
  "\<exists>g w t. books g {} {} w \<and>
     se_loop multi_fuel script_platform (multi_callbacks multi_fuel script_platform silent_user) w =
       Ret () t \<and> mu_active t = [] \<and> books g {} {} (t :: script multi_world)"
proof -
  obtain g and w :: "script multi_world" where w: "books g {} {} w"
    and "\<exists>t. se_loop multi_fuel script_platform (multi_callbacks multi_fuel script_platform silent_user) w =
       Ret () t \<and> sane (trace t) \<and> mu_active t = []"
    by (rule demo_watched)
  then obtain t where
    t: "se_loop multi_fuel script_platform (multi_callbacks multi_fuel script_platform silent_user) w = Ret () t"
    "sane (trace t)" "mu_active t = []" by blast
  from loop_keeps_books [OF silent.multi_client_axioms w t(1,2)] t w show ?thesis by blast
qed

text \<open>
  Property C6. What a run leaves open. After \<open>run\<close> with the manager's own event loop,
  started with no program active, the open descriptors are those that were open before and the
  pipes of the programs that are still active; so when all have ended, nothing is left. Every
  descriptor that was closed was one that the library had opened, and SIGCHLD has the
  disposition it had before. Two failures are different: when \<open>sigaction\<close> or the signal pipe
  fails in the beginning, the pipe of the event loop stays until the manager is destroyed, and when
  \<open>sigaction\<close> fails in the end, the handler and its pipe stay.
\<close>

theorem run_leaves_nothing:
  assumes "multi_client U" and "at_rest s" and "run N K U s = Ret () t" and "sane (trace t)"
  shows "open_fds (trace t) = open_fds (trace s) \<union>
      (if mu_loop t then fds_of (se_control_pipe (sel t)) else {}) \<union>
      (if sigchld_active t then fds_of (sigchld_pipe_signal t) else {}) \<union>
      (\<Union>h \<in> active_handles t. proc_fds h t) \<and>
    closes_own (trace t) \<and>
    (if mu_loop t then handlers_of (trace t) = handlers_of (trace s) \<and> mu_active t = []
     else (\<exists>k k'. k_sigaction K MULTI_HANDLER k = (Inr (sigchld_sa_prev t), k')) \<and>
       handlers_of (trace t) = handlers_of (trace s) @
         (if sigchld_active t then [MULTI_HANDLER] else [MULTI_HANDLER, sigchld_sa_prev t]))"
proof -
  note r = multi_client.run_Ret [OF assms(1-4)]
  let ?B = "open_fds (trace s) - fds_of (mu_control_pipe s)"
  have "fds_of (mu_control_pipe s) \<subseteq> open_fds (trace s)" using assms(2) by (simp add: at_rest_def)
  then have "?B \<union> fds_of (mu_control_pipe t) = open_fds (trace s)" using r by auto
  moreover have "fds_of (-1, -1) = {}" by (simp add: fds_of_def)
  moreover have "closes_own (trace t)" using r by (simp add: pipes_ok_def parts_def)
  ultimately show ?thesis
    using r pipes_open_fds [of ?B t] by (auto simp: installed_def)
qed

theorem run_leaves_nothing_witness:
  "\<exists>u t. at_rest u \<and> run multi_fuel script_platform silent_user u = Ret () (t :: script multi_world) \<and>
     open_fds (trace t) = open_fds (trace u) \<and> closes_own (trace t) \<and>
     handlers_of (trace t) = handlers_of (trace u) @ [MULTI_HANDLER, sigchld_sa_prev t]"
proof -
  obtain u :: "script multi_world" where "block [mu_construct script_platform, multi_exec script_platform 0 ''true'',
      multi_stop script_platform STOP_WAIT (-1)] (demo_multi_world demo_multi_script) = Ret () u"
    and rest: "at_rest u" by (rule demo_rest)
  with demo_begins obtain t where t: "run multi_fuel script_platform silent_user u = Ret () t"
    "sane (trace t)" "mu_active t = []" "\<not> mu_loop t" "\<not> sigchld_active t" by auto
  from run_leaves_nothing [OF silent.multi_client_axioms rest t(1,2)] t rest show ?thesis
    by (intro exI [of _ u] exI [of _ t]) simp
qed

text \<open>
  Property C1. What a program with a manager leaves behind. A program makes a manager, queues any
  number of programs, each with its own handle, and a stop job, runs the manager, and destroys it.
  When it is through, the open descriptors are those that were open before, the pipes of
  programs that are still active, and the signal pipe if its handler could not be taken
  back; no descriptor of anybody else was closed; and SIGCHLD has its old disposition, with that
  exception. So nothing leaks when every program has ended, also when \<open>run\<close> failed in the beginning.
\<close>

theorem manager_leaves_nothing:
  assumes "multi_client U" and "no_manager s" and "distinct (map fst cmds)"
    and "manager_program N K U cmds sf sig s = Ret () t" and "sane (trace t)"
  shows "open_fds (trace t) = open_fds (trace s) \<union>
      (if sigchld_active t then fds_of (sigchld_pipe_signal t) else {}) \<union>
      (\<Union>h \<in> active_handles t. proc_fds h t) \<and>
    closes_own (trace t) \<and>
    (handlers_of (trace t) = handlers_of (trace s) \<or>
     (\<exists>k k'. k_sigaction K MULTI_HANDLER k = (Inr (sigchld_sa_prev t), k')) \<and>
     handlers_of (trace t) = handlers_of (trace s) @
       (if sigchld_active t then [MULTI_HANDLER] else [MULTI_HANDLER, sigchld_sa_prev t]))"
proof -
  note m = manager_program_Ret [OF assms]
  have "fds_of (-1, -1) = {}" by (simp add: fds_of_def)
  with m pipes_open_fds [OF m(1)] show ?thesis by (auto simp: installed_def pipes_ok_def parts_def)
qed

theorem manager_leaves_nothing_witness:
  "\<exists>t. manager_program multi_fuel script_platform silent_user [(0, ''true'')] STOP_WAIT (-1)
      (demo_multi_world demo_multi_script) = Ret () t \<and> open_fds (trace t) = {} \<and> closes_own (trace t)"
proof -
  let ?s = "demo_multi_world demo_multi_script"
  from demo_program obtain t where
    t: "manager_program multi_fuel script_platform silent_user [(0, ''true'')] STOP_WAIT (-1) ?s = Ret () t"
      "sane (trace t)" "mu_active t = []" "\<not> sigchld_active t" by blast
  have "no_manager ?s" by (simp add: no_manager_def demo_multi_world_def init_pexec_def fds_of_def)
  moreover have "open_fds (trace ?s) = {}" by (simp add: demo_multi_world_def)
  ultimately show ?thesis
    using manager_leaves_nothing [OF silent.multi_client_axioms _ _ t(1,2)] t by simp
qed



end
