(* ===== verification/Multi_Turn.thy ===== *)
theory Multi_Turn
  imports Multi_Guarantees
begin

section \<open>Every queued program gets its turn\<close>

text \<open>
  A handle is started when the callback \<open>on_proc_stopped\<close> was set, which \<open>job_spawn_proc\<close> does
  once the program runs, and it waits while the manager is not stopping and its job stands in
  the queue before any stop job. A handle that waits never gets lost: every operation of the
  manager keeps it waiting or starts it (an instance of \<open>job_frame\<close>). With the books of
  \<open>Multi_Books\<close> it follows that a program that was queued before the stop has come to its end, or
  is active, or waits still, because the run ended early.
\<close>

fun is_spawn :: "pexec_job option \<Rightarrow> bool" where
  "is_spawn (Some (Spawn h)) = True"
| "is_spawn _ = False"

definition started :: "nat \<Rightarrow> ('k, 'z) multi_world_scheme \<Rightarrow> bool" where
  "started h s \<longleftrightarrow> mh_proc_stopped (mu_handles s h) \<noteq> None"

definition waits :: "nat \<Rightarrow> ('k, 'z) multi_world_scheme \<Rightarrow> bool" where
  "waits h s \<longleftrightarrow> \<not> mu_stopping s \<and> Some (Spawn h) \<in> set (takeWhile is_spawn (qb_buffer (mu_buffer s)))"

definition turn_kept :: "nat \<Rightarrow> ('k, 'z) multi_world_scheme \<Rightarrow> ('k, 'z) multi_world_scheme \<Rightarrow> bool" where
  "turn_kept h s t \<longleftrightarrow>
     (nonblocking h s \<longrightarrow> nonblocking h t \<and> (started h s \<or> waits h s \<longrightarrow> started h t \<or> waits h t))"

lemma turn_kept_same:
  assumes "nonblocking h s \<Longrightarrow> nonblocking h t" and "mu_buffer t = mu_buffer s"
    and "mu_stopping t = mu_stopping s" and "mh_proc_stopped (mu_handles t h) = mh_proc_stopped (mu_handles s h)"
  shows "turn_kept h s t"
  using assms by (simp add: turn_kept_def started_def waits_def)

lemma waits_more:
  assumes "waits h s" and "qb_buffer (mu_buffer t) = qb_buffer (mu_buffer s) @ js"
    and "mu_stopping t = mu_stopping s"
  shows "waits h t"
proof -
  have "set (takeWhile is_spawn xs) \<subseteq> set (takeWhile is_spawn (xs @ js))" for xs
    by (induction xs) auto
  with assms show ?thesis by (auto simp: waits_def)
qed

subsection \<open>The private flag\<close>

text \<open>\<open>stopping_\<close> is a private member, which user code does not write.\<close>

definition keeps_stopping :: "('k, 'z) multi_world_scheme \<Rightarrow> ('k, 'z) multi_world_scheme \<Rightarrow> bool" where
  "keeps_stopping s t \<longleftrightarrow> mu_stopping t = mu_stopping s"

interpretation ks: step_rel keeps_stopping
  by unfold_locales (simp_all add: keeps_stopping_def)

locale private_user =
  fixes U :: "('k, 'z) user"
  assumes stdout_private: "hu_stdout (us_handle U h) = Some f \<Longrightarrow> pres keeps_stopping (f data n)"
    and stderr_private: "hu_stderr (us_handle U h) = Some f \<Longrightarrow> pres keeps_stopping (f data n)"
    and error_private: "hu_error (us_handle U h) = Some g \<Longrightarrow> pres keeps_stopping (g e)"
    and state_private: "hu_state (us_handle U h) = Some k \<Longrightarrow> pres keeps_stopping (k st p)"
    and stop_private: "hu_on_stop (us_handle U h) = Some l \<Longrightarrow> pres keeps_stopping (l rs)"
    and manager_private: "us_error U = Some m \<Longrightarrow> pres keeps_stopping (m e)"
    and register_private: "pres keeps_stopping (us_register U fd act what)"

lemma calm_turn:
  fixes s t :: "('k, 'z) multi_world_scheme"
  assumes "calm {} s t" and "keeps_stopping s t"
  shows "turn_kept h s t"
proof -
  from assms(1) obtain js where js: "qb_buffer (mu_buffer t) = qb_buffer (mu_buffer s) @ js"
    by (auto simp: calm_def more_jobs_def)
  have "kept_self h s t" if "nonblocking h s" using that assms(1) by (simp add: calm_def)
  with waits_more [OF _ js] assms(2) show ?thesis
    by (auto simp: turn_kept_def started_def kept_self_def keeps_stopping_def)
qed

lemma pres_turn: "pres (calm {}) m \<Longrightarrow> pres keeps_stopping m \<Longrightarrow> pres (turn_kept h) m"
  by (auto simp: pres_def intro: calm_turn)

lemma pres_turn_noted:
  fixes m :: "(('k, 'z) multi_world_scheme, 'a) prog"
  assumes "pres (turn_kept h) m"
  shows "pres (turn_kept h) (seq (note_event e) m)"
proof (rule presI)
  fix s r and t :: "('k, 'z) multi_world_scheme"
  assume "seq (note_event e) m s = Ret r t"
  then have "m (s\<lparr>trace := e # trace s\<rparr>) = Ret r t" by (auto simp: note_event_def ret_iffs)
  from presD [OF assms this] show "turn_kept h s t"
    by (simp add: turn_kept_def started_def waits_def)
qed

subsection \<open>Waiting handles are kept by every operation\<close>

locale turns = multi_platform U K + private_user U
  for U :: "('k, 'z) user" and K :: "'k platform"

sublocale turns \<subseteq> tk: job_steps "turn_kept h" K U for h
proof
  fix s t u :: "('k, 'z) multi_world_scheme"
  show "turn_kept h s s" by (simp add: turn_kept_def)
  show "turn_kept h s t \<Longrightarrow> turn_kept h t u \<Longrightarrow> turn_kept h s u" by (auto simp: turn_kept_def)
  show "adds unreported s t \<Longrightarrow> turn_kept h s t"
    using more_pexec [of t s] more_multi [of t s] by (intro turn_kept_same) (auto simp: adds_def)
  show "turn_kept h s t"
    if "\<And>h. px_type (objs t h) = px_type (objs s h)" "mu_buffer t = mu_buffer s"
      "mu_stopping t = mu_stopping s" "\<And>h. mh_proc_stopped (mu_handles t h) = mh_proc_stopped (mu_handles s h)"
    using that by (intro turn_kept_same) simp_all
  show "turn_kept h s (s\<lparr>mu_buffer := q\<rparr>)" if "qb_add ptr (mu_buffer s) = Some q" for ptr q
  proof -
    have "qb_buffer (mu_buffer (s\<lparr>mu_buffer := q\<rparr>)) = qb_buffer (mu_buffer s) @ [ptr]"
      using that by (auto simp: qb_add_def split: if_splits)
    from waits_more [OF _ this] show ?thesis by (auto simp: turn_kept_def started_def)
  qed
  show "turn_kept h s (s\<lparr>mu_handles := (mu_handles s)(h' := (mu_handles s h')\<lparr>mh_proc_stopped := Some pid\<rparr>)\<rparr>)"
    for h' pid
    by (simp add: turn_kept_def started_def waits_def)
next
  show "pres (turn_kept h) (seq (note_event (EState st p)) (user_state U h' st p))" for st p h'
  proof (intro pres_turn_noted pres_turn)
    show "pres (calm {}) (user_state U h' st p)"
      using user_state [of h' _ st p]
      by (auto simp: user_state_def pres_def ret_iffs ca.R_refl split: option.splits)
    show "pres keeps_stopping (user_state U h' st p)"
      by (auto simp: user_state_def intro: state_private ks.pres_ret split: option.split)
  qed
  show "pres (turn_kept h) (seq (note_event (EError e)) (user_error U h' e))" for e h'
    by (intro pres_turn_noted pres_turn)
       (auto simp: user_error_def intro: user_error error_private ca.pres_skip ks.pres_skip split: option.split)
  show "pres (turn_kept h) (seq (note_event (chan_event ch (take n buf))) (user_output U h' ch buf n))"
    for n buf ch h'
    by (intro pres_turn_noted pres_turn)
       (auto simp: user_output_def intro: user_stdout user_stderr stdout_private stderr_private
         ca.pres_skip ks.pres_skip split: option.split channel.split)
next
  show "hu_on_stop (us_handle U h') = Some f \<Longrightarrow> pres (turn_kept h) (f rs)" for h' f rs
    by (rule pres_turn [OF user_stop stop_private])
  show "us_error U = Some g \<Longrightarrow> pres (turn_kept h) (g e)" for g e
    by (rule pres_turn [OF manager_error manager_private])
  show "pres (turn_kept h) (us_register U fd act what)" for fd act what
    by (rule pres_turn [OF user_register register_private])
qed (rule fit)

text \<open>A job other than a new process leaves the handles alone.\<close>

definition same_handles :: "('k, 'z) multi_world_scheme \<Rightarrow> ('k, 'z) multi_world_scheme \<Rightarrow> bool" where
  "same_handles s t \<longleftrightarrow> mu_handles t = mu_handles s"

interpretation sh: step_rel same_handles
  by unfold_locales (simp_all add: same_handles_def)

lemma stop_same_handles:
  "pres (same_handles :: ('k, 'z) multi_world_scheme \<Rightarrow> _) (job_nullptr_stop K)"
  "pres (same_handles :: ('k, 'z) multi_world_scheme \<Rightarrow> _) (job_stop K flag signum)"
proof -
  have own: "pres (same_handles :: ('k, 'z) multi_world_scheme \<Rightarrow> _) (upd f)"
    if "\<And>s. mu_handles (f s) = mu_handles s" for f
    using that by (intro pres_upd) (simp add: same_handles_def)
  have calls: "pres (same_handles :: ('k, 'z) multi_world_scheme \<Rightarrow> _) (sys_kill K pid sig)"
    "pres (same_handles :: ('k, 'z) multi_world_scheme \<Rightarrow> _) (sys_write K fd d)" for pid sig fd d
    by (simp_all add: pres_def sys_kill_eval sys_write_eval same_handles_def
        more_multi [OF killed_more] more_multi [OF wrote_more])
  have "pres (same_handles :: ('k, 'z) multi_world_scheme \<Rightarrow> _) (cleanup K)"
    unfolding cleanup_def user_stop_def handle_gets_def
    by (auto intro!: sh.pres_intros calls own split: stop_flag.split)
  then show n: "pres (same_handles :: ('k, 'z) multi_world_scheme \<Rightarrow> _) (job_nullptr_stop K)"
    unfolding job_nullptr_stop_def by (intro sh.pres_intros)
  show "pres (same_handles :: ('k, 'z) multi_world_scheme \<Rightarrow> _) (job_stop K flag signum)"
    unfolding job_stop_def by (intro sh.pres_intros n own; simp)
qed

context turns begin

text \<open>Its own job starts a handle.\<close>

lemma spawn_starts:
  fixes s t :: "('k, 'z) multi_world_scheme"
  assumes run: "job_spawn_proc N K U h s = Ret r t" and go: "\<not> mu_stopping s" and nb: "nonblocking h s"
  shows "started h t \<or> waits h t"
proof -
  let ?watch = "\<lambda>fds. seq (block [mu_add_read_event K U (watch_close_write_fd fds) (RClose h),
     mu_add_read_event K U (stdout_read_fd fds) (RStdout h),
     mu_add_read_event K U (stderr_read_fd fds) (RStderr h)]) (ret NOTHING)"
  let ?mark = "\<lambda>pid. block [assertion (0 < pid),
     upd (\<lambda>s. s\<lparr>mu_active := put_active K pid h (mu_active s)\<rparr>), on_proc_stopped h pid]"
  let ?rest = "bind (handle_pid h) (\<lambda>pid. seq (?mark pid) (bind (handle_gets h mh_fds) ?watch))"
  have "seq (handle_exec N K U h) ?rest s = Ret r t"
    using run go by (simp add: job_spawn_proc_def bind_def gets_def)
  then obtain u where u: "handle_exec N K U h s = Ret () u" and "?rest u = Ret r t"
    unfolding seq_Ret [of "handle_exec N K U h" ?rest] by auto
  then have "seq (?mark (handle_pid_of h u)) (bind (handle_gets h mh_fds) ?watch) u = Ret r t"
    by (simp add: handle_pid_def handle_gets_def bind_def gets_def)
  then obtain w where w: "?mark (handle_pid_of h u) u = Ret () w"
    and "bind (handle_gets h mh_fds) ?watch w = Ret r t"
    unfolding seq_Ret [of "?mark (handle_pid_of h u)" "bind (handle_gets h mh_fds) ?watch"] by auto
  then have t: "?watch (mh_fds (mu_handles w h)) w = Ret r t"
    by (simp add: handle_gets_def bind_def gets_def)
  have "nonblocking h u" using presD [OF kh.js.R_handle_exec u] nb by (simp add: keeps_handles_def)
  with w have "nonblocking h w" "started h w"
    by (auto simp: on_proc_stopped_def handle_upd_def started_def ret_iffs)
  moreover have "pres (turn_kept h) (?watch (mh_fds (mu_handles w h)))"
    by (intro tk.own_intros tk.R_register)
  from presD [OF this t] have "turn_kept h w t" .
  ultimately show ?thesis by (simp add: turn_kept_def)
qed

lemma turn_dispatch_job: "pres (turn_kept h) (dispatch_job N K U)"
proof (rule presI)
  fix s r and t :: "('k, 'z) multi_world_scheme"
  assume run: "dispatch_job N K U s = Ret r t"
  then obtain job rest where q: "qb_buffer (mu_buffer s) = job # rest"
    by (cases "qb_buffer (mu_buffer s)") (auto simp: dispatch_job_def qb_remove_def ret_iffs)
  let ?s = "s\<lparr>mu_buffer := (mu_buffer s)\<lparr>qb_buffer := rest\<rparr>\<rparr>"
  have "started h t \<or> waits h t" if nb: "nonblocking h s" and turn: "started h s \<or> waits h s"
  proof (cases "is_spawn job")
    case False
    then have "same_handles ?s t"
      using run presD [OF stop_same_handles(1)] presD [OF stop_same_handles(2)]
      by (cases job rule: is_spawn.cases) (auto simp: dispatch_job_eval [OF q])
    moreover have "started h s" using turn q False by (simp add: waits_def)
    ultimately show ?thesis by (simp add: same_handles_def started_def)
  next
    case True
    then obtain h' where job: "job = Some (Spawn h')" by (cases job rule: is_spawn.cases) auto
    with run have spawn: "job_spawn_proc N K U h' ?s = Ret r t" by (simp add: dispatch_job_eval [OF q])
    show ?thesis
    proof (cases "h' = h \<and> \<not> mu_stopping s")
      case True
      with spawn_starts spawn nb show ?thesis by simp
    next
      case False
      with turn q job have "started h ?s \<or> waits h ?s" by (auto simp: started_def waits_def)
      moreover have "turn_kept h ?s t" by (rule presD [OF tk.R_job_spawn_proc spawn])
      ultimately show ?thesis using nb by (auto simp: turn_kept_def)
    qed
  qed
  moreover have "nonblocking h t" if "nonblocking h s"
    using presD [OF kh.R_dispatch run] that by (simp add: keeps_handles_def)
  ultimately show "turn_kept h s t" by (simp add: turn_kept_def)
qed

end

sublocale turns \<subseteq> tf: job_frame "turn_kept h" K U for h
  by unfold_locales (auto simp: turn_kept_def started_def waits_def intro: turn_dispatch_job)

context turns begin

lemma turn_run: "pres (turn_kept h) (run N K U)" "pres (turn_kept h) (mu_destruct N K U)"
  by (rule tf.R_run tf.R_destruct)+

end


subsection \<open>Queueing\<close>

lemma send_job_queue:
  assumes "send_job K ptr s = Ret r t"
  shows "qb_buffer (mu_buffer t) = qb_buffer (mu_buffer s) @ [ptr]" "mu_stopping t = mu_stopping s"
  using assms
  by (auto simp: send_job_def mu_interrupt_def qb_add_def ret_iffs sys_write_eval
      more_multi [OF wrote_more] split: option.splits if_splits)

lemma multi_exec_queue:
  assumes "multi_exec K h args s = Ret r t"
  shows "qb_buffer (mu_buffer t) = qb_buffer (mu_buffer s) @ [Some (Spawn h)]" "mu_stopping t = mu_stopping s"
proof -
  from assms obtain u where u: "make_handle h args s = Ret () u" and t: "send_job K (Some (Spawn h)) u = Ret () t"
    by (auto simp: multi_exec_def ret_iffs)
  have "mu_buffer u = mu_buffer s" "mu_stopping u = mu_stopping s"
    using u by (auto simp: make_handle_def handle_upd_def set_type_def this_upd_def ret_iffs)
  with send_job_queue [OF t] show "qb_buffer (mu_buffer t) = qb_buffer (mu_buffer s) @ [Some (Spawn h)]"
    "mu_stopping t = mu_stopping s" by simp_all
qed

lemma enqueue_queue:
  "enqueue K cmds s = Ret r t \<Longrightarrow>
   qb_buffer (mu_buffer t) = qb_buffer (mu_buffer s) @ map (\<lambda>c. Some (Spawn (fst c))) cmds \<and>
   mu_stopping t = mu_stopping s"
proof (induction cmds arbitrary: s)
  case Nil
  then show ?case by (simp add: enqueue_def ret_iffs)
next
  case (Cons c cmds)
  then obtain u where u: "multi_exec K (fst c) (snd c) s = Ret () u" and t: "enqueue K cmds u = Ret r t"
    by (auto simp: enqueue_def ret_iffs)
  from Cons.IH [OF t] multi_exec_queue [OF u] show ?case by simp
qed

lemma queued_waits:
  assumes u: "mu_construct K s = Ret () u" and v: "block [enqueue K cmds, multi_stop K sf sig] u = Ret () v"
    and c: "c \<in> set cmds"
  shows "waits (fst c) v"
proof -
  have u: "qb_buffer (mu_buffer u) = []" "\<not> mu_stopping u"
    using u by (auto simp: mu_construct_def ret_iffs empty_queue_def split: sum.splits
        dest!: sys_pipe2_Ret dest: more_multi)
  from v obtain w where "enqueue K cmds u = Ret () w" "send_job K (Some (Stop sf sig)) w = Ret () v"
    by (auto simp: multi_stop_def ret_iffs)
  with u enqueue_queue send_job_queue have
    q: "qb_buffer (mu_buffer v) = map (\<lambda>c. Some (Spawn (fst c))) cmds @ [Some (Stop sf sig)]" "\<not> mu_stopping v"
    by fastforce+
  have "takeWhile is_spawn (map (\<lambda>c. Some (Spawn (fst c))) cmds @ [Some (Stop sf sig)]) =
      map (\<lambda>c. Some (Spawn (fst c))) cmds"
    by (induction cmds) simp_all
  with q c show ?thesis by (auto simp: waits_def)
qed

text \<open>Users without access to the private flag: those of \<open>Multi_Guarantees\<close>.\<close>

interpretation silent_pv: private_user "silent_user :: ('k, 'z) user"
  by unfold_locales (simp_all add: silent_user_def ks.pres_skip)

interpretation silent_tn: turns silent_user script_platform
  by unfold_locales

interpretation chain_pv: private_user "chain_user K n args :: ('k, 'z) user"
  by unfold_locales
     (auto simp: chain_user_def silent_user_def ks.pres_skip pres_def ret_iffs keeps_stopping_def multi_stop_def
       dest: send_job_queue(2) multi_exec_queue(2) split: if_splits)

lemma manager_program_turns:
  fixes s t :: "('k, 'z) multi_world_scheme"
  assumes U: "multi_client U" "private_user U" and K: "reads_fit K" and new: "no_manager s"
    and cmds: "distinct (map fst cmds)" and run: "manager_program N K U cmds sf sig s = Ret () t"
    and c: "c \<in> set cmds"
  shows "nonblocking (fst c) t \<and> (started (fst c) t \<or> waits (fst c) t)"
proof -
  have T: "turns U K"
    using U K by (simp add: turns_def multi_platform_def multi_platform_axioms_def)
  from run obtain u v w where u: "mu_construct K s = Ret () u"
    and v: "block [enqueue K cmds, multi_stop K sf sig] u = Ret () v"
    and w: "run N K U v = Ret () w" and t: "mu_destruct N K U w = Ret () t"
    by (auto simp: manager_program_def ret_iffs)
  have "nonblocking (fst c) v" using queued_calm(6) [OF new cmds u v] c by simp
  moreover have "turn_kept (fst c) v w" by (rule presD [OF turns.turn_run(1) [OF T] w])
  moreover have "turn_kept (fst c) w t" by (rule presD [OF turns.turn_run(2) [OF T] t])
  ultimately show ?thesis using queued_waits [OF u v c] by (auto simp: turn_kept_def)
qed

subsection \<open>Properties\<close>

text \<open>
  Property C7. No program that was queued is thrown away or forgotten halfway. A program makes a
  manager, queues programs and a stop job, runs the manager and destroys it; user code keeps
  the contract and does not write the private \<open>stopping_\<close>. When it is through, each queued
  program is active, or its record holds one of the three final states, or its job still
  waits in the queue, with no stop job in front of it and the manager not stopping (the run
  ended early), whatever the callbacks queue. And of every handle of the manager, those that callbacks
  made included, one of three things is true. Its program is active: then it has no final state
  yet, and has its pipes. Or it was never started. Or its record holds a final state, and all
  its pipes are closed.
\<close>

theorem programs_end:
  assumes "multi_client U" and "private_user U" and "reads_fit K" and "no_manager s"
    and "distinct (map fst cmds)"
    and "manager_program N K U cmds sf sig s = Ret () t" and "sane (trace t)"
  shows "(\<forall>c \<in> set cmds. px_type (objs t (fst c)) = NONBLOCKING \<and>
      (fst c \<in> active_handles t \<or> final_state (st_state (mh_ret (mu_handles t (fst c)))) \<or>
       \<not> mu_stopping t \<and> Some (Spawn (fst c)) \<in> set (takeWhile is_spawn (qb_buffer (mu_buffer t))))) \<and>
    (\<forall>h. px_type (objs t h) = NONBLOCKING \<longrightarrow>
      (if h \<in> active_handles t
       then \<not> final_state (st_state (mh_ret (mu_handles t h))) \<and>
         (\<forall>n. n \<noteq> PSignal \<longrightarrow> 0 \<le> fst (pipe_of n h t))
       else (final_state (st_state (mh_ret (mu_handles t h))) \<or>
           ps_pid (st_proc (mh_ret (mu_handles t h))) = 0 \<and> mh_proc_stopped (mu_handles t h) = None) \<and>
         (\<forall>n. n \<noteq> PSignal \<longrightarrow> fds_of (pipe_of n h t) = {})))"
proof -
  have "open_ok {} t" using manager_program_Ret(1) [OF assms(1,4-7)] by (simp add: pipes_ok_def)
  then have each: "if h \<in> active_handles t
       then \<not> final_state (st_state (mh_ret (mu_handles t h))) \<and>
         (\<forall>n. n \<noteq> PSignal \<longrightarrow> 0 \<le> fst (pipe_of n h t))
       else (final_state (st_state (mh_ret (mu_handles t h))) \<or>
           ps_pid (st_proc (mh_ret (mu_handles t h))) = 0 \<and> mh_proc_stopped (mu_handles t h) = None) \<and>
         (\<forall>n. n \<noteq> PSignal \<longrightarrow> fds_of (pipe_of n h t) = {})" if "nonblocking h t" for h
    using that
    by (auto simp: open_ok_def has_pipes_def settled_def shut_def untouched_def ended_def simp del: pipe_of.simps)
  note turn = manager_program_turns [OF assms(1-6)]
  have "fst c \<in> active_handles t \<or> final_state (st_state (mh_ret (mu_handles t (fst c)))) \<or> waits (fst c) t"
    if "c \<in> set cmds" for c
    using turn [OF that] each [of "fst c"] by (auto simp: started_def split: if_splits)
  with turn each show ?thesis unfolding waits_def by blast
qed

theorem programs_end_witness:
  "\<exists>t. manager_program multi_fuel script_platform silent_user [(0, ''true'')] STOP_WAIT (-1)
      (demo_multi_world demo_multi_script) = Ret () t \<and> final_state (st_state (mh_ret (mu_handles t 0)))"
proof -
  let ?s = "demo_multi_world demo_multi_script"
  from demo_program obtain t where
    t: "manager_program multi_fuel script_platform silent_user [(0, ''true'')] STOP_WAIT (-1) ?s = Ret () t"
      "sane (trace t)" "mu_active t = []" "handle_pid_of 0 t = 42" by blast
  have "no_manager ?s" by (simp add: no_manager_def demo_multi_world_def init_pexec_def fds_of_def)
  from programs_end [OF silent.multi_client_axioms silent_pv.private_user_axioms reads_fit_script this _ t(1,2)] t
  show ?thesis by auto
qed

end
