(* ===== verification/Examples.thy ===== *)
theory Examples
  imports Multi_Turn Exec
begin

section \<open>Client programs (src/example)\<close>

text \<open>
  The examples are clients of the library, and so tests of its contracts: \<open>detail_main\<close>
  (multi\_detail.cpp) runs one program with a callback of its own for everything,
  \<open>batches_main\<close> (multi.cpp) two batches with one manager, \<open>test_main\<close> (multi\_test.cpp) prints
  the record of a program, \<open>single_main\<close> (single.cpp) calls \<open>exec\<close> and prints its result.
  The standard output of an example is a string at the end of the state.
\<close>

abbreviation endl :: string where
  "endl \<equiv> [CHR 0x0A]"

subsection \<open>A program with its own callbacks\<close>

record 'k console_world = "'k multi_world" +
  cout :: string

definition print :: "string \<Rightarrow> (('k, 'z) console_world_scheme, unit) prog" where
  "print text = upd (\<lambda>s. s\<lparr>cout := cout s @ text\<rparr>)"

definition detail_error :: "error \<Rightarrow> string" where
  "detail_error e = ''process error: '' @ error2string e @ endl"

definition detail_output :: "string \<Rightarrow> string \<Rightarrow> string" where
  "detail_output name data = ''process '' @ name @ ''('' @ show_int (int (length data)) @ '')'' @ data @ endl"

definition detail_state :: "pstate \<Rightarrow> proc_status \<Rightarrow> string" where
  "detail_state state proc =
     ''process '' @ state2str state @ endl @ ''stdin_fd: '' @ show_int (ps_stdin_fd proc) @ endl"

definition detail_handle :: "('k, 'z) console_world_scheme handle_user \<Rightarrow> ('k, 'z) console_world_scheme handle_user" where
  "detail_handle h =
     handle_set_state_cb (Some (\<lambda>state proc. seq (print (detail_state state proc)) (ret proc)))
     (handle_set_stderr_cb (Some (\<lambda>data len. print (detail_output ''stderr'' (take len data))))
     (handle_set_stdout_cb (Some (\<lambda>data len. print (detail_output ''stdout'' (take len data))))
     (handle_set_error_cb (Some (\<lambda>error. print (detail_error error))) h)))"

text \<open>
  The user's callbacks are an argument of the model, the same for a whole run, so the function
  given to \<open>exec\<close> is split: the callbacks it sets are those of \<open>detail_user\<close>, and what else it does
  (nothing) is the argument of \<open>multi_exec_proc\<close>.
\<close>

definition detail_user :: "('k, 'z) console_world_scheme multi_user" where
  "detail_user = silent_user\<lparr>us_handle := (\<lambda>h. detail_handle (us_handle silent_user h))\<rparr>"

definition detail_main :: "nat \<Rightarrow> 'k platform \<Rightarrow> (('k, 'z) console_world_scheme, unit) prog" where
  "detail_main N K =
     block [mu_construct K, multi_exec_proc K 0 ''ls -la'' (\<lambda>h. skip), multi_stop K STOP_WAIT (-1),
            run N K detail_user, mu_destruct N K detail_user]"

lemma detail_callbacks [simp]:
  "hu_state (us_handle detail_user h) = Some (\<lambda>state proc. seq (print (detail_state state proc)) (ret proc))"
  "hu_stderr (us_handle detail_user h) = Some (\<lambda>data len. print (detail_output ''stderr'' (take len data)))"
  "hu_stdout (us_handle detail_user h) = Some (\<lambda>data len. print (detail_output ''stdout'' (take len data)))"
  "hu_error (us_handle detail_user h) = Some (\<lambda>error. print (detail_error error))"
  "hu_on_stop (us_handle detail_user h) = None" "us_error detail_user = None"
  "us_register detail_user = (\<lambda>fd act what. skip)"
  by (simp_all add: detail_user_def detail_handle_def handle_setters silent_user_def)

text \<open>It is one of the programs with a manager: its callbacks only print.\<close>

lemma calm_print: "pres (calm {}) (print text)"
  unfolding print_def by (rule calm_upd) (simp add: kept_books_def)

interpretation dt: multi_client "detail_user :: ('k, 'z) console_world_scheme multi_user"
proof
  fix h k st p s p' t
  assume "hu_state (us_handle (detail_user :: ('k, 'z) console_world_scheme multi_user) h) = Some k"
    and "k st p s = Ret p' t"
  then show "calm {} s t \<and> ps_running p' = ps_running p \<and> ps_pid p' = ps_pid p"
    using presD [OF calm_print, of "detail_state st p" s "()" t] by (auto simp: ret_iffs)
qed (auto intro: calm_print ca.pres_skip)

lemma print_private: "pres keeps_stopping (print text)"
  by (auto simp: print_def keeps_stopping_def ret_iffs intro!: presI)

interpretation dt_pv: private_user "detail_user :: ('k, 'z) console_world_scheme multi_user"
  by unfold_locales (auto intro!: ks.pres_intros print_private)

lemma detail_program: "detail_main N K = manager_program N K detail_user [(0, ''ls -la'')] STOP_WAIT (-1)"
  by (simp add: detail_main_def manager_program_def enqueue_def multi_exec_def multi_exec_proc_def seq_laws)

text \<open>What is printed for an event.\<close>

fun detail_text :: "event \<Rightarrow> string" where
  "detail_text (EState st p) = detail_state st p"
| "detail_text (EError e) = detail_error e"
| "detail_text (EOut d) = detail_output ''stdout'' d"
| "detail_text (EErr d) = detail_output ''stderr'' d"
| "detail_text _ = []"

definition detail_texts :: "event list \<Rightarrow> string" where
  "detail_texts es = concat (map detail_text (rev es))"

lemma detail_text_unreported: "unreported e \<Longrightarrow> detail_text e = []"
  by (cases e) (simp_all add: unreported_def)

definition printed :: "('k, 'z) console_world_scheme \<Rightarrow> ('k, 'z) console_world_scheme \<Rightarrow> bool" where
  "printed s t \<longleftrightarrow> (\<exists>es. trace t = es @ trace s \<and> cout t = cout s @ detail_texts es)"

lemma printed_now: "trace t = e # trace s \<Longrightarrow> cout t = cout s @ detail_text e \<Longrightarrow> printed s t"
  by (auto simp: printed_def detail_texts_def intro!: exI [of _ "[e]"])

lemma more_console:
  fixes s t :: "('k, 'z) console_world_scheme"
  shows "multi_world.more t = multi_world.more s \<Longrightarrow> cout t = cout s"
  by (cases s; cases t) simp

locale detail_platform =
  fixes K :: "'k platform"
  assumes fit: "reads_fit K"

sublocale detail_platform \<subseteq> pr: manager_frame "printed :: ('k, 'z) console_world_scheme \<Rightarrow> _" K detail_user
proof
  fix s t u :: "('k, 'z) console_world_scheme"
  show "printed s s" by (simp add: printed_def detail_texts_def)
  show "printed s t \<Longrightarrow> printed t u \<Longrightarrow> printed s u"
    by (force simp: printed_def detail_texts_def)
  show "printed s t" if "adds unreported s t"
  proof -
    from that obtain es where "trace t = es @ trace s" "\<forall>e \<in> set es. unreported e"
      and m: "world.more t = world.more s" by (auto simp: adds_def)
    moreover have "detail_texts es = []" if "\<forall>e \<in> set es. unreported e" for es
      using that by (auto simp: detail_texts_def detail_text_unreported)
    moreover have "cout t = cout s" using more_multi [OF m] more_console by blast
    ultimately show ?thesis by (auto simp: printed_def)
  qed
  show "trace t = trace s \<Longrightarrow> multi_world.more t = multi_world.more s \<Longrightarrow> printed s t"
    using more_console [of t s] by (auto simp: printed_def detail_texts_def)
next
  show "pres (printed :: ('k, 'z) console_world_scheme \<Rightarrow> _)
      (seq (note_event (EState st p)) (user_state detail_user h st p))" for st p h
    by (auto simp: user_state_def note_event_def print_def ret_iffs intro!: presI printed_now)
  show "pres (printed :: ('k, 'z) console_world_scheme \<Rightarrow> _)
      (seq (note_event (EError e)) (user_error detail_user h e))" for e h
    by (auto simp: user_error_def note_event_def print_def ret_iffs intro!: presI printed_now)
  show "pres (printed :: ('k, 'z) console_world_scheme \<Rightarrow> _)
      (seq (note_event (chan_event ch (take n buf))) (user_output detail_user h ch buf n))" for ch n buf h
    by (cases ch) (auto simp: user_output_def note_event_def print_def ret_iffs intro!: presI printed_now)
qed (auto simp: fit printed_def detail_texts_def pres_def ret_iffs)

interpretation dp: detail_platform script_platform
  by unfold_locales (rule reads_fit_script)

text \<open>What the whole program has printed.\<close>

lemma more_make_handle:
  "make_handle h args s = Ret () t \<Longrightarrow> trace t = trace s \<and> multi_world.more t = multi_world.more s"
  by (auto simp: make_handle_def handle_upd_def set_type_def this_upd_def ret_iffs)

lemma printed_quiet:
  fixes s t :: "('k, 'z) console_world_scheme"
  shows "trace t = trace s \<Longrightarrow> multi_world.more t = multi_world.more s \<Longrightarrow> printed s t"
  using more_console [of t s] by (auto simp: printed_def detail_texts_def)

context detail_platform begin

lemma detail_printed:
  fixes s t :: "('k, 'z) console_world_scheme"
  assumes "detail_main N K s = Ret () t"
  shows "printed s t"
proof -
  have "pres printed (make_handle h args :: (('k, 'z) console_world_scheme, unit) prog)" for h args
    by (rule presI) (metis more_make_handle printed_quiet old.unit.exhaust)
  then have "pres printed (detail_main N K :: (('k, 'z) console_world_scheme, unit) prog)"
    unfolding detail_main_def multi_exec_proc_def
    by (intro pr.own_intros pr.R_around pr.R_run pr.R_send_job)
  from presD [OF this assms] show ?thesis .
qed

end

lemma demo_detail_arg: "str2arg ''ls -la'' = [''ls'', ''-la'']"
  by code_simp

lemma demo_digits:
  "show_nat 0 = ''0''" "show_nat (Suc 0) = ''1''" "show_nat 1 = ''1''" "show_nat (Suc (Suc 0)) = ''2''"
  "show_nat 2 = ''2''" "show_nat 10 = ''10''"
  by code_simp+

definition demo_console_world :: "script console_world" where
  "demo_console_world = multi_world.extend (demo_multi_world demo_multi_script) \<lparr>cout = []\<rparr>"

lemmas demo_detail_run =
  demo_multi_run multi_exec_proc_def [THEN fun_cong] print_def [THEN fun_cong]
  demo_console_world_def multi_world.extend_def demo_detail_arg

lemma demo_detail:
  "\<exists>t. detail_main multi_fuel script_platform demo_console_world = Ret () t \<and> sane (trace t) \<and>
     mu_active t = [] \<and> \<not> sigchld_active t \<and> cout t =
       ''process STARTED'' @ endl @ ''stdin_fd: 10'' @ endl @ ''process stdout(2)hi'' @ endl @
       ''process SIGNALED'' @ endl @ ''stdin_fd: 10'' @ endl @
       ''process STOPPED'' @ endl @ ''stdin_fd: -1'' @ endl"
  by (simp add: demo_detail_run detail_main_def [THEN fun_cong] sane_def terminal_status_def
      detail_state_def detail_output_def show_int_def demo_digits update_proc_status_fields
      del: multi_lazy)

subsection \<open>Two batches with one manager\<close>

text \<open>
  example/multi.cpp queues three programs whose output is printed when they have ended, and after
  the first run a fourth with callbacks like those above. The handles are numbered.
\<close>

definition show_status :: "pexec_status \<Rightarrow> string" where
  "show_status status = st_proc_out status @ endl"

definition batches_user :: "('k, 'z) console_world_scheme multi_user" where
  "batches_user = silent_user\<lparr>us_handle := (\<lambda>h.
     if h < 3 then on_stop (Some (\<lambda>status. print (show_status status))) (us_handle silent_user h)
     else detail_handle (us_handle silent_user h))\<rparr>"

definition batches_first :: "nat \<Rightarrow> 'k platform \<Rightarrow> (('k, 'z) console_world_scheme, unit) prog" where
  "batches_first N K =
     block [mu_construct K, multi_exec K 0 ''w'', multi_exec K 1 ''whoami'', multi_exec K 2 ''uname'',
            multi_stop K STOP_WAIT (-1), run N K batches_user]"

definition batches_second :: "nat \<Rightarrow> 'k platform \<Rightarrow> (('k, 'z) console_world_scheme, unit) prog" where
  "batches_second N K =
     block [multi_exec_proc K 3 ''dasdasd'' (\<lambda>h. skip), multi_stop K STOP_WAIT (-1), run N K batches_user,
            mu_destruct N K batches_user]"

definition batches_main :: "nat \<Rightarrow> 'k platform \<Rightarrow> (('k, 'z) console_world_scheme, unit) prog" where
  "batches_main N K = seq (batches_first N K) (batches_second N K)"

lemma batches_callbacks:
  "us_handle batches_user h = (if h < 3
     then (us_handle silent_user h)\<lparr>hu_on_stop := Some (\<lambda>status. print (show_status status))\<rparr>
     else us_handle detail_user h)"
  "us_error batches_user = None" "us_register batches_user = (\<lambda>fd act what. skip)"
  by (simp_all add: batches_user_def detail_user_def handle_setters silent_user_def)

lemma silent_callbacks:
  "us_handle silent_user h = \<lparr>hu_stdout = None, hu_stderr = None, hu_state = None, hu_error = None, hu_on_stop = None\<rparr>"
  by (simp add: silent_user_def)

interpretation bt: multi_client "batches_user :: ('k, 'z) console_world_scheme multi_user"
proof
  fix h k st p s p' t
  assume "hu_state (us_handle (batches_user :: ('k, 'z) console_world_scheme multi_user) h) = Some k"
    and "k st p s = Ret p' t"
  then show "calm {} s t \<and> ps_running p' = ps_running p \<and> ps_pid p' = ps_pid p"
    using dt.user_state [of h k st p s p' t]
    by (auto simp: batches_callbacks silent_callbacks split: if_splits)
qed (auto simp: batches_callbacks silent_callbacks intro: calm_print ca.pres_skip split: if_splits)

interpretation bt_pv: private_user "batches_user :: ('k, 'z) console_world_scheme multi_user"
  by unfold_locales
     (auto simp: batches_callbacks silent_callbacks intro!: ks.pres_intros print_private split: if_splits)

lemma batches_programs:
  "batches_first N K = seq (mu_construct K)
     (batch N K batches_user [(0, ''w''), (1, ''whoami''), (2, ''uname'')] STOP_WAIT (-1))"
  "batches_second N K = block [enqueue K [(3, ''dasdasd'')], multi_stop K STOP_WAIT (-1), run N K batches_user,
     mu_destruct N K batches_user]"
  by (simp_all add: batches_first_def batches_second_def batch_def enqueue_def multi_exec_def multi_exec_proc_def
      seq_laws)

text \<open>Printing makes no handle, so the number of the second batch's handle is free.\<close>

definition same_types :: "('k, 'z) console_world_scheme \<Rightarrow> ('k, 'z) console_world_scheme \<Rightarrow> bool" where
  "same_types s t \<longleftrightarrow> (\<exists>es. trace t = es @ trace s) \<and> (\<forall>h. px_type (objs t h) = px_type (objs s h))"

sublocale detail_platform \<subseteq> ty: manager_frame "same_types :: ('k, 'z) console_world_scheme \<Rightarrow> _" K batches_user
proof
  fix s t u :: "('k, 'z) console_world_scheme"
  show "same_types s s" by (simp add: same_types_def)
  show "same_types s t \<Longrightarrow> same_types t u \<Longrightarrow> same_types s u" by (auto simp: same_types_def)
  show "trace t = trace s \<Longrightarrow> (\<And>h. px_type (objs t h) = px_type (objs s h)) \<Longrightarrow> same_types s t"
    by (simp add: same_types_def)
  show "adds unreported s t \<Longrightarrow> same_types s t"
    using more_pexec [of t s] by (auto simp: adds_def same_types_def)
next
  show "pres (same_types :: ('k, 'z) console_world_scheme \<Rightarrow> _)
      (seq (note_event (EState st p)) (user_state batches_user h st p))" for st p h
    by (auto simp: user_state_def batches_callbacks silent_callbacks note_event_def print_def same_types_def ret_iffs
        intro!: presI)
  show "pres (same_types :: ('k, 'z) console_world_scheme \<Rightarrow> _)
      (seq (note_event (EError e)) (user_error batches_user h e))" for e h
    by (auto simp: user_error_def batches_callbacks silent_callbacks note_event_def print_def same_types_def ret_iffs
        intro!: presI)
  show "pres (same_types :: ('k, 'z) console_world_scheme \<Rightarrow> _)
      (seq (note_event (chan_event ch (take n buf))) (user_output batches_user h ch buf n))" for ch n buf h
    by (cases ch) (auto simp: user_output_def batches_callbacks silent_callbacks note_event_def print_def
        same_types_def ret_iffs intro!: presI)
qed (auto simp: fit batches_callbacks silent_callbacks print_def same_types_def pres_def ret_iffs split: if_splits)

lemma types_extends: "same_types s t \<Longrightarrow> extends s t"
  by (auto simp: same_types_def extends_def)

definition keeps_free :: "('k, 'z) console_world_scheme \<Rightarrow> ('k, 'z) console_world_scheme \<Rightarrow> bool" where
  "keeps_free s t \<longleftrightarrow> px_type (objs t 3) = px_type (objs s 3)"

interpretation kf: step_rel keeps_free
  by unfold_locales (simp_all add: keeps_free_def)

lemma free_if_same: "pres same_types m \<Longrightarrow> pres keeps_free m"
  by (auto simp: pres_def keeps_free_def same_types_def)

context detail_platform begin

lemma batches_run_extends:
  fixes s t :: "('k, 'z) console_world_scheme"
  shows "run N K batches_user s = Ret () t \<Longrightarrow> extends s t"
  by (intro types_extends presD [OF ty.R_run])

lemma batches_free:
  fixes s t :: "('k, 'z) console_world_scheme"
  assumes "batches_first N K s = Ret () t"
  shows "px_type (objs t 3) = px_type (objs s 3)"
proof -
  have made: "pres keeps_free (make_handle i args)" if "i \<noteq> 3" for i args
    using that by (auto simp: keeps_free_def make_handle_def handle_upd_def set_type_def this_upd_def ret_iffs
        intro!: presI)
  have "pres keeps_free (batches_first N K)"
    unfolding batches_first_def multi_exec_def multi_stop_def
    by (intro kf.pres_intros made free_if_same ty.R_around ty.R_send_job ty.R_run) simp_all
  from presD [OF this assms] show ?thesis by (simp add: keeps_free_def)
qed

end

text \<open>
  The whole program. When the first run was clean, its three programs have ended (or were not
  started), and the manager was ready for the second; afterwards the fourth has ended too, unless
  the loop left it behind, and nothing is left open.
\<close>

theorem batches_right:
  fixes s m t :: "('k, 'z) console_world_scheme"
  assumes K: "reads_fit K" and new: "no_manager s" and first: "batches_first N K s = Ret () m" and clean: "clean m"
    and second: "batches_second N K m = Ret () t" and sane: "sane (trace t)"
  shows "batches_main N K s = Ret () t \<and> at_rest m \<and>
    (\<forall>h < 3. final_state (st_state (mh_ret (mu_handles m h))) \<or> ps_pid (st_proc (mh_ret (mu_handles m h))) = 0) \<and>
    (3 \<in> active_handles t \<or> final_state (st_state (mh_ret (mu_handles t 3))) \<or>
     ps_pid (st_proc (mh_ret (mu_handles t 3))) = 0) \<and>
    (active_handles t = {} \<longrightarrow> \<not> sigchld_active t \<longrightarrow> open_fds (trace t) = open_fds (trace s))"
proof -
  let ?U = "batches_user :: ('k, 'z) console_world_scheme multi_user"
  let ?cmds = "[(0 :: nat, ''w''), (1, ''whoami''), (2, ''uname'')]"
  note U = bt.multi_client_axioms
  from first obtain c where c: "mu_construct K s = Ret () c" and b: "batch N K ?U ?cmds STOP_WAIT (-1) c = Ret () m"
    unfolding batches_programs by (auto simp: ret_iffs)
  from second obtain u v where u: "block [enqueue K [(3, ''dasdasd'')], multi_stop K STOP_WAIT (-1)] m = Ret () u"
    and v: "run N K ?U u = Ret () v" and t: "mu_destruct N K ?U v = Ret () t"
    unfolding batches_programs by (auto simp: ret_iffs)
  have mv: "sane (trace v)"
    using presD [OF multi_client.ext_destruct [OF U] t] sane by (rule extends_sane)
  have free: "\<forall>h. \<not> nonblocking h c" using new constructed(1) [OF c] by (simp add: no_manager_def)
  have dp: "detail_platform K" using K by (rule detail_platform.intro)
  from detail_platform.batches_free [OF dp first] new have "\<not> nonblocking 3 m" by (simp add: no_manager_def)
  then have h3: "\<forall>h \<in> set (map fst [(3::nat, ''dasdasd'')]). \<not> nonblocking h m" by simp
  have cmds: "distinct (map fst [(3::nat, ''dasdasd'')])" by simp
  note q = calm_queueing [OF u cmds h3]
  have "extends m u" using q(1) by (auto simp: calm_def extends_def)
  moreover have "extends u v" by (rule detail_platform.batches_run_extends [OF dp v])
  ultimately have sm: "sane (trace m)" using mv extends_sane by blast
  from b obtain d where d: "block [enqueue K ?cmds, multi_stop K STOP_WAIT (-1)] c = Ret () d"
    and m: "run N K ?U d = Ret () m" by (auto simp: batch_def ret_iffs)
  have dcmds: "distinct (map fst ?cmds)" "\<forall>h \<in> set (map fst ?cmds). \<not> nonblocking h c" using free by simp_all
  have "extends c d" using calm_queueing(1) [OF d dcmds] by (auto simp: calm_def extends_def)
  moreover have "extends d m" by (rule detail_platform.batches_run_extends [OF dp m])
  ultimately have "fresh_pipes (trace c)" using sm extends_fresh by (auto simp: sane_def)
  note rc = construct_at_rest [OF c new this]
  note bm = batch_at_rest [OF U K rc(1) dcmds b sm clean]
  note qu = queued_again [OF u bm(1) cmds h3]
  note de = destructed [OF U qu(1) v t sane]
  have "open_fds (trace u) - fds_of (mu_control_pipe u) = open_fds (trace s)"
    using qu bm rc(2,3) by auto
  with de(1) have p: "pipes_ok (open_fds (trace s)) t" by simp
  have "settled h m" if "h < 3" for h
  proof -
    from that have "h \<in> set (map fst ?cmds)" by auto
    with bm(7) have "nonblocking h m" by blast
    with bm(1) show ?thesis unfolding at_rest_def by blast
  qed
  then have "\<forall>h < 3. final_state (st_state (mh_ret (mu_handles m h))) \<or> ps_pid (st_proc (mh_ret (mu_handles m h))) = 0"
    by (auto simp: settled_def untouched_def ended_def simp del: pipe_of.simps)
  moreover have "3 \<in> active_handles t \<or> settled 3 t"
  proof -
    have mp: "multi_platform ?U K" using U K by (simp add: multi_platform_def multi_platform_axioms_def)
    from presD [OF multi_platform.handles_run(1) [OF mp] v] presD [OF multi_platform.handles_run(2) [OF mp] t] qu(6)
    have "nonblocking 3 t" by (simp add: keeps_handles_def)
    then show ?thesis using p by (auto simp: pipes_ok_def open_ok_def)
  qed
  moreover have "active_handles t = {} \<longrightarrow> \<not> sigchld_active t \<longrightarrow> open_fds (trace t) = open_fds (trace s)"
    using de(2-4) pipes_open_fds [OF p] by (auto simp: fds_of_def [of "(- 1, - 1)"])
  ultimately show ?thesis
    using first second bm(1)
    by (auto simp: batches_main_def ret_iffs settled_def untouched_def ended_def simp del: pipe_of.simps)
qed

subsection \<open>The program that prints a record\<close>

record 'k single_world = "'k exec_world" +
  single_cout :: string

text \<open>\<open>operator<<\<close> for a vector: its elements with a space between them.\<close>

definition show_vector :: "('a \<Rightarrow> string) \<Rightarrow> 'a list \<Rightarrow> string" where
  "show_vector f vec =
     concat (map (\<lambda>i. f (vec ! i) @ (if i + 1 \<noteq> length vec then '' '' else [])) [0..<length vec])"

definition single_text :: "(int \<Rightarrow> string) \<Rightarrow> pexec_status \<Rightarrow> string" where
  "single_text strerror r =
     (if \<not> valid r then ''error: '' @ show_vector (show_perror strerror) (st_err r) @ endl else []) @
     ''stdout(size='' @ show_int (int (length (st_proc_out r))) @ ''): '' @ endl @ st_proc_out r @ endl @
     ''stderr(size='' @ show_int (int (length (st_proc_err r))) @ ''): '' @ endl @ st_proc_err r @ endl"

definition single_main ::
  "nat \<Rightarrow> 'k platform \<Rightarrow> (int \<Rightarrow> string) \<Rightarrow> nat \<Rightarrow> (('k, 'z) single_world_scheme, unit) prog" where
  "single_main N K strerror this =
     bind (exec N K None this ''ls -la'')
       (\<lambda>r. upd (\<lambda>s. s\<lparr>single_cout := single_cout s @ single_text strerror r\<rparr>))"

text \<open>The call prints nothing itself.\<close>

locale single_platform =
  fixes K :: "'k platform" and this :: nat
  assumes fit: "reads_fit K"

sublocale single_platform \<subseteq> sp: px_frame
  "\<lambda>s t :: ('k, 'z) single_world_scheme. single_cout t = single_cout s" "exec_callbacks None" this K
proof
  fix s t :: "('k, 'z) single_world_scheme"
  show "single_cout t = single_cout s" if "adds unreported s t"
  proof -
    from that have "world.more t = world.more s" by (auto simp: adds_def)
    from more_pexec [OF this] show ?thesis by (cases s; cases t) simp
  qed
  show "seq (terminate_buffer this n) (deliver (exec_callbacks None) this ch n) s = Ret r t \<Longrightarrow>
    single_cout t = single_cout s" for n ch r
    by (cases ch) (auto simp: terminate_buffer_def deliver_def this_gets_def this_upd_def note_event_def ret_iffs)
next
  show "pres (\<lambda>s t :: ('k, 'z) single_world_scheme. single_cout t = single_cout s)
      (process_error (exec_callbacks None) this e)" for e
    by (auto simp: process_error_def note_event_def this_upd_def ret_iffs intro!: presI)
  show "pres (\<lambda>s t :: ('k, 'z) single_world_scheme. single_cout t = single_cout s)
      (call_state (exec_callbacks None) this st)" for st
    by (auto simp: call_state_def this_gets_def note_event_def this_upd_def ret_iffs intro!: presI)
qed (simp_all add: fit)

context single_platform begin

lemma exec_prints_nothing:
  fixes s t :: "('k, 'z) single_world_scheme"
  assumes "exec N K None this arg s = Ret st t"
  shows "single_cout t = single_cout s"
proof -
  have "pres (\<lambda>s t :: ('k, 'z) single_world_scheme. single_cout t = single_cout s) (exec N K None this arg)"
    unfolding exec_def exec_locals_def by (intro sp.step_intros sp.R_exec pres_upd) simp_all
  from presD [OF this assms] show ?thesis .
qed

end

interpretation si: single_platform script_platform 0
  by unfold_locales (rule reads_fit_script)

definition demo_single_world :: "script single_world" where
  "demo_single_world = exec_world.extend (demo_exec_world demo_script) \<lparr>single_cout = []\<rparr>"

lemmas demo_single_run =
  demo_exec_run demo_single_world_def exec_world.extend_def demo_detail_arg valid_def

lemma demo_single:
  "\<exists>t. single_main fuel script_platform strerror 0 demo_single_world = Ret () t \<and> fresh_pipes (trace t) \<and>
     errors_of (trace t) = [] \<and> trace demo_single_world = [] \<and> sigchld_blocking_pipe_signal demo_single_world = (-1, -1) \<and>
     single_cout t = ''stdout(size=2): '' @ endl @ ''hi'' @ endl @ ''stderr(size=0): '' @ endl @ endl"
  by (simp add: demo_single_run single_main_def [THEN fun_cong] single_text_def show_int_def demo_digits
      del: lazy)

subsection \<open>The test program\<close>

text \<open>
  example/multi\_test.cpp prints the whole record of a program when it has ended, and the
  manager's errors; its second part, about the numbers that \<open>pipe\<close> returns, is not modelled. \<open>strsignal\<close>
  and \<open>strerror\<close> are the C library's.
\<close>

definition test_text :: "(int \<Rightarrow> string) \<Rightarrow> (int \<Rightarrow> string) \<Rightarrow> pexec_status \<Rightarrow> string" where
  "test_text strsignal strerror r =
     show_proc_status strsignal (st_proc r) @ ''args: '' @ st_args r @ endl @
     ''state: '' @ state2str (st_state r) @ endl @
     (if \<not> valid r then ''error: '' @ show_vector (show_perror strerror) (st_err r) @ endl else []) @
     (if st_proc_out r \<noteq> [] then ''stdout(size='' @ show_int (int (length (st_proc_out r))) @ ''): '' @ endl @
        st_proc_out r @ endl else []) @
     (if st_proc_err r \<noteq> [] then ''stderr(size='' @ show_int (int (length (st_proc_err r))) @ ''): '' @ endl @
        st_proc_err r @ endl else []) @
     (if st_proc_err r = [] \<or> st_proc_err r = [] then endl else [])"

definition test_error :: "(int \<Rightarrow> string) \<Rightarrow> error \<Rightarrow> int \<Rightarrow> string" where
  "test_error strerror err code =
     ''pexec_multi error: '' @ error2string err @ '', ('' @ show_int code @ '') '' @ strerror code @ endl"

definition test_user :: "(int \<Rightarrow> string) \<Rightarrow> (int \<Rightarrow> string) \<Rightarrow> ('k, 'z) console_world_scheme multi_user" where
  "test_user strsignal strerror =
     mu_on_error (Some (\<lambda>err. bind (gets errno) (\<lambda>code. print (test_error strerror err code))))
       (silent_user\<lparr>us_handle := (\<lambda>h.
         on_stop (Some (\<lambda>r. print (test_text strsignal strerror r))) (us_handle silent_user h))\<rparr>)"

definition test_main ::
  "nat \<Rightarrow> 'k platform \<Rightarrow> (int \<Rightarrow> string) \<Rightarrow> (int \<Rightarrow> string) \<Rightarrow> (('k, 'z) console_world_scheme, unit) prog" where
  "test_main N K strsignal strerror =
     block [mu_construct K, multi_exec K 0 ''ls -la'', multi_stop K STOP_WAIT (-1),
            run N K (test_user strsignal strerror), print (''done'' @ endl),
            mu_destruct N K (test_user strsignal strerror)]"

interpretation te: multi_client "test_user strsignal strerror :: ('k, 'z) console_world_scheme multi_user"
  by unfold_locales
     (auto simp: test_user_def handle_setters silent_user_def ca.pres_skip
       intro: calm_print ca.pres_bind ca.pres_gets)

text \<open>It checks in its second part that no descriptor is left open, and none is.\<close>

theorem test_right:
  fixes s t :: "('k, 'z) console_world_scheme"
  assumes new: "no_manager s" and run: "test_main N K strsignal strerror s = Ret () t" and sane: "sane (trace t)"
    and ended: "active_handles t = {}" "\<not> sigchld_active t"
  shows "open_fds (trace t) = open_fds (trace s)"
proof -
  let ?U = "test_user strsignal strerror :: ('k, 'z) console_world_scheme multi_user"
  let ?cmds = "[(0 :: nat, ''ls -la'')]"
  note U = te.multi_client_axioms [of strsignal strerror]
  from run obtain u v w x where u: "mu_construct K s = Ret () u"
    and v: "block [enqueue K ?cmds, multi_stop K STOP_WAIT (-1)] u = Ret () v" and w: "run N K ?U v = Ret () w"
    and x: "print (''done'' @ endl) w = Ret () x" and t: "mu_destruct N K ?U x = Ret () t"
    unfolding test_main_def enqueue_def by (auto simp: multi_exec_def ret_iffs)
  have c: "calm {} w x" by (rule presD [OF calm_print x])
  have "extends w x" using c by (auto simp: calm_def extends_def)
  moreover have "sane (trace x)" using presD [OF multi_client.ext_destruct [OF U] t] sane by (rule extends_sane)
  ultimately have sw: "sane (trace w)" by (rule extends_sane)
  have cmds: "distinct (map fst ?cmds)" by simp
  have "sane (trace v)"
    using multi_client.run_extends [OF U queued_calm(3-5) [OF new cmds u v] w] sw by (rule extends_sane)
  note q = queued_at_rest [OF new cmds u v this]
  note r = multi_client.run_Ret [OF U q(1) w sw]
  have "pipes_ok (open_fds (trace s)) x" using calm_pipes [OF c] r unfolding q(2) by blast
  note d = multi_client.destruct_pipes [OF U this t]
  have k: "kept_books w x" by (rule calm_kept [OF c])
  then have off: "if mu_loop x then \<not> sigchld_active x else mu_sigchld x = NoSigchld"
    using r by (auto simp: kept_books_def)
  have "sigchld_active x \<or> fds_of (sigchld_pipe_signal x) = {}" using r k by (auto simp: kept_books_def)
  with d [OF off] ended have "fds_of (sigchld_pipe_signal t) = {}" by simp
  with d [OF off] ended pipes_open_fds [OF d(1) [OF off]] show ?thesis
    by (auto simp: fds_of_def [of "(- 1, - 1)"])
qed

subsection \<open>Properties\<close>

text \<open>
  Property C26. What example/multi\_detail.cpp shows is what happened. It satisfies the contract of
  a client, so the guarantees for programs with a manager hold for it: when it is through, it has
  printed exactly one text for each state, each error and each chunk of output of its program,
  in the order in which they happened, and nothing else; its program is still active, was never
  started, or ended in a final state; and when none is active and the signal handler could be taken back,
  the descriptors that are open are those that were open before.
\<close>

theorem detail_right:
  fixes s t :: "('k, 'z) console_world_scheme"
  assumes "reads_fit K" and "no_manager s" and "detail_main N K s = Ret () t" and "sane (trace t)"
  shows "\<exists>es. trace t = es @ trace s \<and> cout t = cout s @ detail_texts es \<and>
    (0 \<in> active_handles t \<or> final_state (st_state (mh_ret (mu_handles t 0))) \<or>
     ps_pid (st_proc (mh_ret (mu_handles t 0))) = 0) \<and>
    (active_handles t = {} \<longrightarrow> \<not> sigchld_active t \<longrightarrow> open_fds (trace t) = open_fds (trace s))"
proof -
  have run: "manager_program N K detail_user [(0, ''ls -la'')] STOP_WAIT (-1) s = Ret () t"
    using assms(3) by (simp add: detail_program)
  have "printed s t"
    by (rule detail_platform.detail_printed [OF detail_platform.intro assms(3)]) (rule assms(1))
  moreover note m = manager_program_Ret [OF dt.multi_client_axioms assms(2) _ run assms(4)]
  have "nonblocking 0 t"
    using manager_program_handles [OF dt.multi_client_axioms assms(1,2) _ run] by simp
  then have "0 \<notin> active_handles t \<Longrightarrow> settled 0 t"
    using m(1) by (simp add: pipes_ok_def open_ok_def)
  then have "0 \<in> active_handles t \<or> final_state (st_state (mh_ret (mu_handles t 0))) \<or>
      ps_pid (st_proc (mh_ret (mu_handles t 0))) = 0"
    by (auto simp: settled_def untouched_def ended_def simp del: pipe_of.simps)
  moreover have "active_handles t = {} \<longrightarrow> \<not> sigchld_active t \<longrightarrow> open_fds (trace t) = open_fds (trace s)"
    using m(2-4) pipes_open_fds [OF m(1)] by (auto simp: fds_of_def [of "(- 1, - 1)"])
  ultimately show ?thesis by (auto simp: printed_def)
qed

theorem detail_right_witness:
  "\<exists>t. detail_main multi_fuel script_platform demo_console_world = Ret () t \<and>
     cout t = detail_texts (trace t) \<and> open_fds (trace t) = {} \<and>
     cout t = ''process STARTED'' @ endl @ ''stdin_fd: 10'' @ endl @ ''process stdout(2)hi'' @ endl @
       ''process SIGNALED'' @ endl @ ''stdin_fd: 10'' @ endl @
       ''process STOPPED'' @ endl @ ''stdin_fd: -1'' @ endl"
proof -
  from demo_detail obtain t where t: "detail_main multi_fuel script_platform demo_console_world = Ret () t"
    "sane (trace t)" "mu_active t = []" "\<not> sigchld_active t"
    "cout t = ''process STARTED'' @ endl @ ''stdin_fd: 10'' @ endl @ ''process stdout(2)hi'' @ endl @
       ''process SIGNALED'' @ endl @ ''stdin_fd: 10'' @ endl @
       ''process STOPPED'' @ endl @ ''stdin_fd: -1'' @ endl" by blast
  have s: "no_manager demo_console_world" "trace demo_console_world = []" "cout demo_console_world = []"
    by (simp_all add: no_manager_def demo_console_world_def multi_world.extend_def demo_multi_world_def
        init_pexec_def fds_of_def)
  from detail_right [OF reads_fit_script s(1) t(1,2)] s t show ?thesis by auto
qed

text \<open>
  Property C27. What example/single.cpp shows: the sizes and texts of the output that the
  child's run delivered on its two output pipes, after the errors, which are printed exactly when
  one was reported; and afterwards the descriptors that are open are those that were open before.
\<close>

theorem single_report:
  fixes s t :: "('k, 'z) single_world_scheme"
  assumes "reads_fit K" and "fds_of (sigchld_blocking_pipe_signal s) = {}" and "closes_own (trace s)"
    and "fresh_pipes (trace t)" and "single_main N K strerror this s = Ret () t"
  shows "\<exists>es errs out err. trace t = es @ trace s \<and> open_fds (trace t) = open_fds (trace s) \<and>
    out = texts_of out_data es \<and> err = texts_of err_data es \<and> map pexec_error errs = errors_of es \<and>
    single_cout t = single_cout s @
      (if errs = [] then [] else ''error: '' @ show_vector (show_perror strerror) errs @ endl) @
      ''stdout(size='' @ show_int (int (length out)) @ ''): '' @ endl @ out @ endl @
      ''stderr(size='' @ show_int (int (length err)) @ ''): '' @ endl @ err @ endl"
proof -
  from assms(5) obtain st u where run: "exec N K None this ''ls -la'' s = Ret st u"
    and t: "t = u\<lparr>single_cout := single_cout u @ single_text strerror st\<rparr>"
    by (auto simp: single_main_def ret_iffs)
  from exec_facts [OF ec.exec_client_axioms assms(1) run assms(2,3)] assms(4) t
  obtain es where "trace u = es @ trace s" "open_fds (trace u) = open_fds (trace s)"
    "map pexec_error (st_err st) = errors_of es"
    "st_proc_out st = texts_of out_data es" "st_proc_err st = texts_of err_data es" by auto
  moreover have "single_cout u = single_cout s"
    by (rule single_platform.exec_prints_nothing [OF single_platform.intro run]) (rule assms(1))
  ultimately show ?thesis
    unfolding t by (intro exI [of _ es] exI [of _ "st_err st"]) (simp add: single_text_def valid_def)
qed

theorem single_report_witness:
  "\<exists>t. single_main fuel script_platform (\<lambda>_. []) 0 demo_single_world = Ret () t \<and>
     single_cout t =
       ''stdout(size='' @ show_int (int (length (texts_of out_data (trace t)))) @ ''): '' @ endl @
       texts_of out_data (trace t) @ endl @
       ''stderr(size='' @ show_int (int (length (texts_of err_data (trace t)))) @ ''): '' @ endl @
       texts_of err_data (trace t) @ endl \<and>
     single_cout t = ''stdout(size=2): '' @ endl @ ''hi'' @ endl @ ''stderr(size=0): '' @ endl @ endl"
proof -
  from demo_single [of "\<lambda>_. []"] obtain t where
    t: "single_main fuel script_platform (\<lambda>_. []) 0 demo_single_world = Ret () t" "fresh_pipes (trace t)"
      "errors_of (trace t) = []" and
    s: "trace demo_single_world = []" "sigchld_blocking_pipe_signal demo_single_world = (-1, -1)" and
    out: "single_cout t = ''stdout(size=2): '' @ endl @ ''hi'' @ endl @ ''stderr(size=0): '' @ endl @ endl"
    by blast
  have "fds_of (sigchld_blocking_pipe_signal demo_single_world) = {}" "closes_own (trace demo_single_world)"
    "single_cout demo_single_world = []"
    using s by (simp_all add: fds_of_def demo_single_world_def exec_world.extend_def)
  from single_report [OF reads_fit_script this(1,2) t(2,1)] this(3) t s(1)
  show ?thesis by (intro exI [of _ t]) (simp only: out, auto)
qed

end
