(* ===== verification/Spec2Isabelle.thy ===== *)
theory Spec2Isabelle
  imports Argument_Parser Queue_Buffer Pexec_Behaviour Bounds Multi_Stop Multi_Turn Examples
begin

section \<open>pexec: running programs and collecting their output\<close>

text \<open>
  This is a verification library for pexec, a C++ library that runs programs as child
  processes (\<open>src/src/pexec\<close>). The parts and how they use each other:

  A user calls \<open>exec\<close> (exec.cpp), which runs one program and returns a record of its output,
  state and errors; or uses the class \<open>pexec\<close> (pexec\_single.h) with callbacks of his own; or
  queues programs and a stop request with a \<open>pexec_multi\<close> (pexec\_multi.cpp), which runs many
  programs at once on one event loop. A \<open>pexec\<close> object parses the command line
  (argument\_parser.cpp), makes its pipes, installs a SIGCHLD handler that writes the signal
  number to a pipe (util.cpp), forks, and in the blocking mode runs an event loop of its own
  (event/select\_event.cpp) over its pipes until the child has ended. In the nonblocking mode
  the owner, \<open>pexec_multi\<close>, watches the descriptors, reads the signal pipe and reaps the children
  (signal/sigchld\_handler.cpp), and takes jobs from a queue that is filled by other threads
  (queue\_buffer.h).

  Theories and sources.

  \<^item> \<open>Prelude\<close>: programs with effects. A program takes the state and returns a value with the
    next state, or the end of the process (\<open>exit\<close>, a failed \<open>assert\<close>, a successful
    \<open>execvp\<close>), or \<open>Spin\<close>, a loop that has used up its bound. Then the rules by which a
    relation between the states before and after is carried through a program (\<open>pres\<close>, and
    \<open>hold\<close> with an invariant), as the locales \<open>step_rel\<close> and \<open>guarded\<close>.
  \<^item> \<open>Posix\<close>, \<open>Script_Platform\<close>: the system calls. Every call is a function of a \<open>platform\<close>
    record with a state of its own, so that a platform may answer anything; the calls and the
    uses of callbacks are noted in a \<open>trace\<close>, newest first, over which most properties are
    stated. \<open>Script_Platform\<close> is a concrete platform that answers from lists, for witnesses.
  \<^item> \<open>Argument_Parser\<close>, \<open>Errors\<close>, \<open>Proc_Status\<close>, \<open>Util\<close>: argument\_parser.cpp, error.h/.cpp,
    proc\_status.h/.cpp, util.cpp. The wait status is a 32 bit word; the W macros are those of
    the C library.
  \<^item> \<open>Queue_Buffer\<close>: queue\_buffer.h, as operations on a queue (locale \<open>fifo\<close>) and as a
    transition system of threads in a monitor with its mutex and condition variable.
  \<^item> \<open>Select_Event\<close>: event/select\_event.h/.cpp: the map of callbacks (locale \<open>registry\<close>), the
    iterator that is repaired on removal, a round, the loop (locale \<open>loop_client\<close>: what the
    callbacks respect, the loop respects).
  \<^item> \<open>Sigchld_Handler\<close>: signal/sigchld\_handler.h/.cpp.
  \<^item> \<open>Pexec_Single\<close>: the class \<open>pexec\<close>, every member function. \<open>Pexec_Contract\<close> states what
    the class needs from the user's callbacks (locales \<open>px_client\<close>, \<open>px_local_client\<close>) and what
    the object does between fork and stop; \<open>Pexec_Frame\<close> says from which steps a relation
    follows for every operation (locales \<open>px_steps\<close>, \<open>px_reads\<close>, \<open>px_frame\<close>), which
    \<open>Pexec_Trace\<close> uses for the growth of the trace and the mode of an object, and \<open>Exec\<close> for
    the record; \<open>Pexec_Pipes\<close> says who owns which descriptor; \<open>Pexec_Run\<close> evaluates an
    example; \<open>Pexec_Single_Props\<close> and \<open>Pexec_Behaviour\<close> hold the properties.
  \<^item> \<open>Pexec_Status\<close>, \<open>Exec\<close>: pexec\_status.h/.cpp and exec.cpp.
  \<^item> \<open>Pexec_Multi\<close>: pexec\_multi.h/.cpp, both classes, every member function. \<open>Multi_Run\<close>
    evaluates a whole run; \<open>Multi_Jobs\<close> holds the properties of single operations, each with the
    whole state they leave; \<open>Multi_Stop\<close> follows the rounds of the loop after the last process has
    ended, on pipes that hold bytes (\<open>byte_pipe\<close>, \<open>select_reports\<close>).
  \<^item> The invariant of the manager. \<open>Multi_Books\<close> states it (\<open>books\<close>: who owns which
    descriptor, which child is whose, what is registered and watched, what the queue may
    hold, and that a program which is not active was never started or has its final state), with the contract of the user's callbacks (locale \<open>multi_client\<close>) and a calculus
    of triples that assume a trace a real kernel can give (\<open>sane\<close>). \<open>Multi_Steps\<close> proves it for
    the end of a program, \<open>Multi_Start\<close> and \<open>Multi_Enrol\<close> for its start, \<open>Multi_Loop\<close> for the
    jobs, the reaping and the loop; \<open>Multi_Life\<close> is about \<open>run\<close>, \<open>Multi_Program\<close> about the
    constructor, the queueing and the destructor. \<open>Multi_Frame\<close> is the counterpart of
    \<open>Pexec_Frame\<close> for the manager (a relation that unreported events, the manager's own state
    and the user's callbacks respect is respected by every operation: locale \<open>job_steps\<close> for the
    start and the end of a program, \<open>job_frame\<close>, where it is also to respect the dispatching of
    jobs, for the loop, \<open>run\<close> and the destructor, \<open>manager_frame\<close> for both).
    \<open>Multi_Guarantees\<close> holds the properties, and interprets the contract for user code.
    \<open>Multi_Turn\<close> adds that no queued program is lost, for user code that does not write the
    private \<open>stopping_\<close> (locale \<open>private_user\<close>).
  \<^item> \<open>Examples\<close>: four of the programs under \<open>src/example\<close>, as clients: they keep the contracts, so
    the guarantees hold for them, and what they print follows the trace.

  What the properties show. For the blocking mode they are about every run that returns, on
  every platform that hands out fresh descriptors and never reads more than it was asked for,
  with all user callbacks that keep the contract: the order of the state callbacks, that every
  descriptor is closed exactly once, that the output callbacks get exactly the bytes read,
  what happens to the disposition of SIGCHLD, and that the record \<open>exec\<close> returns is true to all
  this. For the event loop: a round calls every ready descriptor at most once and misses none
  that is still watched. For the handler: all children are reaped, whatever \<open>waitpid\<close> answers,
  the signal number survives partial reads. For the queue: order, and no lost wakeup in any
  interleaving. For \<open>pexec_multi\<close>: the stop protocol on every branch, the end of a process
  and the end of the loop, each as the exact state that follows; that the loop's rounds come to
  an end after the last process, when the pipes have room for what is written; and for every run, any number of programs
  and any user code within the contract, that each event of a watched descriptor goes to the
  function registered for it, that the books stay right, and that a manager which was run and
  destroyed leaves no descriptor open and SIGCHLD as it was, with every program of it at its
  end, active, or still queued, or ready for the next batch. Some properties state where the code
  does not do what it means to: they are named in the text before them.

  Bounds. \<open>N\<close> bounds every loop of the code (rounds, steps of a round, retries after EINTR);
  \<open>Spin\<close> says that it was used up. Theory \<open>Bounds\<close> proves that a run which ends within
  one bound ends in the same way, in the same state, with every larger one (the order
  \<open>approx\<close> on programs, respected by every operation), so no result depends on it. Loops whose
  end is proved state the bound that is enough: \<open>reap_loop\<close> one more than the answers,
  \<open>read_signal_bytes\<close> the number of answers, \<open>read_retry\<close> one more than the interruptions, and
  the loop of a manager whose last process has ended one round for each queued job and two more,
  with a bound of 4 for the three descriptors of a round. The examples use six and nine. A blocking
  event loop cannot be shown to end: that is up to the child.

  Undefined behaviour and exceptions. An \<open>std::function\<close> that is empty throws, which ends a
  program that does not catch it: it is the end of the process here. The manager's error callback is
  destroyed before its SIGCHLD handler object; the destructor runs with \<open>dead_user\<close>, for which a
  call of it ends the process.

  Not modelled. The declaration of copy operations. The user's callbacks are an argument of the
  operations; the setters act on that argument, so callbacks do not change during a run. The
  memory of shared pointers beyond what refers to a handle; a rehash of a hash map during an
  iteration, which is undefined behaviour of the code; descriptors beyond FD\_SETSIZE; the
  handler interrupting the program between two calls (what it writes is read from the pipe); a
  state callback that starts another blocking run inside the first. Of the examples,
  multi\_libevent2.cpp is a client of libevent, which is not part of the repository, and
  multi\_thread.cpp runs the manager in a second thread (the queue between the threads is the
  monitor of \<open>Queue_Buffer\<close>). The programs under \<open>src/test\<close> only print.
\<close>

end
